(* ===== verification/Prelude.thy ===== *)
theory Prelude
  imports Main "HOL-Library.AList"
begin

text \<open>
  What the components share: Python exceptions as values, the result type and its
  sequencing operators, Python's short-circuiting \<open>all\<close>, decimal numerals
  (\<open>str\<close> of an \<open>int\<close>) and their inverse, and the string operations the sources use.
  Exceptions carry their class only; their messages are not modelled. \<open>Unmodelled\<close> is no exception:
  it marks the result of a computation that leaves the values the model represents.
\<close>

named_theorems res_simps \<open>unfolding the result type's operators\<close>
named_theorems res_elims \<open>inverting a successful computation\<close>

section \<open>Exceptions and results\<close>

datatype py_error =
    AssertionError
  | AttributeError
  | IndexError
  | KeyError
  | KSTypeError
  | NameError
  | NotImplementedError
  | OverflowError
  | ParseError
  | RecursionError
  | TypeError
  | ValueError
  | ZeroDivisionError
  | Unmodelled

type_synonym 'a result = "py_error + 'a"

text \<open>Sequencing: the second computation runs only when the first did not raise.\<close>

definition bindE :: "'a result \<Rightarrow> ('a \<Rightarrow> 'b result) \<Rightarrow> 'b result" where
  "bindE m f = (case m of Inl e \<Rightarrow> Inl e | Inr x \<Rightarrow> f x)"

lemma bindE_simps [simp, res_simps]:
  "bindE (Inl e) f = Inl e" "bindE (Inr x) f = f x"
  by (simp_all add: bindE_def)

lemma bindE_cong [fundef_cong]:
  "m = m' \<Longrightarrow> (\<And>x. m' = Inr x \<Longrightarrow> f x = f' x) \<Longrightarrow> bindE m f = bindE m' f'"
  by (cases m') auto

lemma bindE_eq_Inr [res_simps]: "bindE m f = Inr y \<longleftrightarrow> (\<exists>x. m = Inr x \<and> f x = Inr y)"
  by (cases m) auto

lemma bindE_eq_Inl:
  "bindE m f = Inl e \<longleftrightarrow> m = Inl e \<or> (\<exists>x. m = Inr x \<and> f x = Inl e)"
  by (cases m) auto

lemma bindE_InrE [elim!, res_elims]:
  assumes "bindE m f = Inr y"
  obtains x where "m = Inr x" "f x = Inr y"
  using assms by (auto simp: bindE_eq_Inr)

lemma bindE_assoc: "bindE (bindE m f) g = bindE m (\<lambda>x. bindE (f x) g)"
  by (cases m) auto

lemma bindE_Inr_right [simp]: "bindE m Inr = m"
  by (cases m) auto

text \<open>An \<open>assert\<close> statement, and a check that raises another exception.\<close>

definition raise_unless :: "py_error \<Rightarrow> bool \<Rightarrow> unit result" where
  "raise_unless e b = (if b then Inr () else Inl e)"

abbreviation assertE :: "bool \<Rightarrow> unit result" where
  "assertE b \<equiv> raise_unless AssertionError b"

lemma raise_unless_simps [simp, res_simps]:
  "raise_unless e True = Inr ()" "raise_unless e False = Inl e"
  "raise_unless e b = Inr u \<longleftrightarrow> b"
  by (auto simp: raise_unless_def)

text \<open>A list comprehension whose element expression may raise: left to right.\<close>

fun mapE :: "('a \<Rightarrow> 'b result) \<Rightarrow> 'a list \<Rightarrow> 'b list result" where
  "mapE f [] = Inr []"
| "mapE f (x # xs) = bindE (f x) (\<lambda>y. bindE (mapE f xs) (\<lambda>ys. Inr (y # ys)))"

lemma mapE_cong [fundef_cong]:
  "xs = ys \<Longrightarrow> (\<And>x. x \<in> set ys \<Longrightarrow> f x = g x) \<Longrightarrow> mapE f xs = mapE g ys"
proof (induction xs arbitrary: ys)
  case Nil
  then show ?case by simp
next
  case (Cons x xs)
  then have "f x = g x" "mapE f xs = mapE g xs" by auto
  with Cons.prems(1) show ?case by (metis mapE.simps(2))
qed

lemma mapE_Inr_iff: "mapE f xs = Inr ys \<longleftrightarrow> list_all2 (\<lambda>x y. f x = Inr y) xs ys"
proof (induction xs arbitrary: ys)
  case Nil
  then show ?case by auto
next
  case (Cons x xs)
  show ?case
    by (cases ys) (auto simp: bindE_eq_Inr Cons.IH)
qed

lemma mapE_length: "mapE f xs = Inr ys \<Longrightarrow> length ys = length xs"
  by (auto simp: mapE_Inr_iff dest: list_all2_lengthD)

lemma mapE_nth: "mapE f xs = Inr ys \<Longrightarrow> i < length xs \<Longrightarrow> f (xs ! i) = Inr (ys ! i)"
  by (auto simp: mapE_Inr_iff list_all2_conv_all_nth)

lemma mapE_total: "(\<And>x. x \<in> set xs \<Longrightarrow> f x = Inr (g x)) \<Longrightarrow> mapE f xs = Inr (map g xs)"
  by (induction xs) auto

lemma mapE_map: "mapE f (map g xs) = mapE (f \<circ> g) xs"
  by (induction xs) auto

lemma mapE_ex_Inr: "(\<exists>ys. mapE f xs = Inr ys) \<longleftrightarrow> (\<forall>x \<in> set xs. \<exists>y. f x = Inr y)"
proof (induction xs)
  case (Cons x xs)
  then show ?case by (auto simp: bindE_eq_Inr)
qed simp

text \<open>Python's \<open>all(f(x, y) for x, y in zip(xs, ys))\<close>: it stops at the first false
  element, so an exception further on is not raised.\<close>

fun all2_py :: "('a \<Rightarrow> 'b \<Rightarrow> bool result) \<Rightarrow> 'a list \<Rightarrow> 'b list \<Rightarrow> bool result" where
  "all2_py f (x # xs) (y # ys) = bindE (f x y) (\<lambda>b. if b then all2_py f xs ys else Inr False)"
| "all2_py f _ _ = Inr True"

lemma all2_py_cong [fundef_cong]:
  "xs = xs' \<Longrightarrow> ys = ys' \<Longrightarrow> (\<And>x y. x \<in> set xs' \<Longrightarrow> y \<in> set ys' \<Longrightarrow> f x y = g x y) \<Longrightarrow>
   all2_py f xs ys = all2_py g xs' ys'"
proof (induction xs arbitrary: ys xs' ys')
  case Nil
  then show ?case by simp
next
  case (Cons x xs)
  show ?case
  proof (cases ys)
    case Nil
    with Cons.prems show ?thesis by auto
  next
    case (Cons z zs)
    with Cons.prems have "f x z = g x z" "all2_py f xs zs = all2_py g xs zs"
      by (auto intro: Cons.IH)
    with Cons Cons.prems show ?thesis by (auto cong: if_cong)
  qed
qed

lemma all2_py_Inr:
  "all2_py f xs ys = Inr b \<Longrightarrow> length xs = length ys \<Longrightarrow>
   (\<And>x y c. x \<in> set xs \<Longrightarrow> y \<in> set ys \<Longrightarrow> f x y = Inr c \<Longrightarrow> c = P x y) \<Longrightarrow>
   b = list_all2 P xs ys"
proof (induction xs arbitrary: ys)
  case Nil
  then show ?case by simp
next
  case (Cons x xs)
  then obtain z zs where ys: "ys = z # zs" by (cases ys) auto
  with Cons.prems(1) obtain c where c: "f x z = Inr c"
    and r: "(if c then all2_py f xs zs else Inr False) = Inr b" by auto
  have cP: "c = P x z" using Cons.prems(3) [OF _ _ c] ys by simp
  show ?case
  proof (cases c)
    case True
    with r have "all2_py f xs zs = Inr b" by simp
    moreover have "length xs = length zs" using Cons.prems(2) ys by simp
    ultimately have "b = list_all2 P xs zs"
      using Cons.prems(3) ys by (intro Cons.IH) auto
    with True cP ys show ?thesis by simp
  next
    case False
    with r cP ys show ?thesis by simp
  qed
qed

lemma all2_py_True:
  "all2_py f xs ys = Inr True \<Longrightarrow> length xs = length ys \<Longrightarrow>
   list_all2 (\<lambda>x y. f x y = Inr True) xs ys"
proof (induction f xs ys rule: all2_py.induct)
  case (1 f x xs y ys)
  then show ?case by (auto split: if_splits)
qed auto

text \<open>Recursion through \<open>zip\<close> decreases both sides.\<close>

lemma zip_size_left [termination_simp]:
  "(x, y) \<in> set (zip xs ys) \<Longrightarrow> size x < Suc (size_list size xs)"
  by (meson le_imp_less_Suc set_zip_leftD size_list_estimation' order_refl)

lemma zip_size_right [termination_simp]:
  "(x, y) \<in> set (zip xs ys) \<Longrightarrow> size y < Suc (size_list size ys)"
  by (meson le_imp_less_Suc set_zip_rightD size_list_estimation' order_refl)

lemma enumerate_size: "(i, x) \<in> set (enumerate n xs) \<Longrightarrow> size x < Suc (size_list size xs)"
  unfolding enumerate_eq_zip by (rule zip_size_right)

declare enumerate_size [termination_simp]

lemma nth_size [termination_simp]: "i < length xs \<Longrightarrow> size (xs ! i) < Suc (size_list size xs)"
  by (meson le_imp_less_Suc nth_mem size_list_estimation' order_refl)

lemma in_enumerate_iff: "x \<in> set (enumerate 0 xs) \<longleftrightarrow> (\<exists>i < length xs. x = (i, xs ! i))"
  by (cases x) (auto simp: in_set_enumerate_eq)

text \<open>A map over an enumerated list, position by position.\<close>

lemma map_enumerate_cong:
  "(\<And>i. i < length xs \<Longrightarrow> f (i, xs ! i) = g (i, xs ! i)) \<Longrightarrow>
   map f (enumerate 0 xs) = map g (enumerate 0 xs)"
  by (rule nth_equalityI) (auto simp: nth_enumerate_eq)

lemma map_enumerate_snd:
  "(\<And>i. i < length xs \<Longrightarrow> f (i, xs ! i) = g (xs ! i)) \<Longrightarrow> map f (enumerate 0 xs) = map g xs"
  by (rule nth_equalityI) (auto simp: nth_enumerate_eq)

lemma zip_pairs_iff:
  "length xs = length ys \<and> (\<forall>(x, y) \<in> set (zip xs ys). P x y) \<longleftrightarrow> list_all2 P xs ys"
  by (auto simp: list_all2_iff)

section \<open>Decimal numerals\<close>

definition digit_char :: "nat \<Rightarrow> char" where
  "digit_char d = char_of (48 + d)"

definition char_digit :: "char \<Rightarrow> nat" where
  "char_digit c = (of_char c :: nat) - 48"

definition is_digit :: "char \<Rightarrow> bool" where
  "is_digit c \<longleftrightarrow> 48 \<le> (of_char c :: nat) \<and> (of_char c :: nat) \<le> 57"

lemma char_digit_digit_char [simp]: "d < 10 \<Longrightarrow> char_digit (digit_char d) = d"
  by (simp add: char_digit_def digit_char_def)

lemma is_digit_digit_char [simp]: "d < 10 \<Longrightarrow> is_digit (digit_char d)"
  by (simp add: is_digit_def digit_char_def)

text \<open>\<open>str(n)\<close> of a non-negative integer.\<close>

fun nat_str :: "nat \<Rightarrow> string" where
  "nat_str n = (if n < 10 then [digit_char n] else nat_str (n div 10) @ [digit_char (n mod 10)])"

declare nat_str.simps [simp del]

text \<open>\<open>int(s)\<close> of a string of decimal digits.\<close>

definition str_nat :: "string \<Rightarrow> nat" where
  "str_nat s = foldl (\<lambda>n c. 10 * n + char_digit c) 0 s"

lemma str_nat_nat_str [simp]: "str_nat (nat_str n) = n"
proof (induction n rule: nat_str.induct)
  case (1 n)
  show ?case
  proof (cases "n < 10")
    case True
    then show ?thesis by (simp add: nat_str.simps [of n] str_nat_def)
  next
    case False
    with "1" have "str_nat (nat_str (n div 10)) = n div 10" by simp
    with False show ?thesis by (simp add: nat_str.simps [of n] str_nat_def)
  qed
qed

lemma nat_str_inj: "nat_str m = nat_str n \<longleftrightarrow> m = n"
  by (metis str_nat_nat_str)

lemma nat_str_digits: "\<forall>c \<in> set (nat_str n). is_digit c"
proof (induction n rule: nat_str.induct)
  case (1 n)
  then show ?case by (cases "n < 10") (simp_all add: nat_str.simps [of n])
qed

lemma nat_str_nonempty [simp]: "nat_str n \<noteq> []"
  by (subst nat_str.simps) simp

text \<open>\<open>str(i)\<close> of any integer.\<close>

definition int_str :: "int \<Rightarrow> string" where
  "int_str i = (if i < 0 then CHR ''-'' # nat_str (nat (- i)) else nat_str (nat i))"

lemma minus_not_digit: "\<not> is_digit (CHR ''-'')"
  by (simp add: is_digit_def)

lemma int_str_inj: "int_str i = int_str j \<longleftrightarrow> i = j"
proof -
  have hd: "nat_str n \<noteq> CHR ''-'' # s" for n s
    using nat_str_digits [of n] minus_not_digit by auto
  show ?thesis
    using hd [of "nat i"] hd [of "nat j"] hd [symmetric]
    by (auto simp: int_str_def nat_str_inj)
qed

text \<open>A run of digits followed by a non-digit splits uniquely.\<close>

lemma digits_split:
  assumes "\<forall>c \<in> set xs. P c" "\<forall>c \<in> set ys. P c"
    and "xs' = [] \<or> \<not> P (hd xs')" "ys' = [] \<or> \<not> P (hd ys')"
    and "xs @ xs' = ys @ ys'"
  shows "xs = ys \<and> xs' = ys'"
  using assms
proof (induction xs arbitrary: ys)
  case Nil
  then show ?case by (cases ys) auto
next
  case (Cons x xs)
  then show ?case by (cases ys) auto
qed

section \<open>Strings\<close>

text \<open>\<open>sep.join(strs)\<close>\<close>

fun str_join :: "string \<Rightarrow> string list \<Rightarrow> string" where
  "str_join sep [] = []"
| "str_join sep [s] = s"
| "str_join sep (s # t # ss) = s @ sep @ str_join sep (t # ss)"

text \<open>\<open>s.startswith(p)\<close>\<close>

definition starts_with :: "string \<Rightarrow> string \<Rightarrow> bool" where
  "starts_with p s \<longleftrightarrow> take (length p) s = p"

lemma starts_with_iff: "starts_with p s \<longleftrightarrow> (\<exists>r. s = p @ r)"
  by (metis append_eq_conv_conj starts_with_def)

text \<open>\<open>s.replace(c, r)\<close> for a one-character \<open>c\<close>.\<close>

definition replace_char :: "char \<Rightarrow> string \<Rightarrow> string \<Rightarrow> string" where
  "replace_char c r s = concat (map (\<lambda>x. if x = c then r else [x]) s)"

lemma replace_char_simps [simp]:
  "replace_char c r [] = []"
  "replace_char c r (x # s) = (if x = c then r else [x]) @ replace_char c r s"
  by (simp_all add: replace_char_def)

section \<open>Dictionaries\<close>

text \<open>
  A Python \<open>dict\<close> whose order or whose list of values matters is an association list
  with distinct keys, kept in insertion order; \<open>AList.update\<close> is \<open>{**d, k: v}\<close>.
\<close>

type_synonym ('k, 'v) dict = "('k \<times> 'v) list"

definition dict_filter :: "('k \<Rightarrow> 'v \<Rightarrow> bool) \<Rightarrow> ('k, 'v) dict \<Rightarrow> ('k, 'v) dict" where
  "dict_filter P d = filter (\<lambda>(k, v). P k v) d"

lemma map_of_dict_filter_key:
  "map_of (dict_filter (\<lambda>k v. P k) d) x = (if P x then map_of d x else None)"
  by (induction d) (auto simp: dict_filter_def)

lemma distinct_dict_filter:
  "distinct (map fst d) \<Longrightarrow> distinct (map fst (dict_filter P d))"
  by (induction d) (auto simp: dict_filter_def)

lemma set_dict_filter: "(k, v) \<in> set (dict_filter P d) \<longleftrightarrow> (k, v) \<in> set d \<and> P k v"
  by (auto simp: dict_filter_def)

end
