(* ===== verification/KsType.thy ===== *)
theory KsType
  imports Prelude
begin

text \<open>
  The type language, \<open>src/python/ksc/type.py\<close>: the class \<open>Type\<close> with its constructor
  checks, predicates, equality and renderings, the size types, and the two type-level functions
  \<open>tangent_type\<close> and \<open>shape_type\<close>. A \<open>Type\<close> object is a kind and a list of children; the
  datatype has one constructor per kind. A rank is an unbounded Python \<open>int\<close>.
\<close>

section \<open>The class Type\<close>

datatype ty =
    Integer
  | Float
  | Bool
  | String
  | Any
  | Tensor int ty
  | Tuple "ty list"
  | LamT ty ty
  | LM ty ty

fun ty_kind :: "ty \<Rightarrow> string" where
  "ty_kind Integer = ''Integer''"
| "ty_kind Float = ''Float''"
| "ty_kind Bool = ''Bool''"
| "ty_kind String = ''String''"
| "ty_kind Any = ''Any''"
| "ty_kind (Tensor _ _) = ''Tensor''"
| "ty_kind (Tuple _) = ''Tuple''"
| "ty_kind (LamT _ _) = ''Lam''"
| "ty_kind (LM _ _) = ''LM''"

definition node_kinds :: "(string, int) dict" where
  "node_kinds =
     [(''Tensor'', 2), (''Tuple'', -1), (''Integer'', 0), (''Float'', 0), (''Bool'', 0),
      (''String'', 0), (''Any'', 0), (''Lam'', 2), (''LM'', 2)]"

text \<open>
  \<open>Type.__init__\<close>: a child is an \<open>int\<close> (\<open>Inl\<close>) or a \<open>Type\<close> (\<open>Inr\<close>).
\<close>

definition type_init :: "string \<Rightarrow> (int + ty) list \<Rightarrow> ty result" where
  "type_init k cs =
     (case map_of node_kinds k of
        None \<Rightarrow> Inl ValueError
      | Some n \<Rightarrow>
          if k \<noteq> ''Tuple'' \<and> n \<noteq> int (length cs) then Inl KSTypeError
          else if k = ''Tensor'' then
            (case cs of [Inl r, Inr t] \<Rightarrow> Inr (Tensor r t) | _ \<Rightarrow> Inl AssertionError)
          else if list_ex isl cs then Inl AssertionError
          else if k = ''Tuple'' then Inr (Tuple (map projr cs))
          else if k = ''Lam'' then Inr (LamT (projr (cs ! 0)) (projr (cs ! 1)))
          else if k = ''LM'' then Inr (LM (projr (cs ! 0)) (projr (cs ! 1)))
          else if k = ''Integer'' then Inr Integer
          else if k = ''Float'' then Inr Float
          else if k = ''Bool'' then Inr Bool
          else if k = ''String'' then Inr String
          else Inr Any)"

definition is_type_introducer :: "string \<Rightarrow> bool" where
  "is_type_introducer s \<longleftrightarrow> map_of node_kinds s \<noteq> None"

fun is_scalar :: "ty \<Rightarrow> bool" where
  "is_scalar Integer = True"
| "is_scalar Float = True"
| "is_scalar Bool = True"
| "is_scalar String = True"
| "is_scalar _ = False"

fun is_lam_or_LM :: "ty \<Rightarrow> bool" where
  "is_lam_or_LM (LamT _ _) = True"
| "is_lam_or_LM (LM _ _) = True"
| "is_lam_or_LM _ = False"

fun is_tensor :: "ty \<Rightarrow> bool" where
  "is_tensor (Tensor _ _) = True"
| "is_tensor _ = False"

fun is_tuple :: "ty \<Rightarrow> bool" where
  "is_tuple (Tuple _) = True"
| "is_tuple _ = False"

text \<open>The accessors raise \<open>AssertionError\<close> on a type of another kind.\<close>

fun tensor_rank :: "ty \<Rightarrow> int result" where
  "tensor_rank (Tensor r _) = Inr r"
| "tensor_rank _ = Inl AssertionError"

fun tensor_elem_type :: "ty \<Rightarrow> ty result" where
  "tensor_elem_type (Tensor _ t) = Inr t"
| "tensor_elem_type _ = Inl AssertionError"

fun tuple_elems :: "ty \<Rightarrow> ty list result" where
  "tuple_elems (Tuple ts) = Inr ts"
| "tuple_elems _ = Inl AssertionError"

definition tuple_len :: "ty \<Rightarrow> nat result" where
  "tuple_len t = bindE (tuple_elems t) (\<lambda>ts. Inr (length ts))"

text \<open>\<open>self.children[i]\<close> of a tuple: a negative index counts from the end.\<close>

definition py_index :: "'a list \<Rightarrow> int \<Rightarrow> 'a result" where
  "py_index items k =
     (if 0 \<le> k \<and> nat k < length items then Inr (items ! nat k)
      else if k < 0 \<and> nat (- k) \<le> length items then Inr (items ! (length items - nat (- k)))
      else Inl IndexError)"

definition tuple_elem :: "ty \<Rightarrow> int \<Rightarrow> ty result" where
  "tuple_elem t i = bindE (tuple_elems t) (\<lambda>ts. py_index ts i)"

fun lam_arg_type :: "ty \<Rightarrow> ty result" where
  "lam_arg_type (LamT s _) = Inr s"
| "lam_arg_type (LM s _) = Inr s"
| "lam_arg_type _ = Inl AssertionError"

fun lam_return_type :: "ty \<Rightarrow> ty result" where
  "lam_return_type (LamT _ t) = Inr t"
| "lam_return_type (LM _ t) = Inr t"
| "lam_return_type _ = Inl AssertionError"

section \<open>Equality and acceptance\<close>

text \<open>\<open>Type.__eq__\<close>: kinds first, then the children one by one.\<close>

fun type_eq :: "ty \<Rightarrow> ty \<Rightarrow> bool" where
  "type_eq (Tensor r t) (Tensor s u) \<longleftrightarrow> r = s \<and> type_eq t u"
| "type_eq (Tuple ts) (Tuple us) \<longleftrightarrow>
     length ts = length us \<and> (\<forall>(t, u) \<in> set (zip ts us). type_eq t u)"
| "type_eq (LamT a b) (LamT c d) \<longleftrightarrow> type_eq a c \<and> type_eq b d"
| "type_eq (LM a b) (LM c d) \<longleftrightarrow> type_eq a c \<and> type_eq b d"
| "type_eq t u \<longleftrightarrow> ty_kind t = ty_kind u"

text \<open>\<open>Type.can_accept_value_of_type\<close>\<close>

fun can_accept_value_of_type :: "ty \<Rightarrow> ty \<Rightarrow> bool" where
  "can_accept_value_of_type Any u \<longleftrightarrow> True"
| "can_accept_value_of_type (Tensor r t) (Tensor s u) \<longleftrightarrow> can_accept_value_of_type t u \<and> r = s"
| "can_accept_value_of_type (Tuple ts) (Tuple us) \<longleftrightarrow>
     length ts = length us \<and> (\<forall>(t, u) \<in> set (zip ts us). can_accept_value_of_type t u)"
| "can_accept_value_of_type (LamT a b) (LamT c d) \<longleftrightarrow>
     can_accept_value_of_type a c \<and> can_accept_value_of_type b d"
| "can_accept_value_of_type (LM a b) (LM c d) \<longleftrightarrow>
     can_accept_value_of_type a c \<and> can_accept_value_of_type b d"
| "can_accept_value_of_type t u \<longleftrightarrow> ty_kind t = ty_kind u"

fun contains_any :: "ty \<Rightarrow> bool" where
  "contains_any Any \<longleftrightarrow> True"
| "contains_any (Tensor _ t) \<longleftrightarrow> contains_any t"
| "contains_any (Tuple ts) \<longleftrightarrow> (\<exists>t \<in> set ts. contains_any t)"
| "contains_any (LamT a b) \<longleftrightarrow> contains_any a \<or> contains_any b"
| "contains_any (LM a b) \<longleftrightarrow> contains_any a \<or> contains_any b"
| "contains_any _ \<longleftrightarrow> False"

lemma ty_kind_atom [simp]:
  "ty_kind t = ''Integer'' \<longleftrightarrow> t = Integer" "''Integer'' = ty_kind t \<longleftrightarrow> t = Integer"
  "ty_kind t = ''Float'' \<longleftrightarrow> t = Float" "''Float'' = ty_kind t \<longleftrightarrow> t = Float"
  "ty_kind t = ''Bool'' \<longleftrightarrow> t = Bool" "''Bool'' = ty_kind t \<longleftrightarrow> t = Bool"
  "ty_kind t = ''String'' \<longleftrightarrow> t = String" "''String'' = ty_kind t \<longleftrightarrow> t = String"
  "ty_kind t = ''Any'' \<longleftrightarrow> t = Any" "''Any'' = ty_kind t \<longleftrightarrow> t = Any"
  by (cases t; simp)+

lemma type_eq_iff [simp]: "type_eq t u \<longleftrightarrow> t = u"
proof (induction t u rule: type_eq.induct)
  case (2 ts us)
  have "(\<forall>(t, u) \<in> set (zip ts us). type_eq t u) \<longleftrightarrow> (\<forall>(t, u) \<in> set (zip ts us). t = u)"
    using "2" by fastforce
  then show ?case
    using zip_pairs_iff [of ts us "(=)"] by (simp only: type_eq.simps list.rel_eq ty.inject)
qed auto

named_theorems can_accept_iff \<open>which types a type accepts, by its constructor\<close>

lemma can_accept_Tuple [can_accept_iff]:
  "can_accept_value_of_type (Tuple ts) u \<longleftrightarrow>
   (\<exists>us. u = Tuple us \<and> list_all2 can_accept_value_of_type ts us)"
  by (cases u) (simp_all add: zip_pairs_iff)

lemma can_accept_other [can_accept_iff]:
  "can_accept_value_of_type Integer u \<longleftrightarrow> u = Integer"
  "can_accept_value_of_type Float u \<longleftrightarrow> u = Float"
  "can_accept_value_of_type Bool u \<longleftrightarrow> u = Bool"
  "can_accept_value_of_type String u \<longleftrightarrow> u = String"
  "can_accept_value_of_type (Tensor r t) u \<longleftrightarrow>
     (\<exists>t'. u = Tensor r t' \<and> can_accept_value_of_type t t')"
  "can_accept_value_of_type (LamT a b) u \<longleftrightarrow>
     (\<exists>a' b'. u = LamT a' b' \<and> can_accept_value_of_type a a' \<and> can_accept_value_of_type b b')"
  "can_accept_value_of_type (LM a b) u \<longleftrightarrow>
     (\<exists>a' b'. u = LM a' b' \<and> can_accept_value_of_type a a' \<and> can_accept_value_of_type b b')"
  by ((cases u; auto)[1])+

lemma can_accept_to_Any: "can_accept_value_of_type t Any \<longleftrightarrow> t = Any"
  by (cases t) auto

declare can_accept_value_of_type.simps(2-) [simp del]

lemma can_accept_refl [simp]: "can_accept_value_of_type t t"
  by (induction t) (auto simp: can_accept_iff list_all2_same)

lemma can_accept_trans:
  "can_accept_value_of_type t u \<Longrightarrow> can_accept_value_of_type u v \<Longrightarrow> can_accept_value_of_type t v"
proof (induction t arbitrary: u v)
  case (Tuple ts)
  then obtain us where u: "u = Tuple us" "list_all2 can_accept_value_of_type ts us"
    by (auto simp: can_accept_iff)
  with Tuple.prems obtain vs where v: "v = Tuple vs" "list_all2 can_accept_value_of_type us vs"
    by (auto simp: can_accept_iff)
  have "list_all2 can_accept_value_of_type ts vs"
    using u(2) v(2) Tuple.IH by (auto simp: list_all2_conv_all_nth)
  with v show ?case by (simp add: can_accept_iff)
qed (auto simp: can_accept_iff)

lemma can_accept_antisym:
  "can_accept_value_of_type t u \<Longrightarrow> can_accept_value_of_type u t \<Longrightarrow> t = u"
proof (induction t arbitrary: u)
  case (Tuple ts)
  then obtain us where u: "u = Tuple us" "list_all2 can_accept_value_of_type ts us"
    "list_all2 can_accept_value_of_type us ts"
    by (auto simp: can_accept_iff)
  have "ts = us"
    using u(2,3) Tuple.IH by (auto simp: list_all2_conv_all_nth intro!: nth_equalityI)
  with u show ?case by simp
qed (auto simp: can_accept_iff can_accept_to_Any)

lemma can_accept_no_any:
  "\<not> contains_any t \<Longrightarrow> can_accept_value_of_type t u \<longleftrightarrow> t = u"
proof (induction t arbitrary: u)
  case (Tuple ts)
  have "ts = us" if "list_all2 can_accept_value_of_type ts us" for us
    using that Tuple by (auto simp: list_all2_conv_all_nth intro!: nth_equalityI)
  moreover have "list_all2 can_accept_value_of_type ts ts"
    by (simp add: list_all2_same)
  ultimately show ?case by (auto simp: can_accept_iff)
qed (auto simp: can_accept_iff)

section \<open>Element types and dimensions\<close>

fun all_element_types :: "ty \<Rightarrow> ty set" where
  "all_element_types (Tuple ts) = (\<Union>t \<in> set ts. all_element_types t)"
| "all_element_types (Tensor _ t) = all_element_types t"
| "all_element_types t = {t}"

text \<open>\<open>Type.ndim_recursive\<close>: \<open>None\<close> for a tuple, a lambda or \<open>Any\<close>.\<close>

fun ndim_recursive :: "ty \<Rightarrow> int option" where
  "ndim_recursive (Tensor _ t) =
     (case ndim_recursive t of Some n \<Rightarrow> Some (n + 1) | None \<Rightarrow> Some 1)"
| "ndim_recursive t = (if is_scalar t then Some 0 else None)"

text \<open>\<open>make_tuple_if_many\<close> on a list of types.\<close>

definition make_tuple_if_many :: "ty list \<Rightarrow> ty" where
  "make_tuple_if_many ts = (if length ts = 1 then ts ! 0 else Tuple ts)"

section \<open>Renderings\<close>

text \<open>\<open>Type.shortstr\<close>: the brackets given apply to the outermost tuple only.\<close>

fun shortstr :: "string \<Rightarrow> string \<Rightarrow> ty \<Rightarrow> string result" where
  "shortstr tb te Integer = Inr ''i''"
| "shortstr tb te Bool = Inr ''b''"
| "shortstr tb te String = Inr ''s''"
| "shortstr tb te Float = Inr ''f''"
| "shortstr tb te (LamT _ _) = Inr ''l''"
| "shortstr tb te (LM _ _) = Inr ''l''"
| "shortstr tb te (Tuple ts) =
     bindE (mapE (shortstr ''<'' ''>'') ts) (\<lambda>ss. Inr (tb @ concat ss @ te))"
| "shortstr tb te (Tensor r t) =
     bindE (shortstr ''<'' ''>'' t) (\<lambda>s. Inr (''T'' @ int_str r @ s))"
| "shortstr tb te Any = Inl ValueError"

definition shortstr_py_friendly :: "ty \<Rightarrow> string result" where
  "shortstr_py_friendly t = shortstr ''_t'' ''t_'' t"

text \<open>\<open>Type.__str__\<close>\<close>

fun type_str :: "ty \<Rightarrow> string" where
  "type_str (Tensor r t) = ''('' @ str_join '' '' [''Tensor'', int_str r, type_str t] @ '')''"
| "type_str (Tuple ts) = ''('' @ str_join '' '' (''Tuple'' # map type_str ts) @ '')''"
| "type_str (LamT a b) =
     ''('' @ str_join '' '' [''Lam'', type_str a @ ''('' @ type_str b @ '')''] @ '')''"
| "type_str (LM a b) =
     ''('' @ str_join '' '' [''LM'', type_str a @ ''('' @ type_str b @ '')''] @ '')''"
| "type_str t = ty_kind t"

text \<open>\<open>Type.__repr__\<close>; \<open>str.capitalize\<close> changes one kind only, \<open>LM\<close> to \<open>Lm\<close>.\<close>

definition capitalize_kind :: "string \<Rightarrow> string" where
  "capitalize_kind k = (if k = ''LM'' then ''Lm'' else k)"

fun type_repr :: "ty \<Rightarrow> string" where
  "type_repr (Tensor r t) = ''Type.Tensor('' @ str_join '', '' [int_str r, type_repr t] @ '')''"
| "type_repr (Tuple ts) = ''Type.Tuple('' @ str_join '', '' (map type_repr ts) @ '')''"
| "type_repr (LamT a b) = ''Type.Lam('' @ str_join '', '' [type_repr a, type_repr b] @ '')''"
| "type_repr (LM a b) =
     ''Type.'' @ capitalize_kind ''LM'' @ ''('' @ str_join '', '' [type_repr a, type_repr b] @ '')''"
| "type_repr t = ''Type.'' @ capitalize_kind (ty_kind t)"

text \<open>
  A short string can be read back: \<open>shortstr\<close> is a prefix code on the types without lambdas
  (every lambda type renders as \<open>l\<close>).
\<close>

fun lam_free :: "ty \<Rightarrow> bool" where
  "lam_free (LamT _ _) \<longleftrightarrow> False"
| "lam_free (LM _ _) \<longleftrightarrow> False"
| "lam_free (Tuple ts) \<longleftrightarrow> (\<forall>t \<in> set ts. lam_free t)"
| "lam_free (Tensor _ t) \<longleftrightarrow> lam_free t"
| "lam_free _ \<longleftrightarrow> True"

abbreviation shortstr0 :: "ty \<Rightarrow> string result" where
  "shortstr0 \<equiv> shortstr ''<'' ''>''"

lemma shortstr_hd:
  "shortstr0 t = Inr s \<Longrightarrow> \<exists>c r. s = c # r \<and> c \<in> set ''ibsfl<T''"
  by (cases t) (auto simp: bindE_eq_Inr)

definition rank_char :: "char \<Rightarrow> bool" where
  "rank_char c \<longleftrightarrow> is_digit c \<or> c = CHR ''-''"

lemma int_str_rank_chars: "\<forall>c \<in> set (int_str r). rank_char c"
  using nat_str_digits by (auto simp: int_str_def rank_char_def)

lemma shortstr_hd_not_rank: "shortstr0 t = Inr s \<Longrightarrow> s @ r = [] \<or> \<not> rank_char (hd (s @ r))"
  by (drule shortstr_hd) (auto simp: rank_char_def is_digit_def)

text \<open>The first character of a short string decides the constructor.\<close>

lemma shortstr_first_i:
  "lam_free u \<Longrightarrow> shortstr0 u = Inr s \<Longrightarrow> s @ r = CHR ''i'' # w \<Longrightarrow>
   u = Integer \<and> w = r"
  by (cases u; auto simp: bindE_eq_Inr)

lemma shortstr_first_b:
  "lam_free u \<Longrightarrow> shortstr0 u = Inr s \<Longrightarrow> s @ r = CHR ''b'' # w \<Longrightarrow>
   u = Bool \<and> w = r"
  by (cases u; auto simp: bindE_eq_Inr)

lemma shortstr_first_s:
  "lam_free u \<Longrightarrow> shortstr0 u = Inr s \<Longrightarrow> s @ r = CHR ''s'' # w \<Longrightarrow>
   u = String \<and> w = r"
  by (cases u; auto simp: bindE_eq_Inr)

lemma shortstr_first_f:
  "lam_free u \<Longrightarrow> shortstr0 u = Inr s \<Longrightarrow> s @ r = CHR ''f'' # w \<Longrightarrow>
   u = Float \<and> w = r"
  by (cases u; auto simp: bindE_eq_Inr)

lemma shortstr_first_tuple:
  "lam_free u \<Longrightarrow> shortstr0 u = Inr s \<Longrightarrow> s @ r = CHR ''<'' # w \<Longrightarrow>
   \<exists>us ss. u = Tuple us \<and> mapE shortstr0 us = Inr ss \<and> w = concat ss @ ''>'' @ r"
  by (cases u; auto simp: bindE_eq_Inr)

lemma shortstr_first_tensor:
  "lam_free u \<Longrightarrow> shortstr0 u = Inr s \<Longrightarrow> s @ r = CHR ''T'' # w \<Longrightarrow>
   \<exists>n v s'. u = Tensor n v \<and> shortstr0 v = Inr s' \<and> w = int_str n @ s' @ r"
  by (cases u; auto simp: bindE_eq_Inr)

lemmas shortstr_first_char = shortstr_first_i shortstr_first_b shortstr_first_s shortstr_first_f
  shortstr_first_tuple shortstr_first_tensor

definition decodes :: "ty \<Rightarrow> bool" where
  "decodes t \<longleftrightarrow> (\<forall>u s s' r r'. lam_free u \<longrightarrow> shortstr0 t = Inr s \<longrightarrow> shortstr0 u = Inr s' \<longrightarrow>
     s @ r = s' @ r' \<longrightarrow> t = u \<and> r = r')"

lemma decodesD:
  "decodes t \<Longrightarrow> lam_free u \<Longrightarrow> shortstr0 t = Inr s \<Longrightarrow> shortstr0 u = Inr s' \<Longrightarrow>
   s @ r = s' @ r' \<Longrightarrow> t = u \<and> r = r'"
  unfolding decodes_def by blast

lemma shortstr_list_decode:
  assumes "list_all decodes ts" "list_all lam_free us"
    and "mapE shortstr0 ts = Inr ss" "mapE shortstr0 us = Inr ss'"
    and "concat ss @ e @ r = concat ss' @ e @ r'"
    and "e = ''>'' \<or> e = [] \<and> r = [] \<and> r' = []"
  shows "ts = us \<and> r = r'"
  using assms
proof (induction ts arbitrary: us ss ss')
  case Nil
  show ?case
  proof (cases us)
    case Nil
    with Nil.prems show ?thesis by auto
  next
    case (Cons u us')
    with Nil.prems obtain s' ss0 where "ss' = s' # ss0" "shortstr0 u = Inr s'" "ss = []"
      by (auto simp: bindE_eq_Inr)
    with Nil.prems(5,6) shortstr_hd [of u s'] show ?thesis by auto
  qed
next
  case (Cons t ts)
  from Cons.prems(3) obtain s ss0 where s: "ss = s # ss0" "shortstr0 t = Inr s"
    "mapE shortstr0 ts = Inr ss0" by (auto simp: bindE_eq_Inr)
  show ?case
  proof (cases us)
    case Nil
    with Cons.prems(4) have "ss' = []" by simp
    with Cons.prems(5,6) s shortstr_hd [of t s] show ?thesis by auto
  next
    case us: (Cons u us')
    with Cons.prems(4) obtain s' ss0' where s': "ss' = s' # ss0'" "shortstr0 u = Inr s'"
      "mapE shortstr0 us' = Inr ss0'" by (auto simp: bindE_eq_Inr)
    have eq: "s @ (concat ss0 @ e @ r) = s' @ (concat ss0' @ e @ r')"
      using Cons.prems(5) s s' by simp
    have "decodes t" "lam_free u" "list_all decodes ts" "list_all lam_free us'"
      using Cons.prems(1,2) us by auto
    then have "t = u \<and> concat ss0 @ e @ r = concat ss0' @ e @ r'"
      by (intro decodesD [OF _ _ s(2) s'(2) eq])
    moreover from this have "ts = us' \<and> r = r'"
      using \<open>list_all decodes ts\<close> \<open>list_all lam_free us'\<close> s(3) s'(3) Cons.prems(6)
      by (intro Cons.IH [of us' ss0 ss0']) blast+
    ultimately show ?thesis using us by simp
  qed
qed

lemma shortstr_prefix_code: "lam_free t \<Longrightarrow> decodes t"
proof (induction t)
  case (Tuple ts)
  then have ts: "list_all decodes ts" by (simp add: list_all_iff)
  show ?case
    unfolding decodes_def
  proof (intro allI impI)
    fix u s s' r r'
    assume u: "lam_free u" "shortstr0 u = Inr s'" and s: "shortstr0 (Tuple ts) = Inr s"
      and eq: "s @ r = s' @ r'"
    from s obtain ss where ss: "mapE shortstr0 ts = Inr ss" "s = ''<'' @ concat ss @ ''>''"
      by (auto simp: bindE_eq_Inr)
    with eq have "s' @ r' = CHR ''<'' # (concat ss @ ''>'' @ r)" by simp
    from shortstr_first_char(5) [OF u this] obtain us ss' where
      us: "u = Tuple us" "mapE shortstr0 us = Inr ss'" "concat ss @ ''>'' @ r = concat ss' @ ''>'' @ r'"
      by blast
    have "list_all lam_free us" using u(1) us(1) by (simp add: list_all_iff)
    from shortstr_list_decode [OF ts this ss(1) us(2,3)] us(1)
    show "Tuple ts = u \<and> r = r'" by simp
  qed
next
  case (Tensor n t)
  show ?case
    unfolding decodes_def
  proof (intro allI impI)
    fix u s s' r r'
    assume u: "lam_free u" "shortstr0 u = Inr s'" and s: "shortstr0 (Tensor n t) = Inr s"
      and eq: "s @ r = s' @ r'"
    from s obtain s0 where s0: "shortstr0 t = Inr s0" "s = ''T'' @ int_str n @ s0"
      by (auto simp: bindE_eq_Inr)
    with eq have "s' @ r' = CHR ''T'' # (int_str n @ s0 @ r)" by simp
    from shortstr_first_char(6) [OF u this] obtain m v s1 where
      v: "u = Tensor m v" "shortstr0 v = Inr s1" "int_str n @ s0 @ r = int_str m @ s1 @ r'"
      by blast
    have "int_str n = int_str m \<and> s0 @ r = s1 @ r'"
      by (rule digits_split [OF int_str_rank_chars int_str_rank_chars
            shortstr_hd_not_rank [OF s0(1)] shortstr_hd_not_rank [OF v(2)] v(3)])
    moreover from this have "t = v \<and> r = r'"
      using Tensor u(1) v(1) by (intro decodesD [OF _ _ s0(1) v(2)]) auto
    ultimately show "Tensor n t = u \<and> r = r'" using v(1) by (simp add: int_str_inj)
  qed
qed (auto simp: decodes_def dest: shortstr_first_char [OF _ _ sym])

text \<open>
  Without the outermost brackets, as a mangled name prints its argument type, the one thing lost
  is the difference between a type and the one-tuple of it.
\<close>

definition one_tuple_eq :: "ty \<Rightarrow> ty \<Rightarrow> bool" where
  "one_tuple_eq t u \<longleftrightarrow> t = u \<or> t = Tuple [u] \<or> u = Tuple [t]"

lemma shortstr_unbracketed_single:
  "shortstr [] [] t = Inr s \<Longrightarrow> \<not> is_tuple t \<Longrightarrow> mapE shortstr0 [t] = Inr [s]"
  by (cases t) (auto simp: bindE_eq_Inr)

lemma shortstr_unbracketed_elems:
  assumes "shortstr [] [] t = Inr s" "lam_free t"
  shows "\<exists>ts ss. mapE shortstr0 ts = Inr ss \<and> s = concat ss \<and> list_all lam_free ts \<and>
    (t = Tuple ts \<or> ts = [t] \<and> \<not> is_tuple t)"
proof (cases "is_tuple t")
  case True
  then obtain ts where "t = Tuple ts" by (cases t) auto
  with assms show ?thesis by (auto simp: bindE_eq_Inr list_all_iff)
next
  case False
  with assms shortstr_unbracketed_single show ?thesis
    by (intro exI [of _ "[t]"] exI [of _ "[s]"]) auto
qed

lemma shortstr_unbracketed_inj:
  assumes "lam_free t" "lam_free u" "shortstr [] [] t = Inr s" "shortstr [] [] u = Inr s"
  shows "one_tuple_eq t u"
proof -
  from shortstr_unbracketed_elems [OF assms(3,1)] obtain ts ss where
    ts: "mapE shortstr0 ts = Inr ss" "s = concat ss" "list_all lam_free ts"
    "t = Tuple ts \<or> ts = [t] \<and> \<not> is_tuple t" by blast
  from shortstr_unbracketed_elems [OF assms(4,2)] obtain us ss' where
    us: "mapE shortstr0 us = Inr ss'" "s = concat ss'" "list_all lam_free us"
    "u = Tuple us \<or> us = [u] \<and> \<not> is_tuple u" by blast
  have "list_all decodes ts" using ts(3) shortstr_prefix_code by (auto simp: list_all_iff)
  from shortstr_list_decode [OF this us(3) ts(1) us(1), of "[]" "[]" "[]"] ts(2) us(2)
  have "ts = us" by simp
  with ts(4) us(4) show ?thesis by (auto simp: one_tuple_eq_def)
qed

section \<open>Size types\<close>

definition SizeType_from_rank :: "int \<Rightarrow> ty" where
  "SizeType_from_rank n = (if n = 1 then Integer else Tuple (replicate (nat n) Integer))"

fun SizeType_get_rank :: "ty \<Rightarrow> int option" where
  "SizeType_get_rank Integer = Some 1"
| "SizeType_get_rank (Tuple ts) =
     (if list_all (\<lambda>t. type_eq t Integer) ts then Some (int (length ts)) else None)"
| "SizeType_get_rank _ = None"

definition SizeType_isa :: "ty \<Rightarrow> bool" where
  "SizeType_isa t \<longleftrightarrow> SizeType_get_rank t \<noteq> None"

lemma SizeType_get_rank_Some_iff:
  "SizeType_get_rank t = Some n \<longleftrightarrow>
   0 \<le> n \<and> (t = SizeType_from_rank n \<or> n = 1 \<and> t = Tuple [Integer])"
proof (cases t)
  case (Tuple ts)
  have "list_all (\<lambda>t. type_eq t Integer) ts \<longleftrightarrow> ts = replicate (length ts) Integer"
    by (metis (mono_tags, lifting) in_set_replicate list_all_iff replicate_eqI type_eq_iff)
  with Tuple show ?thesis
    by (auto simp: SizeType_from_rank_def)
qed (auto simp: SizeType_from_rank_def)

section \<open>Tangent and shape types\<close>

fun tangent_type :: "ty \<Rightarrow> ty result" where
  "tangent_type String = Inr (Tuple [])"
| "tangent_type Integer = Inr (Tuple [])"
| "tangent_type Bool = Inr (Tuple [])"
| "tangent_type Float = Inr Float"
| "tangent_type (Tuple ts) = bindE (mapE tangent_type ts) (\<lambda>us. Inr (Tuple us))"
| "tangent_type (Tensor r t) = bindE (tangent_type t) (\<lambda>u. Inr (Tensor r u))"
| "tangent_type _ = Inl NotImplementedError"

text \<open>
  \<open>shape_type\<close>. The first pass over the children of a tuple stops early, the second visits all of
  them again; both raise the same exception, so one pass decides.
\<close>

fun shape_type :: "ty \<Rightarrow> ty result" where
  "shape_type (Tuple ts) =
     bindE (mapE shape_type ts) (\<lambda>us. if list_all is_scalar us then Inr (Tuple []) else Inr (Tuple us))"
| "shape_type (Tensor r t) =
     (if is_scalar t then Inr (SizeType_from_rank r)
      else bindE (shape_type t) (\<lambda>u. Inr (Tensor r u)))"
| "shape_type t = (if is_scalar t then Inr (Tuple []) else Inl NotImplementedError)"

text \<open>The types that are data: no lambda and no \<open>Any\<close> inside.\<close>

definition data_type :: "ty \<Rightarrow> bool" where
  "data_type t \<longleftrightarrow> lam_free t \<and> \<not> contains_any t"

lemma data_type_simps [simp]:
  "data_type Integer" "data_type Float" "data_type Bool" "data_type String" "\<not> data_type Any"
  "\<not> data_type (LamT a b)" "\<not> data_type (LM a b)"
  "data_type (Tensor r t) \<longleftrightarrow> data_type t"
  "data_type (Tuple ts) \<longleftrightarrow> (\<forall>t \<in> set ts. data_type t)"
  by (auto simp: data_type_def)

lemma tangent_type_defined: "(\<exists>u. tangent_type t = Inr u) \<longleftrightarrow> data_type t"
proof (induction t)
  case (Tuple ts)
  have "(\<exists>u. tangent_type (Tuple ts) = Inr u) \<longleftrightarrow> (\<exists>us. mapE tangent_type ts = Inr us)"
    by (auto simp: bindE_eq_Inr)
  then show ?case by (simp add: mapE_ex_Inr Tuple.IH)
qed (auto simp: bindE_eq_Inr)

lemma shape_type_defined: "(\<exists>u. shape_type t = Inr u) \<longleftrightarrow> data_type t"
proof (induction t)
  case (Tuple ts)
  have "(\<exists>u. shape_type (Tuple ts) = Inr u) \<longleftrightarrow> (\<exists>us. mapE shape_type ts = Inr us)"
    by (auto simp: bindE_eq_Inr)
  then show ?case by (simp add: mapE_ex_Inr Tuple.IH)
next
  case (Tensor r t)
  have "is_scalar t \<Longrightarrow> data_type t" by (cases t) auto
  with Tensor show ?case by (auto simp: bindE_eq_Inr)
qed auto

lemma tangent_type_idem_aux: "tangent_type t = Inr u \<Longrightarrow> tangent_type u = Inr u"
proof (induction t arbitrary: u)
  case (Tuple ts)
  then obtain us where us: "mapE tangent_type ts = Inr us" "u = Tuple us"
    by (auto simp: bindE_eq_Inr)
  have "mapE tangent_type us = Inr us"
    unfolding mapE_Inr_iff list_all2_conv_all_nth
    using Tuple.IH [OF nth_mem mapE_nth [OF us(1)]] mapE_length [OF us(1)] by simp
  with us show ?case by simp
next
  case (Tensor r t)
  then obtain v where "tangent_type t = Inr v" "u = Tensor r v"
    by (auto simp: bindE_eq_Inr)
  with Tensor.IH [of v] show ?case by simp
next
  case (LamT a b)
  from LamT.prems show ?case by simp
next
  case (LM a b)
  from LM.prems show ?case by simp
qed auto

text \<open>What a shape is made of: sizes, tuples of shapes and tensors of shapes.\<close>

fun is_shape_type :: "ty \<Rightarrow> bool" where
  "is_shape_type Integer \<longleftrightarrow> True"
| "is_shape_type (Tuple ts) \<longleftrightarrow> (\<forall>t \<in> set ts. is_shape_type t)"
| "is_shape_type (Tensor _ t) \<longleftrightarrow> is_shape_type t"
| "is_shape_type _ \<longleftrightarrow> False"

lemma shape_type_is_shape_aux: "shape_type t = Inr u \<Longrightarrow> is_shape_type u"
proof (induction t arbitrary: u)
  case (Tuple ts)
  then obtain us where us: "mapE shape_type ts = Inr us" "u = Tuple [] \<or> u = Tuple us"
    by (auto simp: bindE_eq_Inr split: if_splits)
  have "\<forall>u \<in> set us. is_shape_type u"
    using Tuple.IH [OF nth_mem mapE_nth [OF us(1)]] mapE_length [OF us(1)]
    by (auto simp: in_set_conv_nth)
  with us(2) show ?case by auto
qed (auto simp: bindE_eq_Inr SizeType_from_rank_def split: if_splits)

section \<open>Properties\<close>

text \<open>
  Acceptance of one type by another is a partial order, coincides with equality on the types
  without \<open>Any\<close>, has \<open>Any\<close> as its greatest element, and \<open>==\<close> on types is structural equality.
\<close>

theorem acceptance_order:
  "reflp can_accept_value_of_type \<and> transp can_accept_value_of_type \<and>
   antisymp can_accept_value_of_type \<and> (\<forall>u. can_accept_value_of_type Any u) \<and>
   (\<forall>t u. contains_any t \<or> can_accept_value_of_type t u = (t = u)) \<and>
   (\<forall>t u. type_eq t u = (t = u))"
  by (auto intro!: reflpI transpI antisympI can_accept_antisym simp: can_accept_no_any
      intro: can_accept_trans)



text \<open>
  A type has a tangent type exactly when it is data (no lambda, no linear map, no \<open>Any\<close>
  inside), the only error is \<open>NotImplementedError\<close>, and the tangent type of a tangent type is itself.
\<close>

theorem tangent_type_correct:
  "(\<exists>u. tangent_type t = Inr u) = data_type t \<and>
   bindE (tangent_type t) tangent_type = tangent_type t"
  by (simp add: tangent_type_defined) (simp add: bindE_def tangent_type_idem_aux split: sum.splits)

text \<open>
  A type has a shape type exactly when it is data, and a shape type is made of sizes: integers,
  tuples and tensors of them, and nothing else.
\<close>

theorem shape_type_correct:
  "(\<exists>u. shape_type t = Inr u) = data_type t \<and> 
   (case shape_type t of Inl e \<Rightarrow> True | Inr u \<Rightarrow> is_shape_type u)"
  by (simp add: shape_type_defined shape_type_is_shape_aux split: sum.splits)

text \<open>
  The shape type of a tuple of vectors is the empty tuple: \<open>shape_type\<close> tests the shapes of the
  elements for being scalar, and the shape of a vector is its length, so all the lengths are lost.
\<close>

theorem shape_type_of_vectors:
  assumes "list_all is_scalar ts"
  shows "shape_type (Tuple (map (Tensor 1) ts)) = Inr (Tuple [])"
proof -
  have "mapE shape_type (map (Tensor 1) ts) = Inr (map (\<lambda>_. Integer) ts)"
    using assms by (induction ts) (simp_all add: SizeType_from_rank_def)
  then show ?thesis by (simp add: list_all_iff)
qed

theorem shape_type_of_vectors_witness:
  "shape_type (Tuple [Tensor 1 Float, Tensor 1 Integer]) = Inr (Tuple [])"
  using shape_type_of_vectors [of "[Float, Integer]"] by simp

text \<open>
  \<open>SizeType.get_rank\<close> inverts \<open>SizeType.from_rank\<close>: exactly the size type of a rank has that
  rank, with the one-tuple of an integer as the only other spelling of rank 1.
\<close>

lemma SizeType_rank_exact:
  "(SizeType_get_rank t = Some n) =
   (0 \<le> n \<and> (t = SizeType_from_rank n \<or> n = 1 \<and> t = Tuple [Integer]))"
  by (rule SizeType_get_rank_Some_iff)

end
