(* ===== verification/KsNames.thy ===== *)
theory KsNames
  imports KsType
begin

text \<open>
  Structured names, the first part of \<open>src/python/ksc/expr.py\<close>: a function is named by a
  string, by a string with an argument type, or as a derivation (\<open>rev\<close>, \<open>fwd\<close>, \<open>shape\<close>, ...) of
  another structured name. The field \<open>se\<close> of the class is a union of three shapes; the datatype
  has a constructor for each.
\<close>

datatype sname =
    SName string
  | STyped string ty
  | SDerived string sname

fun is_derivation :: "sname \<Rightarrow> bool" where
  "is_derivation (SDerived _ _) \<longleftrightarrow> True"
| "is_derivation _ \<longleftrightarrow> False"

definition is_derived :: "sname \<Rightarrow> string \<Rightarrow> bool" where
  "is_derived sn d \<longleftrightarrow> is_derivation sn \<and> (case sn of SDerived d' _ \<Rightarrow> d' = d | _ \<Rightarrow> False)"

text \<open>\<open>StructuredName.mangled\<close> raises what \<open>Type.shortstr\<close> raises.\<close>

fun mangled :: "sname \<Rightarrow> string result" where
  "mangled (SName s) = Inr s"
| "mangled (SDerived d sn) = bindE (mangled sn) (\<lambda>m. Inr (d @ ''$'' @ m))"
| "mangled (STyped s t) = bindE (shortstr [] [] t) (\<lambda>m. Inr (s @ ''@'' @ m))"

fun has_type :: "sname \<Rightarrow> bool" where
  "has_type (SName _) \<longleftrightarrow> False"
| "has_type (SDerived _ sn) \<longleftrightarrow> has_type sn"
| "has_type (STyped _ _) \<longleftrightarrow> True"

fun get_type :: "sname \<Rightarrow> ty option" where
  "get_type (SName _) = None"
| "get_type (SDerived _ sn) = get_type sn"
| "get_type (STyped _ t) = Some t"

fun add_type :: "sname \<Rightarrow> ty \<Rightarrow> sname \<times> ty option" where
  "add_type (SName s) t = (STyped s t, None)"
| "add_type (SDerived d sn) t = (let (new_sn, old_ty) = add_type sn t in (SDerived d new_sn, old_ty))"
| "add_type (STyped s old) t = (STyped s t, Some old)"

fun mangle_without_type :: "sname \<Rightarrow> string" where
  "mangle_without_type (SName s) = s"
| "mangle_without_type (SDerived d sn) = d @ ''$'' @ mangle_without_type sn"
| "mangle_without_type (STyped s _) = s"

fun sname_str :: "sname \<Rightarrow> string" where
  "sname_str (SName s) = s"
| "sname_str (SDerived d sn) = ''['' @ d @ '' '' @ sname_str sn @ '']''"
| "sname_str (STyped s t) = ''['' @ s @ '' '' @ type_str t @ '']''"

definition from_str :: "string \<Rightarrow> sname result" where
  "from_str s = bindE (assertE (CHR ''$'' \<notin> set s)) (\<lambda>_. Inr (SName s))"

text \<open>\<open>make_structured_name\<close> reads the nested tuples of the Python callers.\<close>

datatype py_name =
    PStr string
  | PType ty
  | PTup "py_name list"
  | PSName sname

fun make_structured_name :: "py_name \<Rightarrow> sname result" where
  "make_structured_name (PStr s) = Inr (SName s)"
| "make_structured_name (PTup [PStr s, PType t]) = Inr (STyped s t)"
| "make_structured_name (PTup [PStr s, x]) =
     bindE (make_structured_name x) (\<lambda>sn. Inr (SDerived s sn))"
| "make_structured_name _ = Inl AssertionError"

text \<open>
  Equality of structured names is the dataclass's: the \<open>se\<close> fields as Python values. A string
  never equals a tuple, and tuples are compared up to the first difference. When the first
  components agree and the second are a type and a name, Python ends in \<open>Type.__eq__\<close>, which
  reads the field \<open>kind\<close> of a name.
\<close>

fun sname_eq :: "sname \<Rightarrow> sname \<Rightarrow> bool result" where
  "sname_eq (SName s) (SName s') = Inr (s = s')"
| "sname_eq (STyped s t) (STyped s' t') = Inr (s = s' \<and> type_eq t t')"
| "sname_eq (SDerived d sn) (SDerived d' sn') = (if d = d' then sname_eq sn sn' else Inr False)"
| "sname_eq (STyped s _) (SDerived d _) = (if s = d then Inl AttributeError else Inr False)"
| "sname_eq (SDerived d _) (STyped s _) = (if s = d then Inl AttributeError else Inr False)"
| "sname_eq _ _ = Inr False"

lemma sname_eq_refl [simp]: "sname_eq a a = Inr True"
  by (induction a) auto

lemma sname_eq_sound: "sname_eq a b = Inr c \<Longrightarrow> c \<longleftrightarrow> a = b"
  by (induction a b rule: sname_eq.induct) (auto split: if_splits)

lemma sname_eq_error: "sname_eq a b = Inl e \<Longrightarrow> e = AttributeError \<and> a \<noteq> b"
  by (induction a b rule: sname_eq.induct) (auto split: if_splits)

lemma has_type_get_type: "has_type sn \<longleftrightarrow> get_type sn \<noteq> None"
  by (induction sn) auto

lemma add_type_old: "snd (add_type sn t) = get_type sn"
  by (induction sn) (auto split: prod.splits)

lemma add_type_new: "get_type (fst (add_type sn t)) = Some t"
  by (induction sn) (auto split: prod.splits)

lemma add_type_mangle: "mangle_without_type (fst (add_type sn t)) = mangle_without_type sn"
  by (induction sn) (auto split: prod.splits)

lemma add_type_add_type: "fst (add_type (fst (add_type sn t)) u) = fst (add_type sn u)"
  by (induction sn) (auto split: prod.splits)

lemma add_type_same: "get_type sn = Some t \<Longrightarrow> fst (add_type sn t) = sn"
  by (induction sn) (auto split: prod.splits)

section \<open>Mangling is injective\<close>

definition name_char :: "char \<Rightarrow> bool" where
  "name_char c \<longleftrightarrow> c \<noteq> CHR ''$'' \<and> c \<noteq> CHR ''@''"

fun wf_sname :: "sname \<Rightarrow> bool" where
  "wf_sname (SName s) \<longleftrightarrow> list_all name_char s"
| "wf_sname (SDerived d sn) \<longleftrightarrow> list_all name_char d \<and> wf_sname sn"
| "wf_sname (STyped s t) \<longleftrightarrow> list_all name_char s \<and> lam_free t"

fun sname_similar :: "sname \<Rightarrow> sname \<Rightarrow> bool" where
  "sname_similar (SName s) (SName s') \<longleftrightarrow> s = s'"
| "sname_similar (SDerived d sn) (SDerived d' sn') \<longleftrightarrow> d = d' \<and> sname_similar sn sn'"
| "sname_similar (STyped s t) (STyped s' t') \<longleftrightarrow> s = s' \<and> one_tuple_eq t t'"
| "sname_similar _ _ \<longleftrightarrow> False"

lemma name_split:
  assumes "list_all name_char xs" "list_all name_char ys"
    and "xs' = [] \<or> \<not> name_char (hd xs')" "ys' = [] \<or> \<not> name_char (hd ys')"
    and "xs @ xs' = ys @ ys'"
  shows "xs = ys \<and> xs' = ys'"
  using digits_split [of xs name_char ys xs' ys'] assms by (auto simp: list_all_iff)

text \<open>The head of a mangled name, and what follows it.\<close>

fun sname_head :: "sname \<Rightarrow> string" where
  "sname_head (SName s) = s"
| "sname_head (SDerived d _) = d"
| "sname_head (STyped s _) = s"

definition mangled_rest :: "sname \<Rightarrow> string \<Rightarrow> bool" where
  "mangled_rest a r \<longleftrightarrow>
     (case a of SName _ \<Rightarrow> r = []
      | SDerived _ sn \<Rightarrow> (\<exists>m. mangled sn = Inr m \<and> r = CHR ''$'' # m)
      | STyped _ t \<Rightarrow> (\<exists>m. shortstr [] [] t = Inr m \<and> r = CHR ''@'' # m))"

lemma mangled_rest_not_name: "mangled_rest a r \<Longrightarrow> r = [] \<or> \<not> name_char (hd r)"
  by (cases a; auto simp: mangled_rest_def name_char_def)

lemma mangled_split:
  assumes "mangled a = Inr m"
  obtains r where "m = sname_head a @ r" "mangled_rest a r"
proof -
  have "\<exists>r. m = sname_head a @ r \<and> mangled_rest a r"
    using assms by (cases a; auto simp: mangled_rest_def bindE_eq_Inr)
  then show thesis using that by blast
qed

lemma wf_sname_head: "wf_sname a \<Longrightarrow> list_all name_char (sname_head a)"
  by (cases a) auto

lemma mangled_same_split:
  assumes "wf_sname a" "wf_sname b" "mangled a = Inr m" "mangled b = Inr m"
  obtains r where "sname_head a = sname_head b" "mangled_rest a r" "mangled_rest b r"
proof -
  obtain r where r: "m = sname_head a @ r" "mangled_rest a r"
    using mangled_split [OF assms(3)] .
  obtain r' where r': "m = sname_head b @ r'" "mangled_rest b r'"
    using mangled_split [OF assms(4)] .
  have "sname_head a = sname_head b \<and> r = r'"
    using r r' assms(1,2)
    by (intro name_split) (auto intro: wf_sname_head dest: mangled_rest_not_name)
  with that r(2) r'(2) show thesis by simp
qed

lemma mangled_inj_aux:
  "wf_sname a \<Longrightarrow> wf_sname b \<Longrightarrow> mangled a = Inr m \<Longrightarrow> mangled b = Inr m \<Longrightarrow> sname_similar a b"
proof (induction a arbitrary: b m)
  case (SName s)
  obtain r where "s = sname_head b" "mangled_rest (SName s) r" "mangled_rest b r"
    using mangled_same_split [OF SName.prems] by auto
  then show ?case by (cases b) (auto simp: mangled_rest_def)
next
  case (STyped s t)
  obtain r where r: "s = sname_head b" "mangled_rest (STyped s t) r" "mangled_rest b r"
    using mangled_same_split [OF STyped.prems] by auto
  then obtain m1 t' where "shortstr [] [] t = Inr m1" "shortstr [] [] t' = Inr m1" "b = STyped s t'"
    by (cases b) (auto simp: mangled_rest_def)
  with STyped.prems(1,2) shortstr_unbracketed_inj show ?case by simp
next
  case (SDerived d sn)
  obtain r where r: "d = sname_head b" "mangled_rest (SDerived d sn) r" "mangled_rest b r"
    using mangled_same_split [OF SDerived.prems] by auto
  then obtain m1 sn' where "mangled sn = Inr m1" "mangled sn' = Inr m1" "b = SDerived d sn'"
    by (cases b) (auto simp: mangled_rest_def)
  with SDerived.IH [of sn' m1] SDerived.prems(1,2) show ?case by simp
qed

section \<open>Properties\<close>

text \<open>
  C18: Mangling is injective on names whose parts contain neither \<open>$\<close> nor \<open>@\<close> and whose type has no
  lambda: two names with one mangled form agree, up to the one-tuple of the type in the corner.
\<close>

theorem mangled_injective:
  assumes "wf_sname a" "wf_sname b" "mangled a = Inr m" "mangled b = Inr m"
  shows "sname_similar a b"
  using assms by (rule mangled_inj_aux)

theorem mangled_injective_witness:
  "mangled (SDerived ''rev'' (STyped ''foo'' (Tuple [Float]))) = Inr ''rev$foo@f'' \<and>
   sname_similar (SDerived ''rev'' (STyped ''foo'' (Tuple [Float])))
     (SDerived ''rev'' (STyped ''foo'' Float))"
  using mangled_injective [of "SDerived ''rev'' (STyped ''foo'' (Tuple [Float]))"
      "SDerived ''rev'' (STyped ''foo'' Float)" "''rev$foo@f''"]
  by (simp add: name_char_def)

text \<open>
  \<open>add_type\<close> returns the old type, installs the new one in the innermost corner, leaves the rest
  of the name alone, replaces an earlier addition, and undoes itself when given the old type back.
\<close>

theorem add_type_laws:
  "snd (add_type sn t) = get_type sn \<and> get_type (fst (add_type sn t)) = Some t \<and>
   mangle_without_type (fst (add_type sn t)) = mangle_without_type sn \<and>
   fst (add_type (fst (add_type sn t)) u) = fst (add_type sn u) \<and>
   has_type sn = (get_type sn \<noteq> None) \<and>
   (case get_type sn of None \<Rightarrow> True | Some old \<Rightarrow> fst (add_type (fst (add_type sn t)) old) = sn)"
  by (simp add: add_type_old add_type_new add_type_mangle add_type_add_type has_type_get_type
      add_type_same split: option.split)

end
