(* ===== verification/KsExpr.thy ===== *)
theory KsExpr
  imports KsNames Complex_Main
begin

text \<open>
  The expression language, the rest of \<open>src/python/ksc/expr.py\<close>: constants, variables, the seven
  expression classes, the top-level definitions, the checks of the constructors, equality of
  expressions (\<open>KRecord.__eq__\<close>) and free variables. The rendering \<open>pystr\<close> is in \<open>KsPystr\<close>.
  Constructors whose source name is a keyword of HOL's term language carry a suffix: \<open>LetE\<close>,
  \<open>IfE\<close>. The field \<open>type_\<close>, which is \<open>None\<close> until types are propagated, is an option.
\<close>

section \<open>Constants\<close>

text \<open>A Python float: a finite value, or one of the values that are not a number of the line.\<close>

datatype pyfloat = Fin rat | NegZero | PosInf | NegInf | NaN

datatype const = CInt int | CFloat pyfloat | CBool bool | CStr string

text \<open>\<open>Type.fromValue\<close>\<close>

fun fromValue :: "const \<Rightarrow> ty" where
  "fromValue (CBool _) = Bool"
| "fromValue (CInt _) = Integer"
| "fromValue (CFloat _) = Float"
| "fromValue (CStr _) = String"

text \<open>
  Python's \<open>==\<close> on these values compares numbers across their types: \<open>1 == 1.0 == True\<close>,
  \<open>-0.0 == 0\<close>, and NaN is not equal to itself.
\<close>

fun const_num :: "const \<Rightarrow> pyfloat option" where
  "const_num (CInt i) = Some (Fin (of_int i))"
| "const_num (CBool b) = Some (Fin (if b then 1 else 0))"
| "const_num (CFloat NegZero) = Some (Fin 0)"
| "const_num (CFloat f) = Some f"
| "const_num (CStr _) = None"

fun const_eq :: "const \<Rightarrow> const \<Rightarrow> bool" where
  "const_eq (CStr s) (CStr t) \<longleftrightarrow> s = t"
| "const_eq a b \<longleftrightarrow> const_num a \<noteq> None \<and> const_num a = const_num b \<and> const_num a \<noteq> Some NaN"

definition is_nan :: "const \<Rightarrow> bool" where
  "is_nan c \<longleftrightarrow> c = CFloat NaN"

lemma const_num_None [simp]: "const_num c = None \<longleftrightarrow> (\<exists>s. c = CStr s)"
  by (cases c rule: const_num.cases) auto

lemma const_num_NaN [simp]: "const_num c = Some NaN \<longleftrightarrow> is_nan c"
  by (cases c rule: const_num.cases) (auto simp: is_nan_def)

lemma const_eq_iff:
  "const_eq a b \<longleftrightarrow> const_num a = const_num b \<and> (const_num a = None \<longrightarrow> a = b) \<and> \<not> is_nan a"
proof (cases "(\<exists>s. a = CStr s) \<and> (\<exists>s. b = CStr s)")
  case True
  then show ?thesis by (auto simp: is_nan_def)
next
  case False
  then have "const_eq a b \<longleftrightarrow> const_num a \<noteq> None \<and> const_num a = const_num b \<and> const_num a \<noteq> Some NaN"
    by (cases a; cases b) auto
  with False show ?thesis by (metis const_num_NaN const_num_None)
qed

lemma const_eq_refl [simp]: "const_eq c c \<longleftrightarrow> \<not> is_nan c"
  by (auto simp: const_eq_iff)

lemma is_nan_const_num: "const_num a = const_num b \<Longrightarrow> is_nan a \<longleftrightarrow> is_nan b"
  using const_num_NaN by metis

lemma const_eq_sym: "const_eq a b \<longleftrightarrow> const_eq b a"
  unfolding const_eq_iff by (metis is_nan_const_num const_num_None)

lemma const_eq_trans: "const_eq a b \<Longrightarrow> const_eq b c \<Longrightarrow> const_eq a c"
  unfolding const_eq_iff by (metis is_nan_const_num const_num_None)

section \<open>Expressions\<close>

datatype var = MkVar (var_name: string) (var_type: "ty option")

text \<open>\<open>Let.vars\<close> is one variable or a list of variables.\<close>

datatype binders = One var | Many "var list"

datatype expr =
    Const const
  | Var var
  | Call sname "expr list" "ty option"
  | Lam string ty expr "ty option"
  | LetE binders expr expr "ty option"
  | IfE expr expr expr "ty option"
  | Assert expr expr "ty option"

text \<open>The field \<open>type_\<close>; a constant's is fixed by its value.\<close>

fun type_of :: "expr \<Rightarrow> ty option" where
  "type_of (Const c) = Some (fromValue c)"
| "type_of (Var v) = var_type v"
| "type_of (Call _ _ t) = t"
| "type_of (Lam _ _ _ t) = t"
| "type_of (LetE _ _ _ t) = t"
| "type_of (IfE _ _ _ t) = t"
| "type_of (Assert _ _ t) = t"

fun binder_vars :: "binders \<Rightarrow> var list" where
  "binder_vars (One v) = [v]"
| "binder_vars (Many vs) = vs"

definition binder_names :: "binders \<Rightarrow> string list" where
  "binder_names b = map var_name (binder_vars b)"

lemma binder_names_simps [simp]:
  "binder_names (One v) = [var_name v]" "binder_names (Many vs) = map var_name vs"
  by (simp_all add: binder_names_def)

text \<open>\<open>compute_free_vars\<close> and its registered cases; the constructors store its value.\<close>

fun free_vars :: "expr \<Rightarrow> string set" where
  "free_vars (Const _) = {}"
| "free_vars (Var v) = {var_name v}"
| "free_vars (Call _ args _) = (\<Union>a \<in> set args. free_vars a)"
| "free_vars (Lam x _ body _) = free_vars body - {x}"
| "free_vars (LetE vs rhs body _) = free_vars rhs \<union> (free_vars body - set (binder_names vs))"
| "free_vars (IfE c t f _) = free_vars c \<union> free_vars t \<union> free_vars f"
| "free_vars (Assert c b _) = free_vars c \<union> free_vars b"

lemma finite_free_vars [simp]: "finite (free_vars e)"
  by (induction e) auto

text \<open>
  Checks of the constructors: \<open>Call\<close> converts a string to a name, \<open>Lam\<close> wants a declared type,
  and the union over an empty list of variables is a call without arguments.
\<close>

definition mk_call :: "string + sname \<Rightarrow> expr list \<Rightarrow> ty option \<Rightarrow> expr result" where
  "mk_call name args t =
     bindE (case name of Inl s \<Rightarrow> from_str s | Inr sn \<Rightarrow> Inr sn) (\<lambda>sn. Inr (Call sn args t))"

fun mk_lam :: "var \<Rightarrow> expr \<Rightarrow> ty option \<Rightarrow> expr result" where
  "mk_lam (MkVar x (Some s)) body t = Inr (Lam x s body t)"
| "mk_lam (MkVar x None) body t = Inl AssertionError"

definition mk_let :: "binders \<Rightarrow> expr \<Rightarrow> expr \<Rightarrow> ty option \<Rightarrow> expr result" where
  "mk_let vs rhs body t = (if vs = Many [] then Inl TypeError else Inr (LetE vs rhs body t))"

text \<open>The expressions that can be built: no \<open>let\<close> binds an empty list.\<close>

fun constructible :: "expr \<Rightarrow> bool" where
  "constructible (Call _ args _) \<longleftrightarrow> (\<forall>a \<in> set args. constructible a)"
| "constructible (Lam _ _ body _) \<longleftrightarrow> constructible body"
| "constructible (LetE vs rhs body _) \<longleftrightarrow> vs \<noteq> Many [] \<and> constructible rhs \<and> constructible body"
| "constructible (IfE c t f _) \<longleftrightarrow> constructible c \<and> constructible t \<and> constructible f"
| "constructible (Assert c b _) \<longleftrightarrow> constructible c \<and> constructible b"
| "constructible _ \<longleftrightarrow> True"

text \<open>No \<open>let\<close> binds a list (what \<open>untuple_lets\<close> establishes).\<close>

fun is_untupled :: "expr \<Rightarrow> bool" where
  "is_untupled (Call _ args _) \<longleftrightarrow> (\<forall>a \<in> set args. is_untupled a)"
| "is_untupled (Lam _ _ body _) \<longleftrightarrow> is_untupled body"
| "is_untupled (LetE vs rhs body _) \<longleftrightarrow>
     (case vs of One _ \<Rightarrow> True | Many _ \<Rightarrow> False) \<and> is_untupled rhs \<and> is_untupled body"
| "is_untupled (IfE c t f _) \<longleftrightarrow> is_untupled c \<and> is_untupled t \<and> is_untupled f"
| "is_untupled (Assert c b _) \<longleftrightarrow> is_untupled c \<and> is_untupled b"
| "is_untupled _ \<longleftrightarrow> True"

section \<open>Top-level definitions\<close>

text \<open>A return or argument type may be absent: the parser reads \<open>None\<close> as Python's \<open>None\<close>.\<close>

datatype tld =
    Def sname "ty option" "var list" expr
  | EDef sname "ty option" "ty option"
  | GDef string sname
  | Rule string "var list" expr expr

text \<open>\<open>GDef.name\<close>\<close>

definition gdef_name :: "string \<Rightarrow> sname \<Rightarrow> sname" where
  "gdef_name derivation function_name = SDerived derivation function_name"

section \<open>Equality of expressions\<close>

text \<open>
  \<open>KRecord.__eq__\<close> compares the annotated fields in order and ignores \<open>type_\<close>; \<open>Lam.__eq__\<close> adds
  the declared type of the argument. Lists are compared by Python, which first compares lengths
  and takes identical elements (\<open>same\<close>) for equal.
\<close>

fun expr_eq :: "(expr \<Rightarrow> expr \<Rightarrow> bool) \<Rightarrow> expr \<Rightarrow> expr \<Rightarrow> bool result" where
  "expr_eq same (Const a) (Const b) = Inr (const_eq a b)"
| "expr_eq same (Var v) (Var w) = Inr (var_name v = var_name w)"
| "expr_eq same (Call f as _) (Call g bs _) =
     bindE (sname_eq f g) (\<lambda>r.
       if \<not> r \<or> length as \<noteq> length bs then Inr False
       else all2_py (\<lambda>a b. if same a b then Inr True else expr_eq same a b) as bs)"
| "expr_eq same (Lam x s b _) (Lam y t c _) =
     (if x \<noteq> y then Inr False
      else bindE (expr_eq same b c) (\<lambda>r. Inr (r \<and> type_eq s t)))"
| "expr_eq same (LetE vs r b _) (LetE ws r' b' _) =
     (if (case (vs, ws) of (One v, One w) \<Rightarrow> var_name v = var_name w
          | (Many xs, Many ys) \<Rightarrow> map var_name xs = map var_name ys
          | _ \<Rightarrow> False)
      then bindE (expr_eq same r r') (\<lambda>q. if q then expr_eq same b b' else Inr False)
      else Inr False)"
| "expr_eq same (IfE c t f _) (IfE c' t' f' _) =
     bindE (expr_eq same c c') (\<lambda>q. if \<not> q then Inr False else
       bindE (expr_eq same t t') (\<lambda>q. if \<not> q then Inr False else expr_eq same f f'))"
| "expr_eq same (Assert c b _) (Assert c' b' _) =
     bindE (expr_eq same c c') (\<lambda>q. if q then expr_eq same b b' else Inr False)"
| "expr_eq same _ _ = Inr False"

text \<open>What equality sees of an expression.\<close>

definition norm_const :: "const \<Rightarrow> const" where
  "norm_const c = (case const_num c of Some f \<Rightarrow> CFloat f | None \<Rightarrow> c)"

lemma norm_const_eq: "\<not> is_nan a \<Longrightarrow> const_eq a b \<longleftrightarrow> norm_const a = norm_const b"
  using const_num_None [of a] const_num_None [of b]
  by (auto simp: const_eq_iff norm_const_def split: option.splits)

fun untyped_binders :: "binders \<Rightarrow> binders" where
  "untyped_binders (One v) = One (MkVar (var_name v) None)"
| "untyped_binders (Many vs) = Many (map (\<lambda>v. MkVar (var_name v) None) vs)"

fun erase :: "expr \<Rightarrow> expr" where
  "erase (Const c) = Const (norm_const c)"
| "erase (Var v) = Var (MkVar (var_name v) None)"
| "erase (Call f as _) = Call f (map erase as) None"
| "erase (Lam x s b _) = Lam x s (erase b) None"
| "erase (LetE vs r b _) = LetE (untyped_binders vs) (erase r) (erase b) None"
| "erase (IfE c t f _) = IfE (erase c) (erase t) (erase f) None"
| "erase (Assert c b _) = Assert (erase c) (erase b) None"

fun nan_free :: "expr \<Rightarrow> bool" where
  "nan_free (Const c) \<longleftrightarrow> \<not> is_nan c"
| "nan_free (Var _) \<longleftrightarrow> True"
| "nan_free (Call _ as _) \<longleftrightarrow> (\<forall>a \<in> set as. nan_free a)"
| "nan_free (Lam _ _ b _) \<longleftrightarrow> nan_free b"
| "nan_free (LetE _ r b _) \<longleftrightarrow> nan_free r \<and> nan_free b"
| "nan_free (IfE c t f _) \<longleftrightarrow> nan_free c \<and> nan_free t \<and> nan_free f"
| "nan_free (Assert c b _) \<longleftrightarrow> nan_free c \<and> nan_free b"

lemma untyped_binders_eq:
  "untyped_binders vs = untyped_binders ws \<longleftrightarrow>
   (case (vs, ws) of (One v, One w) \<Rightarrow> var_name v = var_name w
    | (Many xs, Many ys) \<Rightarrow> map var_name xs = map var_name ys
    | _ \<Rightarrow> False)"
proof -
  have "map (\<lambda>v. MkVar (var_name v) None) xs = map (\<lambda>v. MkVar (var_name v) None) ys \<longleftrightarrow>
    map var_name xs = map var_name ys" for xs ys
    by (simp add: list_eq_iff_nth_eq cong: conj_cong)
  then show ?thesis by (cases vs; cases ws) auto
qed

lemma expr_eq_sound_aux:
  "(\<And>x y. same x y \<Longrightarrow> x = y) \<Longrightarrow> nan_free a \<Longrightarrow> expr_eq same a b = Inr r \<Longrightarrow>
   r \<longleftrightarrow> erase a = erase b"
proof (induction same a b arbitrary: r rule: expr_eq.induct)
  case (3 same f as t g bs u)
  from "3.prems"(3) obtain q where q: "sname_eq f g = Inr q" and
    r: "(if \<not> q \<or> length as \<noteq> length bs then Inr False
        else all2_py (\<lambda>a b. if same a b then Inr True else expr_eq same a b) as bs) = Inr r"
    by auto
  have fg: "q \<longleftrightarrow> f = g" using sname_eq_sound [OF q] .
  show ?case
  proof (cases "q \<and> length as = length bs")
    case True
    with r have "all2_py (\<lambda>a b. if same a b then Inr True else expr_eq same a b) as bs = Inr r"
      by simp
    then have "r = list_all2 (\<lambda>a b. erase a = erase b) as bs"
    proof (rule all2_py_Inr)
      fix x y c
      assume xy: "x \<in> set as" "y \<in> set bs"
        and c: "(if same x y then Inr True else expr_eq same x y) = Inr c"
      have nan: "nan_free x" using "3.prems"(2) xy(1) by simp
      show "c = (erase x = erase y)"
      proof (cases "same x y")
        case True
        with c "3.prems"(1) [OF True] show ?thesis by simp
      next
        case False
        with c have "expr_eq same x y = Inr c" by simp
        from "3.IH" [OF q _ xy False "3.prems"(1) nan this] \<open>q \<and> _\<close> show ?thesis by simp
      qed
    qed (use True in simp)
    also have "\<dots> \<longleftrightarrow> map erase as = map erase bs"
      by (simp add: list.rel_map list_all2_map1 list_all2_map2 flip: list.rel_eq)
    finally show ?thesis using fg True by simp
  next
    case False
    with r fg show ?thesis by (auto dest: map_eq_imp_length_eq)
  qed
next
  case (1 same a b)
  then show ?case by (simp add: norm_const_eq)
next
  case 5
  then show ?case by (auto simp: untyped_binders_eq split: if_splits; metis)
next
  case 6
  then show ?case by (auto split: if_splits; metis)
next
  case 7
  then show ?case by (auto split: if_splits; metis)
qed (auto split: if_splits)

section \<open>Properties\<close>

text \<open>
  C21: When \<open>==\<close> on expressions returns, it says whether the two are structurally equal once inferred
  types are erased and numbers are identified across their types. The first argument may hold NaN
  nowhere, and object identity, which list comparison consults first, implies equality.
\<close>

theorem expr_eq_sound:
  assumes "\<And>x y. same x y \<Longrightarrow> x = y" "nan_free a" "expr_eq same a b = Inr r"
  shows "r = (erase a = erase b)"
  using assms by (rule expr_eq_sound_aux)

theorem expr_eq_sound_witness:
  "expr_eq (=) (Call (SName ''f'') [Const (CInt 1), Var (MkVar ''x'' None)] None)
     (Call (SName ''f'') [Const (CBool True), Var (MkVar ''x'' (Some Float))] (Some Float)) = Inr True \<and>
   True = (erase (Call (SName ''f'') [Const (CInt 1), Var (MkVar ''x'' None)] None) =
     erase (Call (SName ''f'') [Const (CBool True), Var (MkVar ''x'' (Some Float))] (Some Float)))"
  using expr_eq_sound [of "(=)" "Call (SName ''f'') [Const (CInt 1), Var (MkVar ''x'' None)] None"
      "Call (SName ''f'') [Const (CBool True), Var (MkVar ''x'' (Some Float))] (Some Float)" True]
  by (simp add: is_nan_def)

end
