(* ===== verification/KsPystr.thy ===== *)
theory KsPystr
  imports KsExpr
begin

text \<open>
  \<open>pystr\<close> of \<open>src/python/ksc/expr.py\<close>: a python-like rendering of types, names, expressions and
  top-level definitions. \<open>repr\<close> of a float is the argument \<open>frepr\<close>; \<open>repr\<close> of the other constants
  is written out. The only exception is the one \<open>Type.shortstr\<close> raises on \<open>Any\<close>.
\<close>

section \<open>Python's repr of constants\<close>

definition hex_digit :: "nat \<Rightarrow> char" where
  "hex_digit d = (if d < 10 then digit_char d else char_of (87 + d))"

definition nonprintable :: "char \<Rightarrow> bool" where
  "nonprintable c \<longleftrightarrow> (let n = (of_char c :: nat) in n < 32 \<or> 127 \<le> n \<and> n \<le> 160 \<or> n = 173)"

definition repr_char :: "char \<Rightarrow> char \<Rightarrow> string" where
  "repr_char q c =
     (if c = q \<or> c = CHR 0x5C then [CHR 0x5C, c]
      else if c = CHR 0x09 then [CHR 0x5C, CHR ''t'']
      else if c = CHR 0x0A then [CHR 0x5C, CHR ''n'']
      else if c = CHR 0x0D then [CHR 0x5C, CHR ''r'']
      else if nonprintable c then
        (let n = (of_char c :: nat) in [CHR 0x5C, CHR ''x'', hex_digit (n div 16), hex_digit (n mod 16)])
      else [c])"

definition repr_str :: "string \<Rightarrow> string" where
  "repr_str s =
     (let q = (if CHR 0x27 \<in> set s \<and> CHR 0x22 \<notin> set s then CHR 0x22 else CHR 0x27)
      in q # concat (map (repr_char q) s) @ [q])"

fun repr_const :: "(pyfloat \<Rightarrow> string) \<Rightarrow> const \<Rightarrow> string" where
  "repr_const frepr (CInt i) = int_str i"
| "repr_const frepr (CFloat f) = frepr f"
| "repr_const frepr (CBool b) = (if b then ''True'' else ''False'')"
| "repr_const frepr (CStr s) = repr_str s"

section \<open>pystr\<close>

definition pyname :: "string \<Rightarrow> string" where
  "pyname s = replace_char (CHR ''$'') ''_s'' s"

definition nl :: "nat \<Rightarrow> string" where
  "nl indent = CHR 0x0A # concat (replicate indent ''  '')"

text \<open>A rank inside a type goes through the default case, \<open>str\<close>.\<close>

fun pystr_Type :: "ty \<Rightarrow> string" where
  "pystr_Type (Tensor r t) =
     ''Tensor'' @ ''['' @ str_join '','' [int_str r, pystr_Type t] @ '']''"
| "pystr_Type (Tuple ts) = ''Tuple'' @ ''['' @ str_join '','' (map pystr_Type ts) @ '']''"
| "pystr_Type (LamT a b) = ''Lam'' @ ''['' @ str_join '','' [pystr_Type a, pystr_Type b] @ '']''"
| "pystr_Type (LM a b) = ''LM'' @ ''['' @ str_join '','' [pystr_Type a, pystr_Type b] @ '']''"
| "pystr_Type Any = ''Any'' @ ''['' @ '']''"
| "pystr_Type t = ty_kind t"

definition pystr_StructuredName :: "sname \<Rightarrow> string result" where
  "pystr_StructuredName sn = bindE (mangled sn) (\<lambda>m. Inr (pyname m))"

fun pystr :: "(pyfloat \<Rightarrow> string) \<Rightarrow> expr \<Rightarrow> nat \<Rightarrow> string result" where
  "pystr fr (Const c) indent = Inr (repr_const fr c)"
| "pystr fr (Var v) indent = Inr (pyname (var_name v))"
| "pystr fr (Call f args _) indent =
     bindE (pystr_StructuredName f) (\<lambda>n.
     bindE (mapE (\<lambda>a. pystr fr a (indent + 1)) args) (\<lambda>ss.
     Inr (n @ ''('' @ str_join '', '' ss @ '')'')))"
| "pystr fr (Lam x _ body _) indent =
     bindE (pystr fr body (indent + 2)) (\<lambda>b.
     Inr (''lambda '' @ pyname x @ '': '' @ nl (indent + 2) @ ''('' @ b @ '')''))"
| "pystr fr (LetE vs rhs body _) indent =
     (let var_str = (case vs of Many ws \<Rightarrow> str_join '','' (map (\<lambda>w. pyname (var_name w)) ws)
                     | One w \<Rightarrow> pyname (var_name w)) in
     bindE (pystr fr rhs (indent + 1)) (\<lambda>r.
     bindE (pystr fr body indent) (\<lambda>b.
     Inr (var_str @ '' = '' @ r @ nl indent @ b))))"
| "pystr fr (IfE c t f _) indent =
     bindE (pystr fr t (indent + 2)) (\<lambda>ts.
     bindE (pystr fr c (indent + 1)) (\<lambda>cs.
     bindE (pystr fr f (indent + 1)) (\<lambda>fs.
     Inr (''('' @ ts @ '' if '' @ cs @ nl (indent + 1) @ '' else '' @ fs @ '')'' @ [CHR 0x0A]))))"
| "pystr fr (Assert c b _) indent =
     bindE (pystr fr c (indent + 1)) (\<lambda>cs.
     bindE (pystr fr b (indent + 1)) (\<lambda>bs.
     Inr (''assert('' @ cs @ '')'' @ nl (indent + 1) @ bs)))"

definition pystr_type_opt :: "ty option \<Rightarrow> string" where
  "pystr_type_opt t = (case t of None \<Rightarrow> ''None'' | Some t \<Rightarrow> pystr_Type t)"

text \<open>The list of template variables of a rule is rendered by \<open>str\<close> of a Python list.\<close>

fun pystr_tld :: "(pyfloat \<Rightarrow> string) \<Rightarrow> tld \<Rightarrow> nat \<Rightarrow> string result" where
  "pystr_tld fr (Def name ret args body) indent =
     bindE (pystr_StructuredName name) (\<lambda>n.
     bindE (pystr fr body (indent + 2)) (\<lambda>b.
     Inr (''def '' @ n @ ''('' @
       str_join '', '' (map (\<lambda>a. pyname (var_name a) @ '': '' @ pystr_type_opt (var_type a)) args)
       @ '') -> '' @ pystr_type_opt ret @ '':'' @ nl (indent + 2) @ b)))"
| "pystr_tld fr (EDef name ret arg) indent =
     Inr (''#edef '' @ sname_str name @ pystr_type_opt arg @ '' -> '' @ pystr_type_opt ret @ nl (indent + 1))"
| "pystr_tld fr (GDef derivation fname) indent =
     Inr (''#gdef '' @ derivation @ '' '' @ sname_str fname)"
| "pystr_tld fr (Rule name tvs template replacement) indent =
     bindE (pystr fr template (indent + 2)) (\<lambda>ts.
     bindE (pystr fr replacement (indent + 2)) (\<lambda>rs.
     Inr (''@rule'' @ [CHR 0x0A] @ ''def '' @ pyname name @ '' '' @ ''('' @
       (''['' @ str_join '', '' (map var_name tvs) @ '']'') @ '')'' @ '':'' @ nl (indent + 1) @
       ts @ nl (indent + 1) @ ''<===> '' @ nl (indent + 1) @ rs)))"

text \<open>The names called in an expression, and the types whose short string exists.\<close>

fun called_names :: "expr \<Rightarrow> sname set" where
  "called_names (Const _) = {}"
| "called_names (Var _) = {}"
| "called_names (Call f args _) = insert f (\<Union>a \<in> set args. called_names a)"
| "called_names (Lam _ _ b _) = called_names b"
| "called_names (LetE _ r b _) = called_names r \<union> called_names b"
| "called_names (IfE c t f _) = called_names c \<union> called_names t \<union> called_names f"
| "called_names (Assert c b _) = called_names c \<union> called_names b"

text \<open>Where \<open>shortstr\<close> looks: it does not descend into a lambda type.\<close>

fun shortstr_ok :: "ty \<Rightarrow> bool" where
  "shortstr_ok Any \<longleftrightarrow> False"
| "shortstr_ok (Tuple ts) \<longleftrightarrow> (\<forall>t \<in> set ts. shortstr_ok t)"
| "shortstr_ok (Tensor _ t) \<longleftrightarrow> shortstr_ok t"
| "shortstr_ok _ \<longleftrightarrow> True"

lemma shortstr_defined: "(\<exists>s. shortstr tb te t = Inr s) \<longleftrightarrow> shortstr_ok t"
proof (induction t arbitrary: tb te)
  case (Tuple ts)
  have "(\<exists>s. shortstr tb te (Tuple ts) = Inr s) \<longleftrightarrow> (\<exists>ss. mapE shortstr0 ts = Inr ss)"
    by (auto simp: bindE_eq_Inr)
  then show ?case by (simp add: mapE_ex_Inr Tuple.IH)
next
  case (Tensor r t)
  have "(\<exists>s. shortstr tb te (Tensor r t) = Inr s) \<longleftrightarrow> (\<exists>s. shortstr0 t = Inr s)"
    by (auto simp: bindE_eq_Inr)
  then show ?case using Tensor.IH by simp
qed auto

lemma mangled_defined:
  "(\<exists>m. mangled sn = Inr m) \<longleftrightarrow> (\<forall>t. get_type sn = Some t \<longrightarrow> shortstr_ok t)"
proof (induction sn)
  case (STyped s t)
  have "(\<exists>m. mangled (STyped s t) = Inr m) \<longleftrightarrow> (\<exists>s. shortstr [] [] t = Inr s)"
    by (auto simp: bindE_eq_Inr)
  then show ?case by (simp add: shortstr_defined)
next
  case (SDerived d sn)
  have "(\<exists>m. mangled (SDerived d sn) = Inr m) \<longleftrightarrow> (\<exists>m. mangled sn = Inr m)"
    by (auto simp: bindE_eq_Inr)
  then show ?case by (simp add: SDerived.IH)
qed simp

lemma pystr_Name_defined:
  "(\<exists>s. pystr_StructuredName f = Inr s) \<longleftrightarrow> (\<forall>t. get_type f = Some t \<longrightarrow> shortstr_ok t)"
  by (simp add: pystr_StructuredName_def bindE_eq_Inr flip: mangled_defined)

lemma pystr_defined_aux:
  "(\<exists>s. pystr fr e indent = Inr s) \<longleftrightarrow>
   (\<forall>f \<in> called_names e. \<forall>t. get_type f = Some t \<longrightarrow> shortstr_ok t)"
proof (induction e arbitrary: indent)
  case (Call f args t)
  have "(\<exists>s. pystr fr (Call f args t) indent = Inr s) \<longleftrightarrow>
    (\<exists>s. pystr_StructuredName f = Inr s) \<and>
    (\<exists>ss. mapE (\<lambda>a. pystr fr a (indent + 1)) args = Inr ss)"
    by (auto simp: bindE_eq_Inr)
  then show ?case by (simp add: mapE_ex_Inr Call.IH pystr_Name_defined)
next
  case (Lam x s e t)
  have "(\<exists>s. pystr fr (Lam x ty e t) indent = Inr s) \<longleftrightarrow>
    (\<exists>s. pystr fr e (indent + 2) = Inr s)" for ty
    by (auto simp: bindE_eq_Inr)
  then show ?case by (simp add: Lam.IH)
next
  case (LetE vs r b t)
  have "(\<exists>s. pystr fr (LetE vs r b t) indent = Inr s) \<longleftrightarrow>
    (\<exists>s. pystr fr r (indent + 1) = Inr s) \<and> (\<exists>s. pystr fr b indent = Inr s)"
    by (auto simp: bindE_eq_Inr Let_def)
  then show ?case by (simp only: LetE.IH) auto
next
  case (IfE c t f u)
  have "(\<exists>s. pystr fr (IfE c t f u) indent = Inr s) \<longleftrightarrow>
    (\<exists>s. pystr fr t (indent + 2) = Inr s) \<and> (\<exists>s. pystr fr c (indent + 1) = Inr s) \<and>
    (\<exists>s. pystr fr f (indent + 1) = Inr s)"
    by (auto simp: bindE_eq_Inr)
  then show ?case by (simp only: IfE.IH) auto
next
  case (Assert c b t)
  have "(\<exists>s. pystr fr (Assert c b t) indent = Inr s) \<longleftrightarrow>
    (\<exists>s. pystr fr c (indent + 1) = Inr s) \<and> (\<exists>s. pystr fr b (indent + 1) = Inr s)"
    by (auto simp: bindE_eq_Inr)
  then show ?case by (simp only: Assert.IH) auto
qed auto

section \<open>Properties\<close>

text \<open>
  The python-like rendering of an expression exists exactly when every called name that carries
  a type carries one with a short string, that is one without \<open>Any\<close> outside lambda types.
\<close>

theorem pystr_defined:
  "(\<exists>s. pystr fr e indent = Inr s) =
   (\<forall>f \<in> called_names e. \<forall>t. get_type f = Some t \<longrightarrow> shortstr_ok t)"
  by (rule pystr_defined_aux)

theorem pystr_defined_witness:
  "(\<exists>s. pystr (\<lambda>_. ''0.0'') (Call (STyped ''f'' Float) [Const (CInt 1)] None) 0 = Inr s) \<and>
   \<not> (\<exists>s. pystr (\<lambda>_. ''0.0'') (Call (STyped ''f'' Any) [Const (CInt 1)] None) 0 = Inr s)"
  using pystr_defined [of "\<lambda>_. ''0.0''" "Call (STyped ''f'' Float) [Const (CInt 1)] None" 0]
    pystr_defined [of "\<lambda>_. ''0.0''" "Call (STyped ''f'' Any) [Const (CInt 1)] None" 0]
  by simp

end
