(* ===== verification/KsPath.thy ===== *)
theory KsPath
  imports KsExpr
begin

text \<open>
  Paths into expressions, \<open>src/python/ksc/path.py\<close>: path elements, the class \<open>ExprWithPath\<close>
  (a sub-expression with its root and its path), the list of addressable children, and the
  serialization of paths to strings.
\<close>

section \<open>Path elements\<close>

text \<open>The eight \<open>_FieldElement\<close>s of the module, and \<open>call_args[n]\<close>.\<close>

datatype path_elem =
    let_rhs | let_body | if_cond | if_t_body | if_f_body | assert_cond | assert_body | lam_body
  | CallArg nat

type_synonym path = "path_elem list"

fun expr_class :: "expr \<Rightarrow> string" where
  "expr_class (Const _) = ''Const''"
| "expr_class (Var _) = ''Var''"
| "expr_class (Call _ _ _) = ''Call''"
| "expr_class (Lam _ _ _ _) = ''Lam''"
| "expr_class (LetE _ _ _ _) = ''Let''"
| "expr_class (IfE _ _ _ _) = ''If''"
| "expr_class (Assert _ _ _) = ''Assert''"

text \<open>\<open>_field_elements_by_class\<close>, in the order of registration.\<close>

definition field_elements_by_class :: "(string, (string, path_elem) dict) dict" where
  "field_elements_by_class =
     [(''Let'', [(''rhs'', let_rhs), (''body'', let_body)]),
      (''If'', [(''cond'', if_cond), (''t_body'', if_t_body), (''f_body'', if_f_body)]),
      (''Assert'', [(''cond'', assert_cond), (''body'', assert_body)]),
      (''Lam'', [(''body'', lam_body)])]"

definition class_fields :: "expr \<Rightarrow> (string, path_elem) dict" where
  "class_fields e =
     (case map_of field_elements_by_class (expr_class e) of Some fs \<Rightarrow> fs | None \<Rightarrow> [])"

text \<open>\<open>__str__\<close>: the class name in lower case, an underscore, the field.\<close>

fun pe_str :: "path_elem \<Rightarrow> string" where
  "pe_str let_rhs = ''let_rhs''"
| "pe_str let_body = ''let_body''"
| "pe_str if_cond = ''if_cond''"
| "pe_str if_t_body = ''if_t_body''"
| "pe_str if_f_body = ''if_f_body''"
| "pe_str assert_cond = ''assert_cond''"
| "pe_str assert_body = ''assert_body''"
| "pe_str lam_body = ''lam_body''"
| "pe_str (CallArg n) = ''call_args['' @ nat_str n @ '']''"

text \<open>\<open>PathElement.get\<close>: an assertion on the class, then the field or the list element.\<close>

fun pe_get :: "path_elem \<Rightarrow> expr \<Rightarrow> expr result" where
  "pe_get let_rhs (LetE _ r _ _) = Inr r"
| "pe_get let_body (LetE _ _ b _) = Inr b"
| "pe_get if_cond (IfE c _ _ _) = Inr c"
| "pe_get if_t_body (IfE _ t _ _) = Inr t"
| "pe_get if_f_body (IfE _ _ f _) = Inr f"
| "pe_get assert_cond (Assert c _ _) = Inr c"
| "pe_get assert_body (Assert _ b _) = Inr b"
| "pe_get lam_body (Lam _ _ b _) = Inr b"
| "pe_get (CallArg n) (Call _ args _) = (if n < length args then Inr (args ! n) else Inl IndexError)"
| "pe_get _ _ = Inl AssertionError"

text \<open>\<open>call_args[idx]\<close>\<close>

definition call_args_getitem :: "int \<Rightarrow> path_elem result" where
  "call_args_getitem i = (if 0 \<le> i then Inr (CallArg (nat i)) else Inl ValueError)"

section \<open>ExprWithPath\<close>

record ewp =
  ewp_root :: expr
  ewp_path :: path
  ewp_expr :: expr

definition ewp_get :: "ewp \<Rightarrow> path_elem \<Rightarrow> ewp result" where
  "ewp_get w pe =
     bindE (pe_get pe (ewp_expr w)) (\<lambda>e.
     Inr \<lparr>ewp_root = ewp_root w, ewp_path = ewp_path w @ [pe], ewp_expr = e\<rparr>)"

text \<open>
  \<open>__getattr__\<close>: \<open>Some\<close> when the attribute is an addressable field, \<open>None\<close> when it is read from
  the underlying expression.
\<close>

definition ewp_getattr :: "ewp \<Rightarrow> string \<Rightarrow> ewp result option" where
  "ewp_getattr w name = map_option (ewp_get w) (map_of (class_fields (ewp_expr w)) name)"

fun ewp_args :: "ewp \<Rightarrow> ewp list result" where
  "ewp_args w =
     (case ewp_expr w of
        Call _ args _ \<Rightarrow> mapE (\<lambda>i. ewp_get w (CallArg i)) [0..<length args]
      | _ \<Rightarrow> Inl AttributeError)"

definition all_subexprs_with_paths :: "ewp \<Rightarrow> ewp list result" where
  "all_subexprs_with_paths w =
     (case ewp_expr w of
        Call _ _ _ \<Rightarrow> ewp_args w
      | _ \<Rightarrow> mapE (ewp_get w) (map snd (class_fields (ewp_expr w))))"

fun ewp_descend :: "ewp \<Rightarrow> path \<Rightarrow> ewp result" where
  "ewp_descend w [] = Inr w"
| "ewp_descend w (pe # p) = bindE (ewp_get w pe) (\<lambda>w'. ewp_descend w' p)"

definition from_expr :: "expr \<Rightarrow> path \<Rightarrow> ewp result" where
  "from_expr e p = ewp_descend \<lparr>ewp_root = e, ewp_path = [], ewp_expr = e\<rparr> p"

definition subexps_no_binds :: "expr \<Rightarrow> expr list result" where
  "subexps_no_binds e =
     bindE (from_expr e []) (\<lambda>w.
     bindE (all_subexprs_with_paths w) (\<lambda>ws. Inr (map ewp_expr ws)))"

text \<open>The same children read off the expression, and the sub-expression at a path.\<close>

fun child_elems :: "expr \<Rightarrow> path_elem list" where
  "child_elems (Const _) = []"
| "child_elems (Var _) = []"
| "child_elems (Call _ args _) = map CallArg [0..<length args]"
| "child_elems (Lam _ _ _ _) = [lam_body]"
| "child_elems (LetE _ _ _ _) = [let_rhs, let_body]"
| "child_elems (IfE _ _ _ _) = [if_cond, if_t_body, if_f_body]"
| "child_elems (Assert _ _ _) = [assert_cond, assert_body]"

fun children :: "expr \<Rightarrow> expr list" where
  "children (Const _) = []"
| "children (Var _) = []"
| "children (Call _ args _) = args"
| "children (Lam _ _ b _) = [b]"
| "children (LetE _ r b _) = [r, b]"
| "children (IfE c t f _) = [c, t, f]"
| "children (Assert c b _) = [c, b]"

fun subexpr_at :: "expr \<Rightarrow> path \<Rightarrow> expr result" where
  "subexpr_at e [] = Inr e"
| "subexpr_at e (pe # p) = bindE (pe_get pe e) (\<lambda>e'. subexpr_at e' p)"

lemma class_fields_simps [simp]:
  "class_fields (Const k) = []" "class_fields (Var v) = []" "class_fields (Call f as t) = []"
  "class_fields (Lam x s b t) = [(''body'', lam_body)]"
  "class_fields (LetE vs r b t) = [(''rhs'', let_rhs), (''body'', let_body)]"
  "class_fields (IfE c tb fb t) = [(''cond'', if_cond), (''t_body'', if_t_body), (''f_body'', if_f_body)]"
  "class_fields (Assert c b t) = [(''cond'', assert_cond), (''body'', assert_body)]"
  by (simp_all add: class_fields_def field_elements_by_class_def)

lemma pe_get_child: "pe \<in> set (child_elems e) \<Longrightarrow> \<exists>e'. pe_get pe e = Inr e'"
  by (cases e) auto

lemma pe_get_Inr: "pe_get pe e = Inr e' \<Longrightarrow> pe \<in> set (child_elems e) \<and> e' \<in> set (children e)"
  by (cases "(pe, e)" rule: pe_get.cases) (auto split: if_splits)

lemma children_size [termination_simp]: "c \<in> set (children e) \<Longrightarrow> size c < size e"
proof (cases e)
  case (Call f as t)
  moreover assume "c \<in> set (children e)"
  ultimately show ?thesis
    by (simp add: less_Suc_eq_le size_list_estimation')
qed auto

lemma pe_get_size [termination_simp]: "pe_get pe e = Inr c \<Longrightarrow> size c < size e"
  using pe_get_Inr children_size by blast

lemma pe_get_Inr_iff: "(\<exists>e'. pe_get pe e = Inr e') \<longleftrightarrow> pe \<in> set (child_elems e)"
  using pe_get_child pe_get_Inr by blast

lemma mapE_pe_get_children: "mapE (\<lambda>pe. pe_get pe e) (child_elems e) = Inr (children e)"
proof (cases e)
  case (Call f args t)
  have "mapE (\<lambda>i. pe_get (CallArg i) e) [0..<length args] = Inr (map (\<lambda>i. args ! i) [0..<length args])"
    by (rule mapE_total) (simp add: Call)
  then show ?thesis by (simp add: Call mapE_Inr_iff list_all2_conv_all_nth)
qed auto

lemma ewp_get_Inr:
  "ewp_get w pe = Inr w' \<longleftrightarrow>
   (\<exists>e. pe_get pe (ewp_expr w) = Inr e \<and>
     w' = \<lparr>ewp_root = ewp_root w, ewp_path = ewp_path w @ [pe], ewp_expr = e\<rparr>)"
  by (auto simp: ewp_get_def bindE_eq_Inr)

lemma all_subexprs_child_elems:
  "all_subexprs_with_paths w = mapE (ewp_get w) (child_elems (ewp_expr w))"
  by (cases "ewp_expr w") (auto simp: all_subexprs_with_paths_def comp_def mapE_map)

lemma all_subexprs_total:
  obtains ws where "all_subexprs_with_paths w = Inr ws"
    "map ewp_expr ws = children (ewp_expr w)"
    "map ewp_path ws = map (\<lambda>pe. ewp_path w @ [pe]) (child_elems (ewp_expr w))"
    "\<forall>w' \<in> set ws. ewp_root w' = ewp_root w"
proof -
  have "\<exists>ws. mapE (ewp_get w) (child_elems (ewp_expr w)) = Inr ws"
    by (simp add: mapE_ex_Inr ewp_get_Inr pe_get_child)
  then obtain ws where ws: "mapE (ewp_get w) (child_elems (ewp_expr w)) = Inr ws" by blast
  then have l: "length ws = length (child_elems (ewp_expr w))" by (rule mapE_length)
  have nth: "\<exists>e. pe_get (child_elems (ewp_expr w) ! i) (ewp_expr w) = Inr e \<and>
      ws ! i = \<lparr>ewp_root = ewp_root w, ewp_path = ewp_path w @ [child_elems (ewp_expr w) ! i],
        ewp_expr = e\<rparr>" if "i < length ws" for i
    using mapE_nth [OF ws] that l ewp_get_Inr by auto
  have "mapE (\<lambda>pe. pe_get pe (ewp_expr w)) (child_elems (ewp_expr w)) = Inr (map ewp_expr ws)"
    using l nth by (fastforce simp: mapE_Inr_iff list_all2_conv_all_nth)
  then have "map ewp_expr ws = children (ewp_expr w)"
    by (simp add: mapE_pe_get_children)
  moreover have "map ewp_path ws = map (\<lambda>pe. ewp_path w @ [pe]) (child_elems (ewp_expr w))"
    using l nth by (fastforce intro: nth_equalityI)
  moreover have "\<forall>w' \<in> set ws. ewp_root w' = ewp_root w"
    using nth by (fastforce simp: in_set_conv_nth)
  ultimately show thesis using that ws all_subexprs_child_elems by metis
qed

lemma subexps_no_binds_eq: "subexps_no_binds e = Inr (children e)"
proof -
  let ?w = "\<lparr>ewp_root = e, ewp_path = [], ewp_expr = e\<rparr>"
  obtain ws where "all_subexprs_with_paths ?w = Inr ws" "map ewp_expr ws = children (ewp_expr ?w)"
    by (rule all_subexprs_total)
  then show ?thesis by (simp add: subexps_no_binds_def from_expr_def)
qed

text \<open>A descent keeps the root and records the path taken.\<close>

lemma ewp_descend_Inr:
  "ewp_descend w p = Inr w' \<longleftrightarrow>
   (\<exists>e. subexpr_at (ewp_expr w) p = Inr e \<and>
     w' = \<lparr>ewp_root = ewp_root w, ewp_path = ewp_path w @ p, ewp_expr = e\<rparr>)"
proof (induction p arbitrary: w)
  case Nil
  then show ?case by (cases w) auto
next
  case (Cons pe p)
  then show ?case by (auto simp: bindE_eq_Inr ewp_get_Inr)
qed

lemma from_expr_Inr:
  "from_expr e p = Inr w \<longleftrightarrow>
   ewp_root w = e \<and> ewp_path w = p \<and> subexpr_at e p = Inr (ewp_expr w)"
  by (cases w) (auto simp: from_expr_def ewp_descend_Inr)

lemma subexpr_at_append:
  "subexpr_at e (p @ q) = bindE (subexpr_at e p) (\<lambda>e'. subexpr_at e' q)"
  by (induction p arbitrary: e) (auto simp: bindE_assoc)

lemma pe_get_error: "pe_get pe e = Inl err \<Longrightarrow> err = AssertionError \<or> err = IndexError"
  by (cases "(pe, e)" rule: pe_get.cases) (auto split: if_splits)

section \<open>Serialization\<close>

definition serialize_path :: "path \<Rightarrow> string list" where
  "serialize_path p = map pe_str p"

definition known_field_elements :: "(string, path_elem) dict" where
  "known_field_elements =
     map (\<lambda>pe. (pe_str pe, pe)) (concat (map (map snd \<circ> snd) field_elements_by_class))"

text \<open>
  The regular expression \<open>call_args\[([0-9]+)\]\<close> is matched at the start of the string; what
  follows the closing bracket is not looked at.
\<close>

definition call_args_match :: "string \<Rightarrow> string option" where
  "call_args_match s =
     (if starts_with ''call_args['' s then
        (let rest = drop (length ''call_args['') s; ds = takeWhile is_digit rest
         in if ds \<noteq> [] \<and> starts_with '']'' (dropWhile is_digit rest) then Some ds else None)
      else None)"

definition deserialize_elem :: "string \<Rightarrow> path_elem result" where
  "deserialize_elem s =
     (case map_of known_field_elements s of
        Some pe \<Rightarrow> Inr pe
      | None \<Rightarrow>
          (case call_args_match s of
             Some ds \<Rightarrow> call_args_getitem (int (str_nat ds))
           | None \<Rightarrow> Inl ValueError))"

definition deserialize_path :: "string list \<Rightarrow> path result" where
  "deserialize_path ss = mapE deserialize_elem ss"

lemma known_field_elements_simp [simp]:
  "known_field_elements =
     [(''let_rhs'', let_rhs), (''let_body'', let_body), (''if_cond'', if_cond),
      (''if_t_body'', if_t_body), (''if_f_body'', if_f_body), (''assert_cond'', assert_cond),
      (''assert_body'', assert_body), (''lam_body'', lam_body)]"
  by (simp add: known_field_elements_def field_elements_by_class_def)

lemma takeWhile_digits_nat_str:
  "takeWhile is_digit (nat_str n @ CHR '']'' # s) = nat_str n"
  "dropWhile is_digit (nat_str n @ CHR '']'' # s) = CHR '']'' # s"
  using nat_str_digits [of n] by (simp_all add: is_digit_def)

lemma deserialize_call_args:
  "deserialize_elem (''call_args['' @ nat_str n @ '']'' @ s) = Inr (CallArg n)"
  using takeWhile_digits_nat_str [of n s]
  by (simp add: deserialize_elem_def call_args_match_def starts_with_def call_args_getitem_def)

lemma deserialize_elem_pe_str [simp]: "deserialize_elem (pe_str pe) = Inr pe"
proof (cases pe)
  case (CallArg n)
  then show ?thesis using deserialize_call_args [of n "[]"] by simp
qed (simp_all add: deserialize_elem_def)

section \<open>Properties\<close>

text \<open>C13: Deserializing a serialized path gives the path back.\<close>

theorem path_roundtrip: "deserialize_path (serialize_path p) = Inr p"
  by (simp add: deserialize_path_def serialize_path_def mapE_map comp_def mapE_total [where g = id, simplified])

text \<open>
  \<open>deserialize_path\<close> accepts anything after the closing bracket of an argument index, because the
  regular expression is matched at the start of the string only.
\<close>

lemma deserialize_path_accepts_suffix:
  "deserialize_path [''call_args['' @ nat_str n @ '']'' @ junk] = Inr [CallArg n]"
  using deserialize_call_args [of n junk] by (simp add: deserialize_path_def)

text \<open>
  \<open>ExprWithPath.from_expr\<close> returns exactly the sub-expression the path leads to, with the root and
  the path it was given, and \<open>subexps_no_binds\<close> lists all direct sub-expressions in order.
\<close>

lemma from_expr_exact:
  "(from_expr e p = Inr w) =
     (ewp_root w = e \<and> ewp_path w = p \<and> subexpr_at e p = Inr (ewp_expr w)) \<and>
   subexps_no_binds e = Inr (children e)"
  by (simp add: from_expr_Inr subexps_no_binds_eq)

end
