(* ===== verification/KsSemantics.thy ===== *)
theory KsSemantics
  imports KsPath
begin

text \<open>
  The abstract specification the transformations are measured against: the value of an
  expression in an interpretation of constants, calls and binding forms. An interpretation is
  any record of type \<open>algebra\<close>; nothing is assumed of it unless a locale says so, so a theorem
  over all algebras says that a transformation respects binding and nothing else. The laws of
  \<open>let\<close>, \<open>if\<close>, \<open>assert\<close> and tuples are locales, interpreted in \<open>KsBackend\<close> on the operators
  of \<open>src/python/ksc/backends/common.py\<close>.
\<close>

section \<open>Evaluation\<close>

record 'v algebra =
  a_const :: "const \<Rightarrow> 'v"
  a_call :: "sname \<Rightarrow> 'v list \<Rightarrow> 'v"
  a_lam :: "ty \<Rightarrow> ('v \<Rightarrow> 'v) \<Rightarrow> 'v"
  a_let :: "'v \<Rightarrow> ('v \<Rightarrow> 'v) \<Rightarrow> 'v"
  a_lets :: "nat \<Rightarrow> 'v \<Rightarrow> ((nat \<Rightarrow> 'v) \<Rightarrow> 'v) \<Rightarrow> 'v"
  a_if :: "'v \<Rightarrow> 'v \<Rightarrow> 'v \<Rightarrow> 'v"
  a_assert :: "'v \<Rightarrow> 'v \<Rightarrow> 'v"

type_synonym 'v env = "string \<Rightarrow> 'v"

text \<open>
  Binding several variables at once: the values are a function of the position, and the last of
  two equal names wins.
\<close>

fun upds :: "'v env \<Rightarrow> string list \<Rightarrow> (nat \<Rightarrow> 'v) \<Rightarrow> 'v env" where
  "upds \<rho> [] vs = \<rho>"
| "upds \<rho> (x # xs) vs = upds (\<rho>(x := vs 0)) xs (\<lambda>i. vs (Suc i))"

fun eval :: "'v algebra \<Rightarrow> 'v env \<Rightarrow> expr \<Rightarrow> 'v" where
  "eval A \<rho> (Const c) = a_const A c"
| "eval A \<rho> (Var v) = \<rho> (var_name v)"
| "eval A \<rho> (Call f as _) = a_call A f (map (eval A \<rho>) as)"
| "eval A \<rho> (Lam x s b _) = a_lam A s (\<lambda>v. eval A (\<rho>(x := v)) b)"
| "eval A \<rho> (LetE (One x) r b _) = a_let A (eval A \<rho> r) (\<lambda>v. eval A (\<rho>(var_name x := v)) b)"
| "eval A \<rho> (LetE (Many xs) r b _) =
     a_lets A (length xs) (eval A \<rho> r) (\<lambda>vs. eval A (upds \<rho> (map var_name xs) vs) b)"
| "eval A \<rho> (IfE c t f _) = a_if A (eval A \<rho> c) (eval A \<rho> t) (eval A \<rho> f)"
| "eval A \<rho> (Assert c b _) = a_assert A (eval A \<rho> c) (eval A \<rho> b)"

lemma upds_notin: "x \<notin> set xs \<Longrightarrow> upds \<rho> xs vs x = \<rho> x"
  by (induction xs arbitrary: \<rho> vs) auto

lemma upds_agree: "(x \<notin> set xs \<Longrightarrow> \<rho> x = \<rho>' x) \<Longrightarrow> upds \<rho> xs vs x = upds \<rho>' xs vs x"
proof (induction xs arbitrary: \<rho> \<rho>' vs)
  case (Cons y xs)
  have "upds (\<rho>(y := vs 0)) xs (\<lambda>i. vs (Suc i)) x = upds (\<rho>'(y := vs 0)) xs (\<lambda>i. vs (Suc i)) x"
    by (rule Cons.IH) (use Cons.prems in auto)
  then show ?case by simp
qed simp

text \<open>The value depends on the free variables only.\<close>

definition agree_on :: "string set \<Rightarrow> 'v env \<Rightarrow> 'v env \<Rightarrow> bool" where
  "agree_on X \<rho> \<rho>' \<longleftrightarrow> (\<forall>x \<in> X. \<rho> x = \<rho>' x)"

lemma agree_on_simps [simp]:
  "agree_on {} \<rho> \<rho>'"
  "agree_on (X \<union> Y) \<rho> \<rho>' \<longleftrightarrow> agree_on X \<rho> \<rho>' \<and> agree_on Y \<rho> \<rho>'"
  "agree_on {x} \<rho> \<rho>' \<longleftrightarrow> \<rho> x = \<rho>' x"
  "agree_on X \<rho> \<rho>"
  by (auto simp: agree_on_def)

lemma agree_on_UN [simp]:
  "agree_on (\<Union>a \<in> S. X a) \<rho> \<rho>' \<longleftrightarrow> (\<forall>a \<in> S. agree_on (X a) \<rho> \<rho>')"
  by (auto simp: agree_on_def)

lemma agree_on_upd: "agree_on (X - {x}) \<rho> \<rho>' \<Longrightarrow> agree_on X (\<rho>(x := v)) (\<rho>'(x := v))"
  by (auto simp: agree_on_def)

lemma agree_on_upds: "agree_on (X - set xs) \<rho> \<rho>' \<Longrightarrow> agree_on X (upds \<rho> xs vs) (upds \<rho>' xs vs)"
  by (auto simp: agree_on_def intro!: upds_agree)

lemma eval_cong: "agree_on (free_vars e) \<rho> \<rho>' \<Longrightarrow> eval A \<rho> e = eval A \<rho>' e"
proof (induction e arbitrary: \<rho> \<rho>')
  case (Call f as t)
  then have "map (eval A \<rho>) as = map (eval A \<rho>') as" by auto
  then show ?case by (simp only: eval.simps)
next
  case (Lam x s b t)
  then have "eval A (\<rho>(x := v)) b = eval A (\<rho>'(x := v)) b" for v
    by (intro Lam.IH agree_on_upd) simp
  then show ?case by simp
next
  case (LetE vs r b t)
  have r: "eval A \<rho> r = eval A \<rho>' r" using LetE by simp
  show ?case
  proof (cases vs)
    case (One x)
    then have "eval A (\<rho>(var_name x := v)) b = eval A (\<rho>'(var_name x := v)) b" for v
      using LetE.prems by (intro LetE.IH agree_on_upd) simp
    with r One show ?thesis by simp
  next
    case (Many xs)
    then have "eval A (upds \<rho> (map var_name xs) vs) b = eval A (upds \<rho>' (map var_name xs) vs) b" for vs
      using LetE.prems by (intro LetE.IH agree_on_upds) simp
    with r Many show ?thesis by simp
  qed
next
  case (IfE c t f u)
  then have "eval A \<rho> c = eval A \<rho>' c" "eval A \<rho> t = eval A \<rho>' t" "eval A \<rho> f = eval A \<rho>' f"
    by auto
  then show ?case by simp
next
  case (Assert c b t)
  then have "eval A \<rho> c = eval A \<rho>' c" "eval A \<rho> b = eval A \<rho>' b" by auto
  then show ?case by simp
qed auto

lemma eval_upd_notin: "x \<notin> free_vars e \<Longrightarrow> eval A (\<rho>(x := v)) e = eval A \<rho> e"
  by (rule eval_cong) (auto simp: agree_on_def)

section \<open>Evaluation with holes\<close>

text \<open>
  \<open>eval_holes A H \<rho> p e\<close>: the value of \<open>e\<close>, found at path \<open>p\<close>, when the value of the sub-expression
  at each path \<open>q\<close> with \<open>H q = Some g\<close> is passed through \<open>g\<close>.
\<close>

type_synonym 'v holes = "path \<Rightarrow> ('v \<Rightarrow> 'v) option"

fun eval_holes :: "'v algebra \<Rightarrow> 'v holes \<Rightarrow> 'v env \<Rightarrow> path \<Rightarrow> expr \<Rightarrow> 'v" where
  "eval_holes A H \<rho> p e =
     (case H p of Some g \<Rightarrow> g (eval A \<rho> e) | None \<Rightarrow>
        (case e of
           Const c \<Rightarrow> a_const A c
         | Var v \<Rightarrow> \<rho> (var_name v)
         | Call f as _ \<Rightarrow>
             a_call A f (map (\<lambda>(i, a). eval_holes A H \<rho> (p @ [CallArg i]) a) (enumerate 0 as))
         | Lam x s b _ \<Rightarrow> a_lam A s (\<lambda>v. eval_holes A H (\<rho>(x := v)) (p @ [lam_body]) b)
         | LetE vs r b _ \<Rightarrow>
             (case vs of
                One x \<Rightarrow> a_let A (eval_holes A H \<rho> (p @ [let_rhs]) r)
                  (\<lambda>v. eval_holes A H (\<rho>(var_name x := v)) (p @ [let_body]) b)
              | Many xs \<Rightarrow> a_lets A (length xs) (eval_holes A H \<rho> (p @ [let_rhs]) r)
                  (\<lambda>vs. eval_holes A H (upds \<rho> (map var_name xs) vs) (p @ [let_body]) b))
         | IfE c t f _ \<Rightarrow> a_if A (eval_holes A H \<rho> (p @ [if_cond]) c)
             (eval_holes A H \<rho> (p @ [if_t_body]) t) (eval_holes A H \<rho> (p @ [if_f_body]) f)
         | Assert c b _ \<Rightarrow> a_assert A (eval_holes A H \<rho> (p @ [assert_cond]) c)
             (eval_holes A H \<rho> (p @ [assert_body]) b)))"

declare eval_holes.simps [simp del]

lemma eval_holes_hole: "H p = Some g \<Longrightarrow> eval_holes A H \<rho> p e = g (eval A \<rho> e)"
  by (subst eval_holes.simps) simp

named_theorems eval_holes_step \<open>evaluation at a node that is not a hole\<close>

lemma eval_holes_None [eval_holes_step]:
  assumes "H p = None"
  shows
    "eval_holes A H \<rho> p (Const k) = a_const A k"
    "eval_holes A H \<rho> p (Var y) = \<rho> (var_name y)"
    "eval_holes A H \<rho> p (Call f as ty) =
       a_call A f (map (\<lambda>(i, a). eval_holes A H \<rho> (p @ [CallArg i]) a) (enumerate 0 as))"
    "eval_holes A H \<rho> p (Lam x s b ty) =
       a_lam A s (\<lambda>v. eval_holes A H (\<rho>(x := v)) (p @ [lam_body]) b)"
    "eval_holes A H \<rho> p (LetE (One y) r b ty) =
       a_let A (eval_holes A H \<rho> (p @ [let_rhs]) r)
         (\<lambda>v. eval_holes A H (\<rho>(var_name y := v)) (p @ [let_body]) b)"
    "eval_holes A H \<rho> p (LetE (Many ys) r b ty) =
       a_lets A (length ys) (eval_holes A H \<rho> (p @ [let_rhs]) r)
         (\<lambda>vs. eval_holes A H (upds \<rho> (map var_name ys) vs) (p @ [let_body]) b)"
    "eval_holes A H \<rho> p (IfE c t e ty) = a_if A (eval_holes A H \<rho> (p @ [if_cond]) c)
       (eval_holes A H \<rho> (p @ [if_t_body]) t) (eval_holes A H \<rho> (p @ [if_f_body]) e)"
    "eval_holes A H \<rho> p (Assert c b ty) = a_assert A (eval_holes A H \<rho> (p @ [assert_cond]) c)
       (eval_holes A H \<rho> (p @ [assert_body]) b)"
  using assms by (subst eval_holes.simps; simp)+

definition no_holes :: "'v holes \<Rightarrow> path \<Rightarrow> bool" where
  "no_holes H p \<longleftrightarrow> (\<forall>q. H (p @ q) = None)"

lemma no_holes_here: "no_holes H p \<Longrightarrow> H p = None"
  by (metis no_holes_def append_Nil2)

lemma no_holes_child: "no_holes H p \<Longrightarrow> no_holes H (p @ [pe])"
  by (simp add: no_holes_def)

lemma eval_holes_no_holes: "no_holes H p \<Longrightarrow> eval_holes A H \<rho> p e = eval A \<rho> e"
proof (induction e arbitrary: \<rho> p)
  case (Call f as t)
  have "map (\<lambda>(i, a). eval_holes A H \<rho> (p @ [CallArg i]) a) (enumerate 0 as) = map (eval A \<rho>) as"
    by (rule map_enumerate_snd) (simp add: Call.IH Call.prems no_holes_child)
  then show ?case by (simp add: eval_holes_step no_holes_here [OF Call.prems])
next
  case (LetE vs r b t)
  then show ?case
    by (cases vs) (simp_all add: eval_holes_step no_holes_here no_holes_child fun_upd_def)
qed (simp_all add: eval_holes_step no_holes_here no_holes_child)

lemma eval_holes_cong_hole:
  assumes "H p = Some g" "agree_on (free_vars e) \<rho> \<rho>'" "\<And>q. H (p @ q) = H' (p @ q)"
  shows "eval_holes A H \<rho> p e = eval_holes A H' \<rho>' p e"
proof -
  have "H' p = Some g" using assms(1) assms(3) [of "[]"] by simp
  then show ?thesis using assms(1) eval_cong [OF assms(2)] by (metis eval_holes_hole)
qed

text \<open>Two hole assignments that agree below \<open>p\<close> give the same value, in agreeing environments.\<close>

lemma eval_holes_cong:
  "agree_on (free_vars e) \<rho> \<rho>' \<Longrightarrow> (\<And>q. H (p @ q) = H' (p @ q)) \<Longrightarrow>
   eval_holes A H \<rho> p e = eval_holes A H' \<rho>' p e"
proof (induction e arbitrary: \<rho> \<rho>' p)
  case (Const c)
  have "H' p = H p" using Const.prems(2) [of "[]"] by simp
  then show ?case by (cases "H p") (simp_all add: eval_holes_step eval_holes_hole)
next
  case (Var v)
  have "H' p = H p" using Var.prems(2) [of "[]"] by simp
  with Var.prems(1) show ?case by (cases "H p") (simp_all add: eval_holes_step eval_holes_hole)
next
  case (Call f as t)
  show ?case
  proof (cases "H p")
    case None
    have "map (\<lambda>(i, a). eval_holes A H \<rho> (p @ [CallArg i]) a) (enumerate 0 as) =
      map (\<lambda>(i, a). eval_holes A H' \<rho>' (p @ [CallArg i]) a) (enumerate 0 as)"
    proof (rule map_enumerate_cong)
      fix i
      assume i: "i < length as"
      have "eval_holes A H \<rho> (p @ [CallArg i]) (as ! i) = eval_holes A H' \<rho>' (p @ [CallArg i]) (as ! i)"
        by (rule Call.IH) (use Call.prems i in auto)
      then show "(case (i, as ! i) of (i, a) \<Rightarrow> eval_holes A H \<rho> (p @ [CallArg i]) a) =
        (case (i, as ! i) of (i, a) \<Rightarrow> eval_holes A H' \<rho>' (p @ [CallArg i]) a)" by simp
    qed
    moreover have "H' p = None" using None Call.prems(2) [of "[]"] by simp
    ultimately show ?thesis by (simp only: eval_holes_None(3) None)
  next
    case (Some g)
    then show ?thesis by (rule eval_holes_cong_hole) (use Call.prems in auto)
  qed
next
  case (Lam x s b t)
  show ?case
  proof (cases "H p")
    case None
    have "eval_holes A H (\<rho>(x := v)) (p @ [lam_body]) b = eval_holes A H' (\<rho>'(x := v)) (p @ [lam_body]) b" for v
      by (rule Lam.IH, rule agree_on_upd) (use Lam.prems in simp_all)
    then show ?thesis using None Lam.prems(2) [of "[]"] by (simp add: eval_holes_step)
  next
    case (Some g)
    then show ?thesis by (rule eval_holes_cong_hole) (use Lam.prems in auto)
  qed
next
  case (LetE vs r b t)
  show ?case
  proof (cases "H p")
    case None
    have r: "eval_holes A H \<rho> (p @ [let_rhs]) r = eval_holes A H' \<rho>' (p @ [let_rhs]) r"
      by (rule LetE.IH) (use LetE.prems in auto)
    show ?thesis
    proof (cases vs)
      case (One x)
      have "eval_holes A H (\<rho>(var_name x := v)) (p @ [let_body]) b =
        eval_holes A H' (\<rho>'(var_name x := v)) (p @ [let_body]) b" for v
        by (rule LetE.IH, rule agree_on_upd) (use LetE.prems One in simp_all)
      then show ?thesis using None One r LetE.prems(2) [of "[]"] by (simp add: eval_holes_step)
    next
      case (Many xs)
      have "eval_holes A H (upds \<rho> (map var_name xs) vs) (p @ [let_body]) b =
        eval_holes A H' (upds \<rho>' (map var_name xs) vs) (p @ [let_body]) b" for vs
        by (rule LetE.IH, rule agree_on_upds) (use LetE.prems Many in simp_all)
      then show ?thesis using None Many r LetE.prems(2) [of "[]"] by (simp add: eval_holes_step)
    qed
  next
    case (Some g)
    then show ?thesis by (rule eval_holes_cong_hole) (use LetE.prems in auto)
  qed
next
  case (IfE c t e u)
  show ?case
  proof (cases "H p")
    case None
    have "eval_holes A H \<rho> (p @ [if_cond]) c = eval_holes A H' \<rho>' (p @ [if_cond]) c"
      "eval_holes A H \<rho> (p @ [if_t_body]) t = eval_holes A H' \<rho>' (p @ [if_t_body]) t"
      "eval_holes A H \<rho> (p @ [if_f_body]) e = eval_holes A H' \<rho>' (p @ [if_f_body]) e"
      using IfE.prems by (auto intro!: IfE.IH)
    then show ?thesis using None IfE.prems(2) [of "[]"] by (simp add: eval_holes_step)
  next
    case (Some g)
    then show ?thesis by (rule eval_holes_cong_hole) (use IfE.prems in auto)
  qed
next
  case (Assert c b t)
  show ?case
  proof (cases "H p")
    case None
    have "eval_holes A H \<rho> (p @ [assert_cond]) c = eval_holes A H' \<rho>' (p @ [assert_cond]) c"
      "eval_holes A H \<rho> (p @ [assert_body]) b = eval_holes A H' \<rho>' (p @ [assert_body]) b"
      using Assert.prems by (auto intro!: Assert.IH)
    then show ?thesis using None Assert.prems(2) [of "[]"] by (simp add: eval_holes_step)
  next
    case (Some g)
    then show ?thesis by (rule eval_holes_cong_hole) (use Assert.prems in auto)
  qed
qed

section \<open>Replacement without renaming\<close>

fun put_at :: "expr \<Rightarrow> path \<Rightarrow> expr \<Rightarrow> expr" where
  "put_at e [] n = n"
| "put_at (LetE vs r b t) (let_rhs # p) n = LetE vs (put_at r p n) b t"
| "put_at (LetE vs r b t) (let_body # p) n = LetE vs r (put_at b p n) t"
| "put_at (IfE c t f u) (if_cond # p) n = IfE (put_at c p n) t f u"
| "put_at (IfE c t f u) (if_t_body # p) n = IfE c (put_at t p n) f u"
| "put_at (IfE c t f u) (if_f_body # p) n = IfE c t (put_at f p n) u"
| "put_at (Assert c b t) (assert_cond # p) n = Assert (put_at c p n) b t"
| "put_at (Assert c b t) (assert_body # p) n = Assert c (put_at b p n) t"
| "put_at (Lam x s b t) (lam_body # p) n = Lam x s (put_at b p n) t"
| "put_at (Call f as t) (CallArg i # p) n =
     (if i < length as then Call f (as[i := put_at (as ! i) p n]) t else Call f as t)"
| "put_at e _ n = e"

text \<open>Replacing a sub-expression by one of the same meaning keeps the meaning.\<close>

definition equivalent :: "'v algebra \<Rightarrow> expr \<Rightarrow> expr \<Rightarrow> bool" where
  "equivalent A e e' \<longleftrightarrow> (\<forall>\<rho>. eval A \<rho> e = eval A \<rho> e')"

lemma eval_put_at:
  "subexpr_at e p = Inr old \<Longrightarrow> equivalent A n old \<Longrightarrow> equivalent A (put_at e p n) e"
proof (induction e p n rule: put_at.induct)
  case (10 f as t i p n)
  show ?case
  proof (cases "i < length as")
    case True
    with "10" have "equivalent A (put_at (as ! i) p n) (as ! i)" by simp
    then have "map (eval A \<rho>) (as[i := put_at (as ! i) p n]) = map (eval A \<rho>) as" for \<rho>
      using True by (simp add: map_update equivalent_def list_update_same_conv)
    then show ?thesis using True by (simp add: equivalent_def)
  qed (simp add: equivalent_def)
next
  case (2 vs r b t p n)
  then show ?case by (cases vs) (simp_all add: equivalent_def)
next
  case (3 vs r b t p n)
  then show ?case by (cases vs) (simp_all add: equivalent_def)
qed (simp_all add: equivalent_def)

lemma subexpr_put_at:
  "subexpr_at e p = Inr old \<Longrightarrow> subexpr_at (put_at e p n) p = Inr n"
  by (induction e p n rule: put_at.induct) (auto split: if_splits)

section \<open>Refinement\<close>

text \<open>
  Evaluation in Python can raise, and a transformation that drops or duplicates a computation
  may drop an exception. The interface below is what such a transformation relies on: an order
  \<open>le\<close> on values (what raises is below everything) that every operation respects.
\<close>

locale mono_algebra =
  fixes A :: "'v algebra" and le :: "'v \<Rightarrow> 'v \<Rightarrow> bool"
  assumes le_refl: "le v v"
    and le_trans: "le u v \<Longrightarrow> le v w \<Longrightarrow> le u w"
    and call_mono: "list_all2 le vs ws \<Longrightarrow> le (a_call A f vs) (a_call A f ws)"
    and lam_mono: "(\<And>v w. le v w \<Longrightarrow> le (k v) (k' w)) \<Longrightarrow> le (a_lam A s k) (a_lam A s k')"
    and let_mono: "le r r' \<Longrightarrow> (\<And>v w. le v w \<Longrightarrow> le (k v) (k' w)) \<Longrightarrow> le (a_let A r k) (a_let A r' k')"
    and lets_mono: "le r r' \<Longrightarrow> (\<And>vs ws. (\<And>i. le (vs i) (ws i)) \<Longrightarrow> le (h vs) (h' ws)) \<Longrightarrow>
      le (a_lets A n r h) (a_lets A n r' h')"
    and if_mono: "le c c' \<Longrightarrow> le t t' \<Longrightarrow> le e e' \<Longrightarrow> le (a_if A c t e) (a_if A c' t' e')"
    and assert_mono: "le c c' \<Longrightarrow> le t t' \<Longrightarrow> le (a_assert A c t) (a_assert A c' t')"
begin

definition le_env :: "'v env \<Rightarrow> 'v env \<Rightarrow> bool" where
  "le_env \<rho> \<rho>' \<longleftrightarrow> (\<forall>x. le (\<rho> x) (\<rho>' x))"

lemma le_env_refl: "le_env \<rho> \<rho>"
  by (simp add: le_env_def le_refl)

lemma le_env_upd: "le_env \<rho> \<rho>' \<Longrightarrow> le v w \<Longrightarrow> le_env (\<rho>(x := v)) (\<rho>'(x := w))"
  by (simp add: le_env_def)

lemma le_env_upds: "le_env \<rho> \<rho>' \<Longrightarrow> (\<And>i. le (vs i) (ws i)) \<Longrightarrow> le_env (upds \<rho> xs vs) (upds \<rho>' xs ws)"
proof (induction xs arbitrary: \<rho> \<rho>' vs ws)
  case (Cons x xs)
  have "le_env (upds (\<rho>(x := vs 0)) xs (\<lambda>i. vs (Suc i))) (upds (\<rho>'(x := ws 0)) xs (\<lambda>i. ws (Suc i)))"
    by (rule Cons.IH) (rule le_env_upd Cons.prems)+
  then show ?case by simp
qed simp

lemma le_list_refl: "list_all2 le vs vs"
  by (simp add: list_all2_same le_refl)

text \<open>\<open>refines e e'\<close>: wherever \<open>e\<close> has a value, \<open>e'\<close> has it too.\<close>

definition refines :: "expr \<Rightarrow> expr \<Rightarrow> bool" where
  "refines e e' \<longleftrightarrow> (\<forall>\<rho> \<rho>'. le_env \<rho> \<rho>' \<longrightarrow> le (eval A \<rho> e) (eval A \<rho>' e'))"

lemma refinesD: "refines e e' \<Longrightarrow> le_env \<rho> \<rho>' \<Longrightarrow> le (eval A \<rho> e) (eval A \<rho>' e')"
  by (simp add: refines_def)

lemma refines_call:
  "list_all2 refines as bs \<Longrightarrow> refines (Call f as t) (Call f bs t')"
  unfolding refines_def
proof (intro allI impI)
  fix \<rho> \<rho>'
  assume "list_all2 (\<lambda>e e'. \<forall>\<rho> \<rho>'. le_env \<rho> \<rho>' \<longrightarrow> le (eval A \<rho> e) (eval A \<rho>' e')) as bs" and "le_env \<rho> \<rho>'"
  then have "list_all2 (\<lambda>e e'. le (eval A \<rho> e) (eval A \<rho>' e')) as bs"
    by (auto elim: list_all2_mono)
  then show "le (eval A \<rho> (Call f as t)) (eval A \<rho>' (Call f bs t'))"
    by (simp add: call_mono list_all2_map1 list_all2_map2)
qed

lemma refines_lam: "refines b b' \<Longrightarrow> refines (Lam x s b t) (Lam x s b' t')"
  by (simp add: refines_def lam_mono le_env_upd)

lemma refines_let: "refines r r' \<Longrightarrow> refines b b' \<Longrightarrow> refines (LetE vs r b t) (LetE vs r' b' t')"
  by (cases vs) (simp_all add: refines_def let_mono le_env_upd lets_mono le_env_upds)

lemma refines_if:
  "refines c c' \<Longrightarrow> refines d d' \<Longrightarrow> refines e e' \<Longrightarrow> refines (IfE c d e t) (IfE c' d' e' t')"
  by (simp add: refines_def if_mono)

lemma refines_assert: "refines c c' \<Longrightarrow> refines d d' \<Longrightarrow> refines (Assert c d t) (Assert c' d' t')"
  by (simp add: refines_def assert_mono)

lemmas refines_cong = refines_call refines_lam refines_let refines_if refines_assert

lemma refines_refl: "refines e e"
proof (induction e)
  case (Call f as t)
  then have "list_all2 refines as as" by (simp add: list_all2_same)
  then show ?case by (rule refines_call)
next
  case (Const c)
  show ?case by (simp add: refines_def le_refl)
next
  case (Var v)
  show ?case by (simp add: refines_def le_env_def)
qed (rule refines_cong; assumption)+

lemma eval_mono: "le_env \<rho> \<rho>' \<Longrightarrow> le (eval A \<rho> e) (eval A \<rho>' e)"
  using refinesD [OF refines_refl] .

lemma refinesI: "(\<And>\<rho>. le (eval A \<rho> e) (eval A \<rho> e')) \<Longrightarrow> refines e e'"
  unfolding refines_def using le_trans eval_mono by blast

lemma refines_trans: "refines e e' \<Longrightarrow> refines e' e'' \<Longrightarrow> refines e e''"
  unfolding refines_def using le_trans le_env_refl by blast

lemma equivalent_refines: "equivalent A e e' \<Longrightarrow> refines e e'"
  by (rule refinesI) (simp add: equivalent_def le_refl)

text \<open>A call that does more: every value found without it is still found.\<close>

lemma eval_more_calls:
  assumes c: "\<And>f vs. le (a_call A f vs) (c f vs)"
  shows "le_env \<rho> \<rho>' \<Longrightarrow> le (eval A \<rho> e) (eval (A\<lparr>a_call := c\<rparr>) \<rho>' e)"
proof (induction e arbitrary: \<rho> \<rho>')
  case (Call f as t)
  then have "list_all2 le (map (eval A \<rho>) as) (map (eval (A\<lparr>a_call := c\<rparr>) \<rho>') as)"
    by (simp add: list_all2_conv_all_nth)
  then have "le (a_call A f (map (eval A \<rho>) as)) (a_call A f (map (eval (A\<lparr>a_call := c\<rparr>) \<rho>') as))"
    by (rule call_mono)
  from le_trans [OF this c] show ?case by simp
next
  case (LetE vs r b t)
  then show ?case
    by (cases vs) (auto intro!: let_mono lets_mono LetE.IH le_env_upd le_env_upds)
qed (auto simp: le_refl le_env_def intro!: lam_mono if_mono assert_mono)

lemma refines_put_at:
  "subexpr_at e p = Inr old \<Longrightarrow> refines old n \<Longrightarrow> refines e (put_at e p n)"
proof (induction e p n rule: put_at.induct)
  case (10 f as t i p n)
  show ?case
  proof (cases "i < length as")
    case True
    with "10" have "refines (as ! i) (put_at (as ! i) p n)" by simp
    then have "list_all2 refines as (as[i := put_at (as ! i) p n])"
      using True by (simp add: list_all2_conv_all_nth nth_list_update refines_refl)
    with True show ?thesis by (simp add: refines_call)
  qed (simp add: refines_refl)
qed (auto intro: refines_cong refines_refl)

end

text \<open>Laws of \<open>let\<close>: only its value at the bound value counts, and dropping it loses nothing but an
  exception.\<close>

locale let_algebra = mono_algebra +
  assumes let_at: "k v = k' v \<Longrightarrow> a_let A v k = a_let A v k'"
    and let_body: "le (a_let A v k) (k v)"
begin

lemma refines_unused_let: "var_name x \<notin> free_vars b \<Longrightarrow> refines (LetE (One x) r b t) b"
proof (rule refinesI)
  fix \<rho>
  assume "var_name x \<notin> free_vars b"
  then have "eval A (\<rho>(var_name x := v)) b = eval A \<rho> b" for v by (rule eval_upd_notin)
  then show "le (eval A \<rho> (LetE (One x) r b t)) (eval A \<rho> b)"
    using let_body [of "eval A \<rho> r" "\<lambda>v. eval A \<rho> b"] by simp
qed

end

text \<open>Nested lets over a list of values, each computed outside the scope of the others.\<close>

fun nest_lets :: "'v algebra \<Rightarrow> 'v list \<Rightarrow> ((nat \<Rightarrow> 'v) \<Rightarrow> 'v) \<Rightarrow> 'v" where
  "nest_lets A [] k = k (\<lambda>i. undefined)"
| "nest_lets A (v # vs) k = a_let A v (\<lambda>u. nest_lets A vs (\<lambda>us. k (case_nat u us)))"

text \<open>A body that looks at the first \<open>n\<close> values only.\<close>

definition first_values :: "nat \<Rightarrow> ((nat \<Rightarrow> 'v) \<Rightarrow> 'v) \<Rightarrow> bool" where
  "first_values n h \<longleftrightarrow> (\<forall>us ws. (\<forall>i < n. us i = ws i) \<longrightarrow> h us = h ws)"

lemma upds_first: "(\<forall>i < length xs. us i = ws i) \<Longrightarrow> upds \<rho> xs us = upds \<rho> xs ws"
  by (induction xs arbitrary: \<rho> us ws) auto

lemma first_values_upds: "first_values (length xs) (\<lambda>us. eval A (upds \<rho> xs us) b)"
  unfolding first_values_def using upds_first by metis

lemma first_values_Suc: "first_values (Suc n) h \<Longrightarrow> first_values n (\<lambda>us. h (case_nat u us))"
  by (auto simp: first_values_def split: nat.splits)

text \<open>Laws of tupled lets: how they are taken apart.\<close>

definition tuple_name :: sname where
  "tuple_name = SName ''tuple''"

definition get_name :: "nat \<Rightarrow> nat \<Rightarrow> sname" where
  "get_name i n = SName (''get$'' @ nat_str i @ ''$'' @ nat_str n)"

locale tuple_algebra = let_algebra +
  assumes lets_literal:
      "mangle_without_type f = ''tuple'' \<Longrightarrow> vs \<noteq> [] \<Longrightarrow> first_values (length vs) h \<Longrightarrow>
       le (a_lets A (length vs) (a_call A f vs) h) (nest_lets A vs h)"
    and lets_get:
      "0 < n \<Longrightarrow> first_values n h \<Longrightarrow>
       le (a_lets A n v h)
          (a_let A v (\<lambda>u. nest_lets A (map (\<lambda>i. a_call A (get_name i n) [u]) [1..<Suc n]) h))"

end
