(* ===== verification/Visitors.thy ===== *)
theory Visitors
  imports KsPath
begin

text \<open>
  \<open>src/python/ksc/visitors.py\<close>: the default behaviour of \<open>ExprTransformer\<close>, which visits each
  sub-expression and rebuilds the node. The visit of a child is an argument, given the path
  element that leads to the child; a subclass is a recursive function that handles the classes it
  overrides and calls \<open>transform_children\<close> for the others.
\<close>

fun transform_children :: "(path_elem \<Rightarrow> expr \<Rightarrow> expr result) \<Rightarrow> expr \<Rightarrow> expr result" where
  "transform_children f (Var v) = Inr (Var v)"
| "transform_children f (Const c) = Inr (Const c)"
| "transform_children f (LetE vs r b t) =
     bindE (f let_rhs r) (\<lambda>r'. bindE (f let_body b) (\<lambda>b'. mk_let vs r' b' t))"
| "transform_children f (Lam x s b t) = bindE (f lam_body b) (\<lambda>b'. mk_lam (MkVar x (Some s)) b' t)"
| "transform_children f (Call g as t) =
     bindE (mapE (\<lambda>(i, a). f (CallArg i) a) (enumerate 0 as)) (\<lambda>as'. mk_call (Inr g) as' t)"
| "transform_children f (IfE c t e u) =
     bindE (f if_cond c) (\<lambda>c'. bindE (f if_t_body t) (\<lambda>t'. bindE (f if_f_body e) (\<lambda>e'.
     Inr (IfE c' t' e' u))))"
| "transform_children f (Assert c b t) =
     bindE (f assert_cond c) (\<lambda>c'. bindE (f assert_body b) (\<lambda>b'. Inr (Assert c' b' t)))"

lemma transform_children_cong [fundef_cong]:
  assumes "e = e'" "\<And>pe c. pe_get pe e' = Inr c \<Longrightarrow> f pe c = g pe c"
  shows "transform_children f e = transform_children g e'"
proof (cases e)
  case (Call h as t)
  have "mapE (\<lambda>(i, a). f (CallArg i) a) (enumerate 0 as) = mapE (\<lambda>(i, a). g (CallArg i) a) (enumerate 0 as)"
    by (rule mapE_cong) (use assms Call in \<open>auto simp: in_set_enumerate_eq\<close>)
  with Call assms(1) show ?thesis by simp
next
  case (LetE vs r b t)
  with assms(1) assms(2) [of let_rhs r] assms(2) [of let_body b] show ?thesis by auto
next
  case (IfE c t f' u)
  with assms(1) assms(2) [of if_cond c] assms(2) [of if_t_body t] assms(2) [of if_f_body f']
  show ?thesis by auto
next
  case (Assert c b t)
  with assms(1) assms(2) [of assert_cond c] assms(2) [of assert_body b] show ?thesis by auto
next
  case (Lam x s b t)
  with assms(1) assms(2) [of lam_body b] show ?thesis by auto
qed (use assms in auto)

text \<open>The identity transformer: rebuilding a constructible expression gives it back.\<close>

lemma mapE_enumerate_id: "mapE (\<lambda>(i, a). Inr a) (enumerate n as) = Inr as"
  by (induction as arbitrary: n) auto

lemma transform_children_id: "constructible e \<Longrightarrow> transform_children (\<lambda>pe c. Inr c) e = Inr e"
  by (cases e) (auto simp: mapE_enumerate_id mk_let_def mk_call_def)

end
