(* ===== verification/FilterTerm.thy ===== *)
theory FilterTerm
  imports KsExpr
begin

text \<open>
  \<open>src/python/ksc/filter_term.py\<close>: the term that decides quickly whether two expressions can
  match: the class, the value of a constant, the name of a call. Terms are compared by Python's
  \<open>==\<close>; a class, a constant and a name are never equal to one another.
\<close>

datatype filter_term = FClass string | FConst const | FName sname

fun get_filter_term :: "expr \<Rightarrow> filter_term" where
  "get_filter_term (Const c) = FConst c"
| "get_filter_term (Call f _ _) = FName f"
| "get_filter_term (Var _) = FClass ''Var''"
| "get_filter_term (Lam _ _ _ _) = FClass ''Lam''"
| "get_filter_term (LetE _ _ _ _) = FClass ''Let''"
| "get_filter_term (IfE _ _ _ _) = FClass ''If''"
| "get_filter_term (Assert _ _ _) = FClass ''Assert''"

fun filter_term_eq :: "filter_term \<Rightarrow> filter_term \<Rightarrow> bool result" where
  "filter_term_eq (FClass a) (FClass b) = Inr (a = b)"
| "filter_term_eq (FConst a) (FConst b) = Inr (const_eq a b)"
| "filter_term_eq (FName a) (FName b) = sname_eq a b"
| "filter_term_eq _ _ = Inr False"

lemma filter_term_eq_False:
  "filter_term_eq (get_filter_term a) (get_filter_term b) = Inr True \<Longrightarrow>
   (case a of
      Const c \<Rightarrow> \<exists>d. b = Const d \<and> const_eq c d
    | Var _ \<Rightarrow> \<exists>v. b = Var v
    | Call f _ _ \<Rightarrow> \<exists>as t. b = Call f as t
    | Lam _ _ _ _ \<Rightarrow> \<exists>x s c t. b = Lam x s c t
    | LetE _ _ _ _ \<Rightarrow> \<exists>vs r c t. b = LetE vs r c t
    | IfE _ _ _ _ \<Rightarrow> \<exists>c d f t. b = IfE c d f t
    | Assert _ _ _ \<Rightarrow> \<exists>c d t. b = Assert c d t)"
  by (cases a; cases b) (auto dest: sname_eq_sound)

end
