(* ===== verification/CavSubst.thy ===== *)
theory CavSubst
  imports Visitors KsSemantics
begin

text \<open>
  Capture-avoiding substitution, \<open>src/python/ksc/cav_subst.py\<close>. A request names a location, an
  expression to deliver there and, optionally, a function that builds the replacement from the
  delivered expression and the (renamed) expression found there. A substitution is a Python
  \<open>dict\<close> from names to expressions. \<open>cav_visit\<close> is \<open>CAvSubst.visit\<close> together with the three
  methods it dispatches to; its first two arguments are the path and the expression of the
  \<open>ExprWithPath\<close>. Where the code hands back the \<open>ExprWithPath\<close> of a variable without a
  substitution, which stands for its expression, the model returns the expression.
\<close>

record request =
  req_target :: path
  req_payload :: expr
  req_applicator :: "(expr \<Rightarrow> expr \<Rightarrow> expr result) option"

type_synonym subst = "(string, expr) dict"

section \<open>Fresh names\<close>

definition candidate :: "string \<Rightarrow> nat \<Rightarrow> string" where
  "candidate prefix idx = prefix @ ''_'' @ nat_str idx"

lemma candidate_inj: "candidate prefix i = candidate prefix j \<longleftrightarrow> i = j"
  by (simp add: candidate_def nat_str_inj)

lemma finite_candidates:
  "finite X \<Longrightarrow> finite {j. i \<le> j \<and> candidate prefix j \<in> X}"
  by (rule finite_subset [of _ "candidate prefix -` X"])
    (auto intro!: finite_vimageI simp: inj_on_def candidate_inj)

text \<open>The loop over \<open>itertools.count()\<close>, from an index on.\<close>

function first_nonfree :: "string \<Rightarrow> expr list \<Rightarrow> nat \<Rightarrow> nat" where
  "first_nonfree prefix es idx =
     (if list_all (\<lambda>e. candidate prefix idx \<notin> free_vars e) es then idx
      else first_nonfree prefix es (Suc idx))"
  by pat_completeness auto

termination
proof (relation "measure (\<lambda>(prefix, es, i). card {j. i \<le> j \<and> candidate prefix j \<in> \<Union> (set (map free_vars es))})",
    goal_cases)
  case (2 prefix es idx)
  let ?X = "\<Union> (set (map free_vars es))"
  have "candidate prefix idx \<in> ?X" using "2" by (auto simp: list_all_iff)
  then have "idx \<in> {j. idx \<le> j \<and> candidate prefix j \<in> ?X}"
    and "idx \<notin> {j. Suc idx \<le> j \<and> candidate prefix j \<in> ?X}"
    and "{j. Suc idx \<le> j \<and> candidate prefix j \<in> ?X} \<subseteq> {j. idx \<le> j \<and> candidate prefix j \<in> ?X}"
    by auto
  then have "{j. Suc idx \<le> j \<and> candidate prefix j \<in> ?X} \<subset> {j. idx \<le> j \<and> candidate prefix j \<in> ?X}"
    by blast
  then have "card {j. Suc idx \<le> j \<and> candidate prefix j \<in> ?X} < card {j. idx \<le> j \<and> candidate prefix j \<in> ?X}"
    by (intro psubset_card_mono finite_candidates) auto
  then show ?case by simp
qed simp

declare first_nonfree.simps [simp del]

definition make_nonfree_var :: "string \<Rightarrow> expr list \<Rightarrow> ty option \<Rightarrow> var" where
  "make_nonfree_var prefix es t = MkVar (candidate prefix (first_nonfree prefix es 0)) t"

lemma first_nonfree_fresh: "e \<in> set es \<Longrightarrow> candidate prefix (first_nonfree prefix es i) \<notin> free_vars e"
  by (induction prefix es i rule: first_nonfree.induct)
    (subst first_nonfree.simps, auto simp: list_all_iff)

lemma first_nonfree_least:
  "i \<le> j \<Longrightarrow> j < first_nonfree prefix es i \<Longrightarrow> \<exists>e \<in> set es. candidate prefix j \<in> free_vars e"
proof (induction prefix es i rule: first_nonfree.induct)
  case (1 prefix es i)
  show ?case
  proof (cases "list_all (\<lambda>e. candidate prefix i \<notin> free_vars e) es")
    case True
    with "1.prems" show ?thesis by (simp add: first_nonfree.simps [of prefix es i])
  next
    case False
    then have "first_nonfree prefix es i = first_nonfree prefix es (Suc i)"
      by (subst first_nonfree.simps) simp
    with "1.IH" [OF False] "1.prems" False show ?thesis
      by (cases "i = j") (auto simp: list_all_iff)
  qed
qed

lemma make_nonfree_var_fresh: "e \<in> set es \<Longrightarrow> var_name (make_nonfree_var prefix es t) \<notin> free_vars e"
  by (simp add: make_nonfree_var_def first_nonfree_fresh)

section \<open>The visitor\<close>

text \<open>\<open>_rename_if_needed\<close>\<close>

definition conflicting_binders :: "request list \<Rightarrow> subst \<Rightarrow> expr list" where
  "conflicting_binders reqs substs = map req_payload reqs @ map snd substs"

definition rename_if_needed :: "var \<Rightarrow> expr \<Rightarrow> request list \<Rightarrow> subst \<Rightarrow> var \<times> subst" where
  "rename_if_needed arg binder reqs substs =
     (let cs = conflicting_binders reqs substs in
      if list_ex (\<lambda>r. var_name arg \<in> free_vars r) cs then
        (let nv = make_nonfree_var (var_name arg) (binder # cs) (var_type arg)
         in (nv, AList.update (var_name arg) (Var nv) substs))
      else (arg, dict_filter (\<lambda>k v. k \<noteq> var_name arg) substs))"

text \<open>The loop of \<open>visit_let\<close> over the bound variables.\<close>

fun rename_binders :: "var list \<Rightarrow> expr \<Rightarrow> request list \<Rightarrow> subst \<Rightarrow> var list \<times> subst" where
  "rename_binders [] e reqs substs = ([], substs)"
| "rename_binders (v # vs) e reqs substs =
     (let (v', substs') = rename_if_needed v e reqs substs;
          (vs', substs'') = rename_binders vs e reqs substs'
      in (v' # vs', substs''))"

text \<open>One new variable goes with a \<open>let\<close> of one variable, several with a list.\<close>

fun rebuild_binders :: "binders \<Rightarrow> var list \<Rightarrow> binders result" where
  "rebuild_binders vs [v] = (case vs of One _ \<Rightarrow> Inr (One v) | Many _ \<Rightarrow> Inl AssertionError)"
| "rebuild_binders vs ws = (case vs of Many _ \<Rightarrow> Inr (Many ws) | One _ \<Rightarrow> Inl AssertionError)"

function cav_visit :: "path \<Rightarrow> expr \<Rightarrow> request list \<Rightarrow> subst \<Rightarrow> expr result" where
  "cav_visit p e reqs0 substs0 =
     (let substs = dict_filter (\<lambda>x r. x \<in> free_vars e) substs0;
          reqs = filter (\<lambda>r. take (length p) (req_target r) = p) reqs0
      in if reqs = [] \<and> substs = [] then Inr e
         else if reqs \<noteq> [] \<and> list_ex (\<lambda>r. req_target r = p) reqs then
           (if length reqs \<noteq> 1 then Inl ValueError
            else (case req_applicator (hd reqs) of
                None \<Rightarrow> Inr (req_payload (hd reqs))
              | Some f \<Rightarrow> bindE (cav_visit p e [] substs) (\<lambda>e'. f (req_payload (hd reqs)) e')))
         else (case e of
             Var v \<Rightarrow> Inr (case map_of substs (var_name v) of Some r \<Rightarrow> r | None \<Rightarrow> Var v)
           | Lam x s b t \<Rightarrow>
               (let (arg, substs') = rename_if_needed (MkVar x (Some s)) e reqs substs
                in bindE (cav_visit (p @ [lam_body]) b reqs substs') (\<lambda>b'. mk_lam arg b' t))
           | LetE vs r b t \<Rightarrow>
               (let (new_vars, body_substs) = rename_binders (binder_vars vs) e reqs substs
                in bindE (rebuild_binders vs new_vars) (\<lambda>vs'.
                   bindE (cav_visit (p @ [let_rhs]) r reqs substs) (\<lambda>r'.
                   bindE (cav_visit (p @ [let_body]) b reqs body_substs) (\<lambda>b'.
                   mk_let vs' r' b' t))))
           | _ \<Rightarrow> transform_children (\<lambda>pe c. cav_visit (p @ [pe]) c reqs substs) e))"
  by pat_completeness auto

termination
  by (relation "measures [\<lambda>(p, e, reqs, substs). size e, \<lambda>(p, e, reqs, substs). length reqs]")
    (auto dest: pe_get_size intro: length_pos_if_in_set simp: filter_empty_conv)

declare cav_visit.simps [simp del]

definition replace_subtrees :: "expr \<Rightarrow> request list \<Rightarrow> expr result" where
  "replace_subtrees e reqs = cav_visit [] e reqs []"

definition replace_subtree ::
    "expr \<Rightarrow> path \<Rightarrow> expr \<Rightarrow> (expr \<Rightarrow> expr \<Rightarrow> expr result) option \<Rightarrow> expr result" where
  "replace_subtree e target payload applicator =
     replace_subtrees e
       [\<lparr>req_target = target, req_payload = payload, req_applicator = applicator\<rparr>]"

definition replace_free_vars :: "expr \<Rightarrow> subst \<Rightarrow> expr result" where
  "replace_free_vars e substs = cav_visit [] e [] substs"

text \<open>The last branch of the visitor, by the class of the expression.\<close>

definition cav_descend :: "path \<Rightarrow> expr \<Rightarrow> request list \<Rightarrow> subst \<Rightarrow> expr result" where
  "cav_descend p e reqs substs =
     (case e of
        Var v \<Rightarrow> Inr (case map_of substs (var_name v) of Some r \<Rightarrow> r | None \<Rightarrow> Var v)
      | Lam x s b t \<Rightarrow>
          (let (arg, substs') = rename_if_needed (MkVar x (Some s)) e reqs substs
           in bindE (cav_visit (p @ [lam_body]) b reqs substs') (\<lambda>b'. mk_lam arg b' t))
      | LetE vs r b t \<Rightarrow>
          (let (new_vars, body_substs) = rename_binders (binder_vars vs) e reqs substs
           in bindE (rebuild_binders vs new_vars) (\<lambda>vs'.
              bindE (cav_visit (p @ [let_rhs]) r reqs substs) (\<lambda>r'.
              bindE (cav_visit (p @ [let_body]) b reqs body_substs) (\<lambda>b'.
              mk_let vs' r' b' t))))
      | _ \<Rightarrow> transform_children (\<lambda>pe c. cav_visit (p @ [pe]) c reqs substs) e)"

abbreviation subst_here :: "expr \<Rightarrow> subst \<Rightarrow> subst" where
  "subst_here e \<equiv> dict_filter (\<lambda>x r. x \<in> free_vars e)"

abbreviation reqs_here :: "path \<Rightarrow> request list \<Rightarrow> request list" where
  "reqs_here p \<equiv> filter (\<lambda>r. take (length p) (req_target r) = p)"

lemma cav_visit_nothing: "reqs_here p reqs = [] \<Longrightarrow> subst_here e \<sigma> = [] \<Longrightarrow> cav_visit p e reqs \<sigma> = Inr e"
  by (subst cav_visit.simps) simp

lemma cav_visit_here:
  "list_ex (\<lambda>r. req_target r = p) (reqs_here p reqs) \<Longrightarrow>
   cav_visit p e reqs \<sigma> =
     (case reqs_here p reqs of
        [r] \<Rightarrow> (case req_applicator r of
            None \<Rightarrow> Inr (req_payload r)
          | Some f \<Rightarrow> bindE (cav_visit p e [] (subst_here e \<sigma>)) (\<lambda>e'. f (req_payload r) e'))
      | _ \<Rightarrow> Inl ValueError)"
  by (subst cav_visit.simps) (auto simp: Let_def split: list.splits option.splits)

lemma cav_visit_descend:
  "\<not> (reqs_here p reqs = [] \<and> subst_here e \<sigma> = []) \<Longrightarrow>
   \<not> list_ex (\<lambda>r. req_target r = p) (reqs_here p reqs) \<Longrightarrow>
   cav_visit p e reqs \<sigma> = cav_descend p e (reqs_here p reqs) (subst_here e \<sigma>)"
  by (subst cav_visit.simps, unfold cav_descend_def Let_def, subst if_not_P, assumption,
      subst if_not_P, blast, rule refl)

lemma reqs_here_target: "list_ex (\<lambda>r. req_target r = p) (reqs_here p reqs) \<longleftrightarrow> (\<exists>r \<in> set reqs. req_target r = p)"
  by (auto simp: list_ex_iff)

text \<open>
  The induction behind every property of the visitor. It is enough to follow the last branch when
  the property holds of the children, and to deal with a request at the node itself.
\<close>

lemma cav_visit_cases :
  assumes "cav_visit p e reqs \<sigma> = Inr e'"
  obtains (untouched) "reqs_here p reqs = []" "subst_here e \<sigma> = []" "e' = e"
  | (payload) r where "reqs_here p reqs = [r]" "req_target r = p" "req_applicator r = None"
      "e' = req_payload r"
  | (apply_here) r f x where "reqs_here p reqs = [r]" "req_target r = p" "req_applicator r = Some f"
      "cav_visit p e [] (subst_here e \<sigma>) = Inr x" "f (req_payload r) x = Inr e'"
  | (descend) "\<not> (\<exists>r \<in> set reqs. req_target r = p)"
      "cav_descend p e (reqs_here p reqs) (subst_here e \<sigma>) = Inr e'"
proof (cases "\<exists>r \<in> set reqs. req_target r = p")
  case True
  then have ex: "list_ex (\<lambda>r. req_target r = p) (reqs_here p reqs)"
    by (simp add: reqs_here_target)
  with assms cav_visit_here obtain r where r: "reqs_here p reqs = [r]"
    by (cases "reqs_here p reqs") (auto split: list.splits)
  with ex have "req_target r = p" by simp
  with r assms ex cav_visit_here [OF ex, of e \<sigma>] payload apply_here show ?thesis
    by (cases "req_applicator r") auto
next
  case False
  show ?thesis
  proof (cases "reqs_here p reqs = [] \<and> subst_here e \<sigma> = []")
    case True
    with assms cav_visit_nothing [of p reqs e \<sigma>] have "e' = e" by simp
    with True untouched show ?thesis by blast
  next
    case False': False
    with False assms cav_visit_descend descend reqs_here_target show ?thesis by metis
  qed
qed

section \<open>Meaning\<close>

text \<open>The environment in which a substitution is performed semantically.\<close>

definition sub_env :: "'v algebra \<Rightarrow> 'v env \<Rightarrow> subst \<Rightarrow> 'v env" where
  "sub_env A \<rho> \<sigma> = (\<lambda>x. case map_of \<sigma> x of Some r \<Rightarrow> eval A \<rho> r | None \<Rightarrow> \<rho> x)"

lemma sub_env_Nil [simp]: "sub_env A \<rho> [] = \<rho>"
  by (simp add: sub_env_def)

lemma sub_env_filter: "agree_on X (sub_env A \<rho> (dict_filter (\<lambda>x r. x \<in> X) \<sigma>)) (sub_env A \<rho> \<sigma>)"
  by (auto simp: agree_on_def sub_env_def map_of_dict_filter_key)

text \<open>
  What a request does to the value found at its target: \<open>g u v\<close> for the payload's value \<open>u\<close> and the
  value \<open>v\<close> found there.
\<close>

definition realizes :: "'v algebra \<Rightarrow> request \<Rightarrow> ('v \<Rightarrow> 'v \<Rightarrow> 'v) \<Rightarrow> bool" where
  "realizes A r g \<longleftrightarrow>
     (case req_applicator r of
        None \<Rightarrow> \<forall>u v. g u v = u
      | Some f \<Rightarrow> \<forall>\<rho> x y. f (req_payload r) x = Inr y \<longrightarrow>
          eval A \<rho> y = g (eval A \<rho> (req_payload r)) (eval A \<rho> x))"

definition holes_of ::
    "'v algebra \<Rightarrow> (request \<Rightarrow> 'v \<Rightarrow> 'v \<Rightarrow> 'v) \<Rightarrow> 'v env \<Rightarrow> request list \<Rightarrow> 'v holes" where
  "holes_of A G \<rho> reqs = (\<lambda>q.
     map_option (\<lambda>r. G r (eval A \<rho> (req_payload r))) (List.find (\<lambda>r. req_target r = q) reqs))"

lemma find_filter_prefix:
  "List.find (\<lambda>r. req_target r = p @ q) (filter (\<lambda>r. take (length p) (req_target r) = p) reqs) =
   List.find (\<lambda>r. req_target r = p @ q) reqs"
  by (induction reqs) auto

lemma holes_of_filter:
  "holes_of A G \<rho> (filter (\<lambda>r. take (length p) (req_target r) = p) reqs) (p @ q) =
   holes_of A G \<rho> reqs (p @ q)"
  by (simp add: holes_of_def find_filter_prefix)

lemma holes_of_Nil: "no_holes (holes_of A G \<rho> []) p"
  by (simp add: no_holes_def holes_of_def)

lemma holes_of_upd:
  "\<forall>r \<in> set reqs. x \<notin> free_vars (req_payload r) \<Longrightarrow>
   holes_of A G (\<rho>(x := v)) reqs = holes_of A G \<rho> reqs"
proof -
  assume *: "\<forall>r \<in> set reqs. x \<notin> free_vars (req_payload r)"
  have "eval A (\<rho>(x := v)) (req_payload r) = eval A \<rho> (req_payload r)"
    if "List.find (\<lambda>r. req_target r = q) reqs = Some r" for r q
    using * that by (auto simp: find_Some_iff intro: eval_upd_notin)
  then show ?thesis
    unfolding holes_of_def by (intro ext option.map_cong0) (auto simp: elem_set)
qed

text \<open>What renaming a binder achieves.\<close>

lemma conflicting_payload: "r \<in> set reqs \<Longrightarrow> req_payload r \<in> set (conflicting_binders reqs \<sigma>)"
  by (simp add: conflicting_binders_def)

lemma conflicting_subst: "map_of \<sigma> y = Some r \<Longrightarrow> r \<in> set (conflicting_binders reqs \<sigma>)"
  by (force simp: conflicting_binders_def dest: map_of_SomeD)

lemma rename_if_needed_spec:
  assumes "rename_if_needed (MkVar x s) binder reqs \<sigma> = (nv, \<sigma>')"
  obtains x' where "nv = MkVar x' s" "\<forall>r \<in> set reqs. x' \<notin> free_vars (req_payload r)"
    "\<And>A \<rho> v X. X - {x} \<subseteq> free_vars binder \<Longrightarrow>
       agree_on X (sub_env A (\<rho>(x' := v)) \<sigma>') ((sub_env A \<rho> \<sigma>)(x := v))"
proof (cases "list_ex (\<lambda>r. x \<in> free_vars r) (conflicting_binders reqs \<sigma>)")
  case True
  let ?cs = "conflicting_binders reqs \<sigma>"
  let ?nv = "make_nonfree_var x (binder # ?cs) s"
  have nv: "nv = ?nv" "\<sigma>' = AList.update x (Var ?nv) \<sigma>"
    using assms True by (auto simp: rename_if_needed_def Let_def)
  have fresh: "\<forall>e \<in> set (binder # ?cs). var_name ?nv \<notin> free_vars e"
    using make_nonfree_var_fresh by blast
  have "?nv = MkVar (var_name ?nv) s" by (simp add: make_nonfree_var_def)
  moreover have "\<forall>r \<in> set reqs. var_name ?nv \<notin> free_vars (req_payload r)"
    using fresh conflicting_payload by simp
  moreover have "agree_on X (sub_env A (\<rho>(var_name ?nv := v)) \<sigma>') ((sub_env A \<rho> \<sigma>)(x := v))"
    if X: "X - {x} \<subseteq> free_vars binder" for A \<rho> v X
    unfolding agree_on_def
  proof
    fix y
    assume y: "y \<in> X"
    show "sub_env A (\<rho>(var_name ?nv := v)) \<sigma>' y = ((sub_env A \<rho> \<sigma>)(x := v)) y"
    proof (cases "y = x")
      case False
      have "var_name ?nv \<notin> free_vars r" if "map_of \<sigma> y = Some r" for r
        using fresh conflicting_subst [OF that] by simp
      moreover have "y \<noteq> var_name ?nv" using fresh X y False by auto
      ultimately show ?thesis
        using False by (auto simp: nv sub_env_def update_conv' eval_upd_notin split: option.splits)
    qed (simp add: nv sub_env_def update_conv')
  qed
  ultimately show thesis using that nv by metis
next
  case False
  then have nv: "nv = MkVar x s" "\<sigma>' = dict_filter (\<lambda>k v. k \<noteq> x) \<sigma>"
    using assms by (auto simp: rename_if_needed_def Let_def)
  have fresh: "\<forall>e \<in> set (conflicting_binders reqs \<sigma>). x \<notin> free_vars e"
    using False by (auto simp: list_ex_iff)
  then have "\<forall>r \<in> set reqs. x \<notin> free_vars (req_payload r)"
    by (auto simp: conflicting_binders_def)
  moreover have "sub_env A (\<rho>(x := v)) \<sigma>' y = ((sub_env A \<rho> \<sigma>)(x := v)) y" for A \<rho> v y
  proof -
    have "x \<notin> free_vars r" if "map_of \<sigma> y = Some r" for r
      using fresh conflicting_subst [OF that] by blast
    then show ?thesis
      by (auto simp: nv sub_env_def map_of_dict_filter_key eval_upd_notin split: option.splits)
  qed
  ultimately show thesis using that nv by (metis agree_on_def)
qed

lemma is_untupled_child: "is_untupled e \<Longrightarrow> pe_get pe e = Inr c \<Longrightarrow> is_untupled c"
  by (cases "(pe, e)" rule: pe_get.cases) (auto split: if_splits)

lemma holes_of_None: "\<not> (\<exists>r \<in> set reqs. req_target r = p) \<Longrightarrow> holes_of A G \<rho> reqs p = None"
  by (auto simp: holes_of_def find_None_iff)

lemma mapE_enumerate_Inr:
  "mapE (\<lambda>(i, a). f i a) (enumerate 0 as) = Inr bs \<longleftrightarrow>
   length bs = length as \<and> (\<forall>i < length as. f i (as ! i) = Inr (bs ! i))"
  by (auto simp: mapE_Inr_iff list_all2_conv_all_nth nth_enumerate_eq)

lemma cav_descend_sem:
  assumes IH: "\<And>pe c reqs \<sigma> \<rho> c'. pe_get pe e = Inr c \<Longrightarrow> \<forall>r \<in> set reqs. realizes A r (G r) \<Longrightarrow>
      cav_visit (p @ [pe]) c reqs \<sigma> = Inr c' \<Longrightarrow>
      eval A \<rho> c' = eval_holes A (holes_of A G \<rho> reqs) (sub_env A \<rho> \<sigma>) (p @ [pe]) c"
    and un: "is_untupled e" and real: "\<forall>r \<in> set reqs. realizes A r (G r)"
    and target: "\<not> (\<exists>r \<in> set reqs. req_target r = p)"
    and e': "cav_descend p e reqs \<sigma> = Inr e'"
  shows "eval A \<rho> e' = eval_holes A (holes_of A G \<rho> reqs) (sub_env A \<rho> \<sigma>) p e"
proof -
  note step = eval_holes_None [where H = "holes_of A G \<rho> reqs" and p = p, OF holes_of_None [OF target]]
  note IH = IH [OF _ real]
  have under: "eval A (\<rho>(x' := v)) c' =
      eval_holes A (holes_of A G \<rho> reqs) ((sub_env A \<rho> \<sigma>)(x := v)) (p @ [pe]) c"
    if c: "pe_get pe e = Inr c" and c': "cav_visit (p @ [pe]) c reqs \<sigma>' = Inr c'"
      and fresh: "\<forall>r \<in> set reqs. x' \<notin> free_vars (req_payload r)"
      and agree: "agree_on (free_vars c) (sub_env A (\<rho>(x' := v)) \<sigma>') ((sub_env A \<rho> \<sigma>)(x := v))"
    for pe c c' x x' v \<sigma>'
    using IH [OF c c', of "\<rho>(x' := v)"] eval_holes_cong [OF agree] holes_of_upd [OF fresh]
    by metis
  show ?thesis
  proof (cases e)
    case (Const k)
    with e' have "e' = Const k" by (simp add: cav_descend_def)
    then show ?thesis by (simp add: Const step)
  next
    case (Var y)
    with e' show ?thesis by (auto simp: cav_descend_def step sub_env_def split: option.splits)
  next
    case (Call f as t)
    with e' obtain bs where bs: "mapE (\<lambda>(i, a). cav_visit (p @ [CallArg i]) a reqs \<sigma>) (enumerate 0 as) = Inr bs"
      and e'': "e' = Call f bs t" by (auto simp: cav_descend_def mk_call_def)
    have "map (eval A \<rho>) bs = map (\<lambda>(i, a). eval_holes A (holes_of A G \<rho> reqs) (sub_env A \<rho> \<sigma>) (p @ [CallArg i]) a) (enumerate 0 as)"
      using bs IH [of "CallArg _"] Call
      by (intro nth_equalityI) (auto simp: mapE_enumerate_Inr nth_enumerate_eq)
    then show ?thesis by (simp add: Call step e'')
  next
    case (Lam x s b t)
    obtain nv \<sigma>' where nv: "rename_if_needed (MkVar x (Some s)) e reqs \<sigma> = (nv, \<sigma>')" by force
    obtain x' where x': "nv = MkVar x' (Some s)" "\<forall>r \<in> set reqs. x' \<notin> free_vars (req_payload r)"
      "\<And>\<rho> v X. X - {x} \<subseteq> free_vars e \<Longrightarrow>
        agree_on X (sub_env A (\<rho>(x' := v)) \<sigma>') ((sub_env A \<rho> \<sigma>)(x := v))"
      using rename_if_needed_spec [OF nv] by metis
    from e' Lam nv x'(1) obtain b' where b': "cav_visit (p @ [lam_body]) b reqs \<sigma>' = Inr b'"
      "e' = Lam x' s b' t" by (auto simp: cav_descend_def)
    have "eval A (\<rho>(x' := v)) b' =
        eval_holes A (holes_of A G \<rho> reqs) ((sub_env A \<rho> \<sigma>)(x := v)) (p @ [lam_body]) b" for v
      by (rule under [OF _ b'(1) x'(2) x'(3)]) (simp_all add: Lam)
    then show ?thesis by (simp add: Lam step b'(2))
  next
    case (LetE vs r b t)
    with un obtain y where y: "vs = One y" by (cases vs) auto
    obtain x s where ys: "y = MkVar x s" by (cases y)
    obtain nv \<sigma>' where nv: "rename_if_needed (MkVar x s) e reqs \<sigma> = (nv, \<sigma>')" by force
    obtain x' where x': "nv = MkVar x' s" "\<forall>r \<in> set reqs. x' \<notin> free_vars (req_payload r)"
      "\<And>\<rho> v X. X - {x} \<subseteq> free_vars e \<Longrightarrow>
        agree_on X (sub_env A (\<rho>(x' := v)) \<sigma>') ((sub_env A \<rho> \<sigma>)(x := v))"
      using rename_if_needed_spec [OF nv] by metis
    from e' LetE nv x'(1) y ys obtain r' b' where r': "cav_visit (p @ [let_rhs]) r reqs \<sigma> = Inr r'"
      and b': "cav_visit (p @ [let_body]) b reqs \<sigma>' = Inr b'"
      and e'': "e' = LetE (One (MkVar x' s)) r' b' t" by (auto simp: cav_descend_def mk_let_def)
    have "eval A (\<rho>(x' := v)) b' =
        eval_holes A (holes_of A G \<rho> reqs) ((sub_env A \<rho> \<sigma>)(x := v)) (p @ [let_body]) b" for v
      by (rule under [OF _ b' x'(2) x'(3)]) (auto simp: LetE y ys)
    moreover have "eval A \<rho> r' = eval_holes A (holes_of A G \<rho> reqs) (sub_env A \<rho> \<sigma>) (p @ [let_rhs]) r"
      by (rule IH [OF _ r']) (simp add: LetE)
    ultimately show ?thesis by (simp add: LetE y ys step e'')
  next
    case (IfE c tb fb t)
    with e' IH [of if_cond c] IH [of if_t_body tb] IH [of if_f_body fb] show ?thesis
      by (auto simp: cav_descend_def step)
  next
    case (Assert c b t)
    with e' IH [of assert_cond c] IH [of assert_body b] show ?thesis
      by (auto simp: cav_descend_def step)
  qed
qed

text \<open>Below a path, only the requests with that prefix and the free variables count.\<close>

lemma eval_holes_here:
  "eval_holes A (holes_of A G \<rho> reqs) (sub_env A \<rho> \<sigma>) p e =
   eval_holes A (holes_of A G \<rho> (reqs_here p reqs)) (sub_env A \<rho> (subst_here e \<sigma>)) p e"
  by (rule eval_holes_cong) (auto simp: holes_of_filter agree_on_def sub_env_def map_of_dict_filter_key)

lemma holes_of_single: "req_target r = p \<Longrightarrow> holes_of A G \<rho> [r] p = Some (G r (eval A \<rho> (req_payload r)))"
  by (simp add: holes_of_def)

lemma eval_subst_here: "eval A (sub_env A \<rho> (subst_here e \<sigma>)) e = eval A (sub_env A \<rho> \<sigma>) e"
  by (rule eval_cong) (rule sub_env_filter)

lemma realizes_None: "realizes A r g \<Longrightarrow> req_applicator r = None \<Longrightarrow> g u v = u"
  by (simp add: realizes_def)

lemma realizes_Some:
  "realizes A r g \<Longrightarrow> req_applicator r = Some f \<Longrightarrow> f (req_payload r) x = Inr y \<Longrightarrow>
   eval A \<rho> y = g (eval A \<rho> (req_payload r)) (eval A \<rho> x)"
  by (simp add: realizes_def)

lemma cav_visit_sem:
  "is_untupled e \<Longrightarrow> \<forall>r \<in> set reqs. realizes A r (G r) \<Longrightarrow> cav_visit p e reqs \<sigma> = Inr e' \<Longrightarrow>
   eval A \<rho> e' = eval_holes A (holes_of A G \<rho> reqs) (sub_env A \<rho> \<sigma>) p e"
proof (induction "size e" arbitrary: e p reqs \<sigma> e' \<rho> rule: less_induct)
  case less
  have IH: "eval A \<rho> c' = eval_holes A (holes_of A G \<rho> reqs) (sub_env A \<rho> \<sigma>) (p @ [pe]) c"
    if "pe_get pe e = Inr c" "\<forall>r \<in> set reqs. realizes A r (G r)"
      "cav_visit (p @ [pe]) c reqs \<sigma> = Inr c'" for pe c reqs \<sigma> \<rho> c' p
    using less.hyps [OF pe_get_size [OF that(1)] is_untupled_child [OF less.prems(1) that(1)] that(2,3)] .
  have desc: "eval A \<rho> x = eval_holes A (holes_of A G \<rho> reqs) (sub_env A \<rho> \<sigma>) p e"
    if "\<forall>r \<in> set reqs. realizes A r (G r)" "\<not> (\<exists>r \<in> set reqs. req_target r = p)"
      "cav_descend p e (reqs_here p reqs) (subst_here e \<sigma>) = Inr x" for reqs \<sigma> x \<rho>
    by (subst eval_holes_here, rule cav_descend_sem [OF IH less.prems(1) _ _ that(3)]) (use that in auto)
  have no_reqs: "eval A \<rho> x = eval A (sub_env A \<rho> \<sigma>) e" if x: "cav_visit p e [] \<sigma> = Inr x" for x \<sigma> \<rho>
  proof -
    have holes: "eval_holes A (holes_of A G \<rho> []) \<rho>' p e = eval A \<rho>' e" for \<rho>'
      by (rule eval_holes_no_holes [OF holes_of_Nil])
    from x show ?thesis
    proof (cases rule: cav_visit_cases)
      case untouched
      with holes eval_holes_here [of A G \<rho> "[]" \<sigma> p e] show ?thesis by simp
    next
      case descend
      with desc [of "[]"] holes show ?thesis by simp
    qed auto
  qed
  from less.prems(3) show ?case
  proof (cases rule: cav_visit_cases)
    case untouched
    then show ?thesis
      by (subst eval_holes_here) (simp add: eval_holes_no_holes holes_of_Nil)
  next
    case (payload r)
    then have "r \<in> set (reqs_here p reqs)" by simp
    then have "realizes A r (G r)" using less.prems(2) by simp
    with payload show ?thesis
      by (subst eval_holes_here) (simp add: eval_holes_hole [OF holes_of_single] realizes_None)
  next
    case (apply_here r f x)
    then have "r \<in> set (reqs_here p reqs)" by simp
    then have "realizes A r (G r)" using less.prems(2) by simp
    with apply_here no_reqs [OF apply_here(4)] show ?thesis
      by (subst eval_holes_here)
        (simp add: eval_holes_hole [OF holes_of_single] realizes_Some eval_subst_here)
  next
    case descend
    with desc less.prems(2) show ?thesis by blast
  qed
qed

section \<open>Free variables and success\<close>

definition sub_fv :: "subst \<Rightarrow> string set \<Rightarrow> string set" where
  "sub_fv \<sigma> X = (\<Union>x \<in> X. case map_of \<sigma> x of Some r \<Rightarrow> free_vars r | None \<Rightarrow> {x})"

lemma sub_fv_simps [simp]:
  "sub_fv \<sigma> {} = {}" "sub_fv [] X = X"
  "sub_fv \<sigma> (X \<union> Y) = sub_fv \<sigma> X \<union> sub_fv \<sigma> Y"
  "sub_fv \<sigma> (\<Union>a \<in> S. F a) = (\<Union>a \<in> S. sub_fv \<sigma> (F a))"
  by (auto simp: sub_fv_def)

lemma sub_fv_filter: "sub_fv (dict_filter (\<lambda>x r. x \<in> X) \<sigma>) X = sub_fv \<sigma> X"
  by (auto simp: sub_fv_def map_of_dict_filter_key)

lemma rename_if_needed_cases:
  assumes "rename_if_needed (MkVar x s) binder reqs \<sigma> = (nv, \<sigma>')"
  obtains x' where "nv = MkVar x' s" "\<forall>e \<in> set (conflicting_binders reqs \<sigma>). x' \<notin> free_vars e"
    "x' = x \<or> x' \<notin> free_vars binder"
    "\<And>y. map_of \<sigma>' y =
       (if y = x then (if x' = x then None else Some (Var nv)) else map_of \<sigma> y)"
proof (cases "list_ex (\<lambda>r. x \<in> free_vars r) (conflicting_binders reqs \<sigma>)")
  case True
  let ?cs = "conflicting_binders reqs \<sigma>"
  let ?nv = "make_nonfree_var x (binder # ?cs) s"
  have nv: "nv = ?nv" "\<sigma>' = AList.update x (Var ?nv) \<sigma>"
    using assms True by (auto simp: rename_if_needed_def Let_def)
  have fresh: "\<forall>e \<in> set (binder # ?cs). var_name ?nv \<notin> free_vars e"
    using make_nonfree_var_fresh by blast
  with True have "var_name ?nv \<noteq> x" by (auto simp: list_ex_iff)
  moreover have "?nv = MkVar (var_name ?nv) s" by (simp add: make_nonfree_var_def)
  ultimately show thesis using that [of "var_name ?nv"] fresh nv by (simp add: update_conv')
next
  case False
  then have "nv = MkVar x s" "\<sigma>' = dict_filter (\<lambda>k v. k \<noteq> x) \<sigma>"
    using assms by (auto simp: rename_if_needed_def Let_def)
  with that [of x] False show thesis by (simp add: list_ex_iff map_of_dict_filter_key)
qed

lemma rename_sub_fv:
  assumes "rename_if_needed (MkVar x s) binder reqs \<sigma> = (nv, \<sigma>')" "X - {x} \<subseteq> free_vars binder"
  shows "sub_fv \<sigma>' X - {var_name nv} = sub_fv \<sigma> (X - {x})"
proof -
  from assms(1) obtain x' where nv: "nv = MkVar x' s" "x' = x \<or> x' \<notin> free_vars binder"
    and fresh: "\<forall>e \<in> set (conflicting_binders reqs \<sigma>). x' \<notin> free_vars e"
    and \<sigma>': "\<And>y. map_of \<sigma>' y =
       (if y = x then (if x' = x then None else Some (Var nv)) else map_of \<sigma> y)"
    by (rule rename_if_needed_cases) metis
  have "sub_fv \<sigma>' X - {x'} = sub_fv \<sigma>' (X - {x}) - {x'}"
    using nv(1) by (auto simp: sub_fv_def \<sigma>' split: if_splits)
  also have "sub_fv \<sigma>' (X - {x}) = sub_fv \<sigma> (X - {x})"
    by (auto simp: sub_fv_def \<sigma>')
  also have "\<dots> - {x'} = \<dots>"
    using nv(2) assms(2) fresh conflicting_subst [of \<sigma> _ _ reqs]
    by (auto simp: sub_fv_def split: option.splits)
  finally show ?thesis by (simp add: nv(1))
qed

lemma subst_here_Nil: "subst_here e \<sigma> = [] \<Longrightarrow> sub_fv \<sigma> (free_vars e) = free_vars e"
  using sub_fv_filter [of "free_vars e" \<sigma>] by simp

text \<open>Substitution on an expression without tupled lets: it succeeds, introduces no tupled let,
  and the free variables of the result are those of the substituted expressions.\<close>

lemma cav_descend_total:
  assumes IH: "\<And>pe c \<sigma>. pe_get pe e = Inr c \<Longrightarrow>
      \<exists>c'. cav_visit (p @ [pe]) c [] \<sigma> = Inr c' \<and> free_vars c' = sub_fv \<sigma> (free_vars c)"
    and un: "is_untupled e"
  shows "\<exists>e'. cav_descend p e [] \<sigma> = Inr e' \<and> free_vars e' = sub_fv \<sigma> (free_vars e)"
proof (cases e)
  case (Const k)
  then show ?thesis by (simp add: cav_descend_def)
next
  case (Var y)
  then show ?thesis by (auto simp: cav_descend_def sub_fv_def split: option.splits)
next
  case (Call f as t)
  have "\<exists>bs. mapE (\<lambda>(i, a). cav_visit (p @ [CallArg i]) a [] \<sigma>) (enumerate 0 as) = Inr bs"
    unfolding mapE_ex_Inr
  proof
    fix ia
    assume "ia \<in> set (enumerate 0 as)"
    then obtain i where "ia = (i, as ! i)" "i < length as"
      unfolding in_enumerate_iff by blast
    with IH [of "CallArg i" "as ! i" \<sigma>] Call
    show "\<exists>y. (case ia of (i, a) \<Rightarrow> cav_visit (p @ [CallArg i]) a [] \<sigma>) = Inr y" by auto
  qed
  then obtain bs where bs: "mapE (\<lambda>(i, a). cav_visit (p @ [CallArg i]) a [] \<sigma>) (enumerate 0 as) = Inr bs" ..
  have nth: "free_vars (bs ! i) = sub_fv \<sigma> (free_vars (as ! i))" if "i < length as" for i
    using bs IH [of "CallArg i" "as ! i" \<sigma>] that Call by (auto simp: mapE_enumerate_Inr)
  have "map free_vars bs = map (\<lambda>a. sub_fv \<sigma> (free_vars a)) as"
    using bs nth by (intro nth_equalityI) (auto simp: mapE_enumerate_Inr)
  then have "(\<Union>b \<in> set bs. free_vars b) = (\<Union>a \<in> set as. sub_fv \<sigma> (free_vars a))"
    by (metis list.set_map)
  with bs show ?thesis by (simp add: Call cav_descend_def mk_call_def)
next
  case (Lam x s b t)
  obtain nv \<sigma>' where nv: "rename_if_needed (MkVar x (Some s)) e [] \<sigma> = (nv, \<sigma>')" by force
  obtain x' where x': "nv = MkVar x' (Some s)"
    using rename_if_needed_cases [OF nv] by metis
  obtain b' where b': "cav_visit (p @ [lam_body]) b [] \<sigma>' = Inr b'" "free_vars b' = sub_fv \<sigma>' (free_vars b)"
    using IH [of lam_body b \<sigma>'] Lam by auto
  have "free_vars b' - {x'} = sub_fv \<sigma> (free_vars b - {x})"
    using rename_sub_fv [OF nv, of "free_vars b"] by (simp add: b' Lam x')
  with b' show ?thesis by (simp add: Lam cav_descend_def nv [unfolded Lam] x')
next
  case (LetE vs r b t)
  with un obtain y where y: "vs = One y" by (cases vs) auto
  obtain x s where ys: "y = MkVar x s" by (cases y)
  obtain nv \<sigma>' where nv: "rename_if_needed (MkVar x s) e [] \<sigma> = (nv, \<sigma>')" by force
  obtain x' where x': "nv = MkVar x' s"
    using rename_if_needed_cases [OF nv] by metis
  obtain b' where b': "cav_visit (p @ [let_body]) b [] \<sigma>' = Inr b'" "free_vars b' = sub_fv \<sigma>' (free_vars b)"
    using IH [of let_body b \<sigma>'] LetE by auto
  obtain r' where r': "cav_visit (p @ [let_rhs]) r [] \<sigma> = Inr r'" "free_vars r' = sub_fv \<sigma> (free_vars r)"
    using IH [of let_rhs r \<sigma>] LetE by auto
  have "free_vars b' - {x'} = sub_fv \<sigma> (free_vars b - {x})"
    using rename_sub_fv [OF nv, of "free_vars b"] by (auto simp: b' LetE x' y ys)
  with b' r' show ?thesis
    by (simp add: LetE y ys cav_descend_def nv [unfolded LetE y ys] x' mk_let_def)
next
  case (IfE c tb fb t)
  with IH [of if_cond c \<sigma>] IH [of if_t_body tb \<sigma>] IH [of if_f_body fb \<sigma>] show ?thesis
    by (fastforce simp: cav_descend_def)
next
  case (Assert c b t)
  with IH [of assert_cond c \<sigma>] IH [of assert_body b \<sigma>] show ?thesis
    by (fastforce simp: cav_descend_def)
qed

lemma cav_visit_no_reqs:
  "cav_visit p e [] \<sigma> = (if subst_here e \<sigma> = [] then Inr e else cav_descend p e [] (subst_here e \<sigma>))"
  using cav_visit_nothing [of p "[]" e \<sigma>] cav_visit_descend [of p "[]" e \<sigma>] by simp

lemma cav_visit_total:
  "is_untupled e \<Longrightarrow> \<exists>e'. cav_visit p e [] \<sigma> = Inr e' \<and> free_vars e' = sub_fv \<sigma> (free_vars e)"
proof (induction "size e" arbitrary: e p \<sigma> rule: less_induct)
  case less
  have "\<exists>e'. cav_descend p e [] (subst_here e \<sigma>) = Inr e' \<and>
      free_vars e' = sub_fv (subst_here e \<sigma>) (free_vars e)"
    by (rule cav_descend_total [OF _ less.prems])
      (blast intro: less.hyps pe_get_size is_untupled_child [OF less.prems])
  then show ?case by (simp add: cav_visit_no_reqs sub_fv_filter subst_here_Nil)
qed

section \<open>Replacement with a closed payload\<close>

text \<open>
  A request whose payload has no free variables (the rewrite rules deliver the constant 0.0)
  renames nothing: it replaces the sub-expression at its target and leaves the rest alone.
\<close>

definition apply_request ::
    "(expr \<Rightarrow> expr \<Rightarrow> expr result) option \<Rightarrow> expr \<Rightarrow> expr \<Rightarrow> expr result" where
  "apply_request applicator payload old =
     (case applicator of None \<Rightarrow> Inr payload | Some f \<Rightarrow> f payload old)"

lemma rename_closed:
  "free_vars payload = {} \<Longrightarrow>
   rename_if_needed v binder [\<lparr>req_target = q, req_payload = payload, req_applicator = a\<rparr>] [] = (v, [])"
  by (simp add: rename_if_needed_def conflicting_binders_def dict_filter_def)

lemma reqs_here_single:
  "reqs_here p [r] = (if take (length p) (req_target r) = p then [r] else [])"
  by simp

lemma cav_visit_elsewhere:
  "take (length p) (req_target r) \<noteq> p \<Longrightarrow> cav_visit p e [r] [] = Inr e"
  by (rule cav_visit_nothing) (simp_all add: dict_filter_def)

lemma cav_visit_closed:
  assumes "free_vars payload = {}"
  shows "is_untupled e \<Longrightarrow> subexpr_at e q = Inr old \<Longrightarrow>
    cav_visit p e [\<lparr>req_target = p @ q, req_payload = payload, req_applicator = a\<rparr>] [] =
    bindE (apply_request a payload old) (\<lambda>n. Inr (put_at e q n))"
proof (induction q arbitrary: p e)
  case Nil
  have "cav_visit p e [] [] = Inr e" by (rule cav_visit_nothing) (simp_all add: dict_filter_def)
  with Nil show ?case
    by (subst cav_visit_here) (auto simp: apply_request_def dict_filter_def split: option.splits)
next
  case (Cons pe q)
  let ?r = "\<lparr>req_target = p @ pe # q, req_payload = payload, req_applicator = a\<rparr>"
  from Cons.prems(2) obtain c where c: "pe_get pe e = Inr c" "subexpr_at c q = Inr old" by auto
  have IH: "cav_visit (p @ [pe]) c [?r] [] = bindE (apply_request a payload old) (\<lambda>n. Inr (put_at c q n))"
    using Cons.IH [OF is_untupled_child [OF Cons.prems(1) c(1)] c(2), of "p @ [pe]"] by simp
  have other: "cav_visit (p @ [pe']) c' [?r] [] = Inr c'" if "pe' \<noteq> pe" for pe' c'
    by (rule cav_visit_elsewhere) (use that in simp)
  have "cav_visit p e [?r] [] = cav_descend p e [?r] []"
    by (subst cav_visit_descend) (simp_all add: dict_filter_def)
  also have "\<dots> = bindE (apply_request a payload old) (\<lambda>n. Inr (put_at e (pe # q) n))"
  proof (cases e)
    case (Call f as t)
    with c(1) obtain i where i: "pe = CallArg i" "i < length as" "c = as ! i"
      by (cases pe) (auto split: if_splits)
    let ?n = "apply_request a payload old"
    have "mapE (\<lambda>(j, x). cav_visit (p @ [CallArg j]) x [?r] []) (enumerate 0 as) =
      bindE ?n (\<lambda>n. Inr (as[i := put_at c q n]))"
    proof (cases ?n)
      case (Inl err)
      have fail: "mapE g (enumerate m xs) = Inl err"
        if "g (m + k, xs ! k) = Inl err" "k < length xs" "\<And>j x. j \<noteq> m + k \<Longrightarrow> g (j, x) = Inr x"
        for g :: "nat \<times> expr \<Rightarrow> expr result" and m k xs
        using that
      proof (induction xs arbitrary: m k)
        case (Cons x xs)
        show ?case
        proof (cases k)
          case 0
          with Cons.prems show ?thesis by simp
        next
          case (Suc k')
          have "mapE g (enumerate (Suc m) xs) = Inl err"
            by (rule Cons.IH [of "Suc m" k']) (use Cons.prems Suc in auto)
          with Cons.prems(3) [of m x] Suc show ?thesis by simp
        qed
      qed simp
      have "mapE (\<lambda>(j, x). cav_visit (p @ [CallArg j]) x [?r] []) (enumerate 0 as) = Inl err"
        by (rule fail [of _ 0 i]) (use i IH Inl other in auto)
      with Inl show ?thesis by simp
    next
      case (Inr n)
      then show ?thesis using IH i other by (auto simp: mapE_enumerate_Inr nth_list_update)
    qed
    with i show ?thesis by (cases ?n) (simp_all add: Call cav_descend_def mk_call_def)
  next
    case (Lam x s b t)
    with c(1) have "pe = lam_body" "c = b" by (cases pe; simp)+
    with IH show ?thesis
      by (cases "apply_request a payload old")
        (simp_all add: Lam cav_descend_def rename_closed assms)
  next
    case (LetE vs r b t)
    with Cons.prems(1) obtain y where y: "vs = One y" by (cases vs) auto
    from LetE c(1) have "pe = let_rhs \<and> c = r \<or> pe = let_body \<and> c = b" by (cases pe) auto
    with IH other show ?thesis
      by (cases "apply_request a payload old")
        (auto simp: LetE y cav_descend_def rename_closed assms mk_let_def)
  next
    case (IfE cd tb fb t)
    with c(1) have "pe = if_cond \<and> c = cd \<or> pe = if_t_body \<and> c = tb \<or> pe = if_f_body \<and> c = fb"
      by (cases pe) auto
    with IH other show ?thesis
      by (cases "apply_request a payload old") (auto simp: IfE cav_descend_def)
  next
    case (Assert cd b t)
    with c(1) have "pe = assert_cond \<and> c = cd \<or> pe = assert_body \<and> c = b" by (cases pe) auto
    with IH other show ?thesis
      by (cases "apply_request a payload old") (auto simp: Assert cav_descend_def)
  qed (use c in auto)
  finally show ?case .
qed

lemma replace_subtree_closed:
  "free_vars payload = {} \<Longrightarrow> is_untupled e \<Longrightarrow> subexpr_at e q = Inr old \<Longrightarrow>
   replace_subtree e q payload a = bindE (apply_request a payload old) (\<lambda>n. Inr (put_at e q n))"
  using cav_visit_closed [of payload e q old "[]" a] by (simp add: replace_subtree_def replace_subtrees_def)

section \<open>Success with requests\<close>

text \<open>
  No target lies at or below another's, and every applicator returns: then the visitor returns.
\<close>

definition separate_targets :: "request list \<Rightarrow> bool" where
  "separate_targets reqs \<longleftrightarrow> (\<forall>r \<in> set reqs. length (reqs_here (req_target r) reqs) = 1)"

definition applicable :: "request \<Rightarrow> bool" where
  "applicable r \<longleftrightarrow>
     (case req_applicator r of None \<Rightarrow> True | Some f \<Rightarrow> \<forall>x. \<exists>y. f (req_payload r) x = Inr y)"

lemma separate_filter: "separate_targets reqs \<Longrightarrow> separate_targets (filter P reqs)"
  unfolding separate_targets_def
proof
  fix r
  assume *: "\<forall>r \<in> set reqs. length (reqs_here (req_target r) reqs) = 1" and r: "r \<in> set (filter P reqs)"
  then have one: "length (reqs_here (req_target r) reqs) = 1" by simp
  have "reqs_here (req_target r) (filter P reqs) = filter P (reqs_here (req_target r) reqs)"
    by (simp add: conj_commute)
  also have "length \<dots> \<le> 1" using length_filter_le [of P] unfolding one [symmetric] .
  finally have "length (reqs_here (req_target r) (filter P reqs)) \<le> 1" .
  moreover have "r \<in> set (reqs_here (req_target r) (filter P reqs))" using r by simp
  then have "0 < length (reqs_here (req_target r) (filter P reqs))" by (rule length_pos_if_in_set)
  ultimately show "length (reqs_here (req_target r) (filter P reqs)) = 1"
    by (intro le_antisym) (simp_all only: One_nat_def Suc_le_eq)
qed

lemma cav_descend_returns:
  assumes IH: "\<And>pe c \<sigma>. pe_get pe e = Inr c \<Longrightarrow> \<exists>c'. cav_visit (p @ [pe]) c reqs \<sigma> = Inr c'"
    and un: "is_untupled e"
  shows "\<exists>e'. cav_descend p e reqs \<sigma> = Inr e'"
proof (cases e)
  case (Call f as t)
  have "\<exists>bs. mapE (\<lambda>(i, a). cav_visit (p @ [CallArg i]) a reqs \<sigma>) (enumerate 0 as) = Inr bs"
    unfolding mapE_ex_Inr
  proof
    fix ia
    assume "ia \<in> set (enumerate 0 as)"
    then obtain i where "ia = (i, as ! i)" "i < length as"
      unfolding in_enumerate_iff by blast
    with IH [of "CallArg i" "as ! i" \<sigma>] Call
    show "\<exists>y. (case ia of (i, a) \<Rightarrow> cav_visit (p @ [CallArg i]) a reqs \<sigma>) = Inr y" by auto
  qed
  then show ?thesis by (auto simp: Call cav_descend_def mk_call_def)
next
  case (Lam x s b t)
  obtain nv \<sigma>' where nv: "rename_if_needed (MkVar x (Some s)) e reqs \<sigma> = (nv, \<sigma>')" by force
  obtain x' where "nv = MkVar x' (Some s)"
    using rename_if_needed_cases [OF nv] by metis
  with IH [of lam_body b \<sigma>'] Lam nv show ?thesis by (auto simp: cav_descend_def)
next
  case (LetE vs r b t)
  with un obtain y where y: "vs = One y" by (cases vs) auto
  obtain nv \<sigma>' where nv: "rename_if_needed y e reqs \<sigma> = (nv, \<sigma>')" by force
  obtain r' b' where "cav_visit (p @ [let_rhs]) r reqs \<sigma> = Inr r'"
    "cav_visit (p @ [let_body]) b reqs \<sigma>' = Inr b'"
    using IH [of let_rhs r \<sigma>] IH [of let_body b \<sigma>'] LetE by auto
  with nv show ?thesis by (simp add: LetE y cav_descend_def mk_let_def)
next
  case (IfE c tb fb t)
  obtain c' tb' fb' where "cav_visit (p @ [if_cond]) c reqs \<sigma> = Inr c'"
    "cav_visit (p @ [if_t_body]) tb reqs \<sigma> = Inr tb'" "cav_visit (p @ [if_f_body]) fb reqs \<sigma> = Inr fb'"
    using IH [of if_cond c \<sigma>] IH [of if_t_body tb \<sigma>] IH [of if_f_body fb \<sigma>] IfE by auto
  then show ?thesis by (simp add: IfE cav_descend_def)
next
  case (Assert c b t)
  obtain c' b' where "cav_visit (p @ [assert_cond]) c reqs \<sigma> = Inr c'"
    "cav_visit (p @ [assert_body]) b reqs \<sigma> = Inr b'"
    using IH [of assert_cond c \<sigma>] IH [of assert_body b \<sigma>] Assert by auto
  then show ?thesis by (simp add: Assert cav_descend_def)
qed (simp_all add: cav_descend_def)

lemma cav_visit_returns:
  "is_untupled e \<Longrightarrow> separate_targets reqs \<Longrightarrow> \<forall>r \<in> set reqs. applicable r \<Longrightarrow>
   \<exists>e'. cav_visit p e reqs \<sigma> = Inr e'"
proof (induction "size e" arbitrary: e p reqs \<sigma> rule: less_induct)
  case less
  show ?case
  proof (cases "\<exists>r \<in> set reqs. req_target r = p")
    case True
    then obtain r where r: "r \<in> set reqs" "req_target r = p" by blast
    with less.prems(2) have "length (reqs_here p reqs) = 1" by (auto simp: separate_targets_def)
    moreover have "r \<in> set (reqs_here p reqs)" using r by simp
    ultimately have here: "reqs_here p reqs = [r]"
      by (cases "reqs_here p reqs") auto
    obtain x where "cav_visit p e [] (subst_here e \<sigma>) = Inr x"
      using cav_visit_total [OF less.prems(1)] by blast
    moreover have "applicable r" using r(1) less.prems(3) by blast
    ultimately show ?thesis
      using cav_visit_here [of p reqs e \<sigma>] here r(2)
      by (cases "req_applicator r") (auto simp: applicable_def)
  next
    case False
    have "\<exists>e'. cav_descend p e (reqs_here p reqs) (subst_here e \<sigma>) = Inr e'"
      by (rule cav_descend_returns [OF less.hyps less.prems(1)])
        (use pe_get_size is_untupled_child [OF less.prems(1)] separate_filter less.prems in auto)
    with False show ?thesis
      using cav_visit_nothing [of p reqs e \<sigma>] cav_visit_descend [of p reqs e \<sigma>] reqs_here_target
      by metis
  qed
qed

section \<open>Properties\<close>

text \<open>
  C19: The search for an unused name ends, and \<open>make_nonfree_var\<close> returns the first name of the
  sequence \<open>prefix_0, prefix_1, ...\<close> that is free in none of the expressions, with the type given.
\<close>

theorem make_nonfree_var_least_fresh:
  "\<exists>i. make_nonfree_var prefix es t = MkVar (candidate prefix i) t \<and>
     (\<forall>e \<in> set es. candidate prefix i \<notin> free_vars e) \<and>
     (\<forall>j < i. \<exists>e \<in> set es. candidate prefix j \<in> free_vars e)"
  using first_nonfree_fresh first_nonfree_least [of 0]
  by (intro exI [of _ "first_nonfree prefix es 0"]) (simp add: make_nonfree_var_def)

theorem make_nonfree_var_least_fresh_witness:
  "\<exists>i. make_nonfree_var ''x'' [Var (MkVar ''x_0'' None)] None = MkVar (candidate ''x'' i) None \<and>
     candidate ''x'' i \<notin> free_vars (Var (MkVar ''x_0'' None))"
  using make_nonfree_var_least_fresh [of "''x''" "[Var (MkVar ''x_0'' None)]" None] by auto

text \<open>
  C2: Substitution for free variables is correct: on an expression without tuple-binding lets
  \<open>replace_free_vars\<close> returns, the result means in every environment of every interpretation what
  the expression means when each substituted variable has the value of its substitute, and its free
  variables are those of the substitutes and the untouched ones: nothing is captured.
\<close>

theorem replace_free_vars_correct:
  assumes "is_untupled e"
  shows "\<exists>e'. replace_free_vars e \<sigma> = Inr e' \<and> free_vars e' = sub_fv \<sigma> (free_vars e) \<and>
    (\<forall>\<rho>. eval A \<rho> e' = eval A (sub_env A \<rho> \<sigma>) e)"
proof -
  obtain e' where e': "cav_visit [] e [] \<sigma> = Inr e'" "free_vars e' = sub_fv \<sigma> (free_vars e)"
    using cav_visit_total [OF assms] by blast
  have "eval A \<rho> e' = eval A (sub_env A \<rho> \<sigma>) e" for \<rho>
    using cav_visit_sem [OF assms _ e'(1), of A "\<lambda>_ _ v. v" \<rho>]
    by (simp add: eval_holes_no_holes [OF holes_of_Nil])
  with e' show ?thesis by (auto simp: replace_free_vars_def)
qed

theorem replace_free_vars_correct_witness:
  "\<exists>e'. replace_free_vars (Lam ''y'' Float (Call (SName ''f'') [Var (MkVar ''x'' None), Var (MkVar ''y'' None)] None) None)
      [(''x'', Var (MkVar ''y'' None))] = Inr e' \<and> free_vars e' = {''y''}"
  using replace_free_vars_correct [of "Lam ''y'' Float (Call (SName ''f'')
      [Var (MkVar ''x'' None), Var (MkVar ''y'' None)] None) None" "[(''x'', Var (MkVar ''y'' None))]" "undefined :: unit algebra"]
  by (auto simp: sub_fv_def)


definition two_requests :: "request list" where
  "two_requests =
     [\<lparr>req_target = [lam_body, CallArg 0], req_payload = Var (MkVar ''y'' None), req_applicator = None\<rparr>,
      \<lparr>req_target = [lam_body, CallArg 1], req_payload = Const (CInt 3), req_applicator = None\<rparr>]"


text \<open>
  A payload without free variables is delivered as it is: \<open>replace_subtree\<close> puts the result of the
  applicator at the target and changes nothing else, no binder included.
\<close>

theorem replace_subtree_closed_payload:
  assumes "free_vars payload = {}" "is_untupled e" "subexpr_at e q = Inr old"
  shows "replace_subtree e q payload applicator =
    bindE (apply_request applicator payload old) (\<lambda>n. Inr (put_at e q n))"
  using assms by (rule replace_subtree_closed)

theorem replace_subtree_closed_payload_witness:
  "replace_subtree (Lam ''y'' Float (Var (MkVar ''y'' None)) None) [lam_body] (Const (CInt 3)) None =
   Inr (Lam ''y'' Float (Const (CInt 3)) None)"
  using replace_subtree_closed_payload [of "Const (CInt 3)" "Lam ''y'' Float (Var (MkVar ''y'' None)) None"
      "[lam_body]" "Var (MkVar ''y'' None)" None]
  by (simp add: apply_request_def)

end
