(* ===== verification/AlphaEquiv.thy ===== *)
theory AlphaEquiv
  imports FilterTerm KsPath "HOL-Library.Countable"
begin

text \<open>
  Alpha equivalence and the hash that goes with it, \<open>src/python/ksc/alpha_equiv.py\<close>. The
  argument \<open>same\<close> is Python's \<open>is\<close> on expressions; all that is used of it is that identical
  expressions are equal. A comparison may raise: \<open>AssertionError\<close> on a tupled let,
  \<open>AttributeError\<close> on a lambda compared with another expression.
\<close>

section \<open>The bijection of bound variables\<close>

record BoundVarBijection =
  left_to_right :: "string \<rightharpoonup> string"
  right_to_left :: "string \<rightharpoonup> string"

definition map_get :: "('a \<rightharpoonup> 'b) \<Rightarrow> 'a \<Rightarrow> 'b \<Rightarrow> 'b" where
  "map_get m k d = (case m k of Some v \<Rightarrow> v | None \<Rightarrow> d)"

definition vars_equal :: "BoundVarBijection \<Rightarrow> string \<Rightarrow> string \<Rightarrow> bool" where
  "vars_equal m left right \<longleftrightarrow>
     map_get (left_to_right m) left left = right \<and> map_get (right_to_left m) right right = left"

definition add_var :: "BoundVarBijection \<Rightarrow> string \<Rightarrow> string \<Rightarrow> BoundVarBijection" where
  "add_var m left right =
     \<lparr>left_to_right = (left_to_right m)(left \<mapsto> right),
      right_to_left = (right_to_left m)(right \<mapsto> left)\<rparr>"

definition empty_bijection :: BoundVarBijection where
  "empty_bijection = \<lparr>left_to_right = Map.empty, right_to_left = Map.empty\<rparr>"

section \<open>The comparison\<close>

text \<open>\<open>_are_equiv_with_varmap\<close>, with the registered cases of \<open>_alpha_equivalence_helper\<close>.\<close>

fun are_equiv_with_varmap ::
    "(expr \<Rightarrow> expr \<Rightarrow> bool) \<Rightarrow> expr \<Rightarrow> expr \<Rightarrow> BoundVarBijection \<Rightarrow> bool result" where
  "are_equiv_with_varmap same left right m =
     (if same left right then Inr (\<forall>v \<in> free_vars left. vars_equal m v v)
      else (case left of
          Var x \<Rightarrow> Inr (case right of Var y \<Rightarrow> vars_equal m (var_name x) (var_name y) | _ \<Rightarrow> False)
        | LetE vs r b _ \<Rightarrow>
            (case right of
               LetE vs' r' b' _ \<Rightarrow>
                 (case (vs, vs') of
                    (One x, One y) \<Rightarrow>
                      bindE (are_equiv_with_varmap same r r' m) (\<lambda>q.
                        if q then are_equiv_with_varmap same b b' (add_var m (var_name x) (var_name y))
                        else Inr False)
                  | _ \<Rightarrow> Inl AssertionError)
             | _ \<Rightarrow> Inr False)
        | Lam x _ b _ \<Rightarrow>
            (case right of
               Lam y _ b' _ \<Rightarrow> are_equiv_with_varmap same b b' (add_var m x y)
             | _ \<Rightarrow> Inl AttributeError)
        | _ \<Rightarrow>
            bindE (filter_term_eq (get_filter_term left) (get_filter_term right)) (\<lambda>q.
              if q \<and> length (children left) = length (children right) then
                all2_py (\<lambda>l r. are_equiv_with_varmap same l r m) (children left) (children right)
              else Inr False)))"

declare are_equiv_with_varmap.simps [simp del]

definition are_alpha_equivalent :: "(expr \<Rightarrow> expr \<Rightarrow> bool) \<Rightarrow> expr \<Rightarrow> expr \<Rightarrow> bool result" where
  "are_alpha_equivalent same a b = are_equiv_with_varmap same a b empty_bijection"

section \<open>The reference: de Bruijn terms\<close>

datatype db =
    DBound nat
  | DFree string
  | DConst const
  | DCall sname "db list"
  | DLam db
  | DLet db db
  | DIf db db db
  | DAssert db db

text \<open>The position of the innermost binder of a name, counted from 0.\<close>

fun binder_index :: "string list \<Rightarrow> string \<Rightarrow> nat option" where
  "binder_index [] x = None"
| "binder_index (y # ys) x = (if x = y then Some 0 else map_option Suc (binder_index ys x))"

fun to_db :: "string list \<Rightarrow> expr \<Rightarrow> db" where
  "to_db ctx (Const c) = DConst (norm_const c)"
| "to_db ctx (Var v) =
     (case binder_index ctx (var_name v) of Some i \<Rightarrow> DBound i | None \<Rightarrow> DFree (var_name v))"
| "to_db ctx (Call f as _) = DCall f (map (to_db ctx) as)"
| "to_db ctx (Lam x _ b _) = DLam (to_db (x # ctx) b)"
| "to_db ctx (LetE vs r b _) = DLet (to_db ctx r) (to_db (rev (binder_names vs) @ ctx) b)"
| "to_db ctx (IfE c t f _) = DIf (to_db ctx c) (to_db ctx t) (to_db ctx f)"
| "to_db ctx (Assert c b _) = DAssert (to_db ctx c) (to_db ctx b)"

definition alpha_eq :: "expr \<Rightarrow> expr \<Rightarrow> bool" where
  "alpha_eq a b \<longleftrightarrow> to_db [] a = to_db [] b"

definition same_index :: "string list \<Rightarrow> string list \<Rightarrow> string \<Rightarrow> string \<Rightarrow> bool" where
  "same_index cl cr x y \<longleftrightarrow>
     binder_index cl x = binder_index cr y \<and> (binder_index cl x = None \<longrightarrow> x = y)"

lemma to_db_var_eq:
  "to_db cl (Var v) = to_db cr (Var w) \<longleftrightarrow> same_index cl cr (var_name v) (var_name w)"
  by (auto simp: same_index_def split: option.splits)

lemma binder_index_None: "binder_index xs x = None \<longleftrightarrow> x \<notin> set xs"
  by (induction xs) auto

lemma same_index_Cons:
  "same_index (x # cl) (y # cr) a b \<longleftrightarrow> a = x \<and> b = y \<or> a \<noteq> x \<and> b \<noteq> y \<and> same_index cl cr a b"
proof -
  have "map_option Suc i = map_option Suc j \<longleftrightarrow> i = j" for i j
    by (cases i; cases j) auto
  moreover have "Some 0 \<noteq> map_option Suc i" "map_option Suc i \<noteq> Some 0" for i
    by (cases i; simp)+
  ultimately show ?thesis by (auto simp: same_index_def)
qed

text \<open>Two contexts give one expression the same term iff they agree on its free variables.\<close>

lemma same_index_prefix:
  "same_index (xs @ cl) (xs @ cr) v v \<longleftrightarrow> v \<in> set xs \<or> same_index cl cr v v"
  by (induction xs) (auto simp: same_index_Cons)

lemma to_db_ctx:
  "to_db cl e = to_db cr e \<longleftrightarrow> (\<forall>v \<in> free_vars e. same_index cl cr v v)"
proof (induction e arbitrary: cl cr)
  case (Var v)
  then show ?case by (simp only: to_db_var_eq) simp
next
  case (Call f as t)
  then show ?case by (auto simp: list_eq_iff_nth_eq in_set_conv_nth) (metis nth_mem)+
next
  case (Lam x s b t)
  then show ?case using same_index_prefix [of "[x]" cl cr] by auto
next
  case (LetE vs r b t)
  then show ?case using same_index_prefix [of "rev (binder_names vs)" cl cr] by auto
qed auto

text \<open>The bijection holds what two contexts hold.\<close>

definition represents :: "BoundVarBijection \<Rightarrow> string list \<Rightarrow> string list \<Rightarrow> bool" where
  "represents m cl cr \<longleftrightarrow> (\<forall>x y. vars_equal m x y \<longleftrightarrow> same_index cl cr x y)"

lemma represents_empty: "represents empty_bijection [] []"
  by (auto simp: represents_def vars_equal_def same_index_def empty_bijection_def map_get_def)

lemma represents_add_var: "represents m cl cr \<Longrightarrow> represents (add_var m x y) (x # cl) (y # cr)"
proof -
  assume m: "represents m cl cr"
  have "vars_equal (add_var m x y) a b \<longleftrightarrow> a = x \<and> b = y \<or> a \<noteq> x \<and> b \<noteq> y \<and> vars_equal m a b"
    for a b by (auto simp: vars_equal_def add_var_def map_get_def)
  with m have "vars_equal (add_var m x y) a b \<longleftrightarrow> same_index (x # cl) (y # cr) a b" for a b
    by (simp add: represents_def same_index_Cons)
  then show ?thesis by (simp add: represents_def)
qed

lemma are_equiv_same:
  "same l r \<Longrightarrow> are_equiv_with_varmap same l r m = Inr (\<forall>v \<in> free_vars l. vars_equal m v v)"
  by (subst are_equiv_with_varmap.simps) simp

lemma are_equiv_default:
  assumes "\<not> same l r" "case l of Var _ \<Rightarrow> False | LetE _ _ _ _ \<Rightarrow> False | Lam _ _ _ _ \<Rightarrow> False | _ \<Rightarrow> True"
  shows "are_equiv_with_varmap same l r m =
    bindE (filter_term_eq (get_filter_term l) (get_filter_term r)) (\<lambda>q.
      if q \<and> length (children l) = length (children r) then
        all2_py (\<lambda>l r. are_equiv_with_varmap same l r m) (children l) (children r)
      else Inr False)"
  using assms by (subst are_equiv_with_varmap.simps) (auto split: expr.splits)

lemma are_equiv_same_sound:
  assumes "same l r" "\<And>x y. same x y \<Longrightarrow> x = y" "represents m cl cr"
    and "are_equiv_with_varmap same l r m = Inr b"
  shows "b \<longleftrightarrow> to_db cl l = to_db cr r"
proof -
  have "l = r" using assms(1,2) by blast
  moreover have "b \<longleftrightarrow> (\<forall>v \<in> free_vars l. vars_equal m v v)"
    using assms(4) are_equiv_same [of same, OF assms(1)] by simp
  ultimately show ?thesis using assms(3) to_db_ctx [of cl l cr] by (simp add: represents_def)
qed

text \<open>The default case, given what the comparison says of the children.\<close>

lemma are_equiv_default_sound:
  assumes "\<not> same l r" "case l of Var _ \<Rightarrow> False | LetE _ _ _ _ \<Rightarrow> False | Lam _ _ _ _ \<Rightarrow> False | _ \<Rightarrow> True"
    and res: "are_equiv_with_varmap same l r m = Inr b"
    and IH: "\<And>x y c. x \<in> set (children l) \<Longrightarrow> are_equiv_with_varmap same x y m = Inr c \<Longrightarrow>
      c \<longleftrightarrow> to_db cl x = to_db cr y"
  obtains q where "filter_term_eq (get_filter_term l) (get_filter_term r) = Inr q"
    "b \<longleftrightarrow> q \<and> map (to_db cl) (children l) = map (to_db cr) (children r)"
proof -
  from res obtain q where q: "filter_term_eq (get_filter_term l) (get_filter_term r) = Inr q"
    and b: "(if q \<and> length (children l) = length (children r) then
        all2_py (\<lambda>l r. are_equiv_with_varmap same l r m) (children l) (children r)
      else Inr False) = Inr b"
    unfolding are_equiv_default [where same = same and l = l and r = r, OF assms(1,2)] by auto
  have "b \<longleftrightarrow> q \<and> map (to_db cl) (children l) = map (to_db cr) (children r)"
  proof (cases "q \<and> length (children l) = length (children r)")
    case True
    with b have "all2_py (\<lambda>l r. are_equiv_with_varmap same l r m) (children l) (children r) = Inr b"
      by simp
    then have "b = list_all2 (\<lambda>x y. to_db cl x = to_db cr y) (children l) (children r)"
      by (rule all2_py_Inr) (use True IH in auto)
    also have "\<dots> \<longleftrightarrow> map (to_db cl) (children l) = map (to_db cr) (children r)"
      by (simp add: list_all2_map1 list_all2_map2 flip: list.rel_eq)
    finally show ?thesis using True by simp
  next
    case False
    with b show ?thesis by (auto dest: map_eq_imp_length_eq)
  qed
  with q that show thesis by blast
qed

lemma are_equiv_sound_aux:
  assumes same: "\<And>x y. same x y \<Longrightarrow> x = y"
  shows "nan_free l \<Longrightarrow> represents m cl cr \<Longrightarrow> are_equiv_with_varmap same l r m = Inr b \<Longrightarrow>
    b \<longleftrightarrow> to_db cl l = to_db cr r"
proof (induction l arbitrary: r m cl cr b)
  case (Const c)
  show ?case
  proof (cases "same (Const c) r")
    case False
    from are_equiv_default_sound [where same = same, OF False _ Const.prems(3), of cl cr] obtain q where
      q: "filter_term_eq (FConst c) (get_filter_term r) = Inr q" "b \<longleftrightarrow> q \<and> children r = []"
      by auto
    with Const.prems(1) show ?thesis
      by (cases r) (auto simp: norm_const_eq split: option.splits dest: sname_eq_sound)
  next
    case True
    then show ?thesis
      by (rule are_equiv_same_sound [where same = same, OF _ same Const.prems(2,3)])
  qed
next
  case (Var v)
  show ?case
  proof (cases "same (Var v) r")
    case True
    then show ?thesis
      by (rule are_equiv_same_sound [where same = same, OF _ same Var.prems(2,3)])
  next
    case False
    with Var.prems(3) have b: "b \<longleftrightarrow> (case r of Var y \<Rightarrow> vars_equal m (var_name v) (var_name y) | _ \<Rightarrow> False)"
      by (subst (asm) are_equiv_with_varmap.simps) simp
    show ?thesis
    proof (cases r)
      case (Var w)
      with b Var.prems(2) show ?thesis by (simp only: to_db_var_eq) (simp add: represents_def)
    qed (use b in \<open>auto split: option.splits\<close>)
  qed
next
  case (Call f as t)
  show ?case
  proof (cases "same (Call f as t) r")
    case True
    then show ?thesis
      by (rule are_equiv_same_sound [where same = same, OF _ same Call.prems(2,3)])
  next
    case False
    have "c \<longleftrightarrow> to_db cl x = to_db cr y" if "x \<in> set as" "are_equiv_with_varmap same x y m = Inr c" for x y c
      using Call.IH [OF that(1) _ Call.prems(2) that(2)] Call.prems(1) that(1) by simp
    with are_equiv_default_sound [where same = same, OF False _ Call.prems(3), of cl cr] obtain q where
      q: "filter_term_eq (FName f) (get_filter_term r) = Inr q"
      "b \<longleftrightarrow> q \<and> map (to_db cl) as = map (to_db cr) (children r)"
      by auto
    then show ?thesis by (cases r) (auto split: option.splits dest: sname_eq_sound)
  qed
next
  case (Lam x s e t)
  show ?case
  proof (cases "same (Lam x s e t) r")
    case True
    then show ?thesis
      by (rule are_equiv_same_sound [where same = same, OF _ same Lam.prems(2,3)])
  next
    case False
    with Lam.prems(3) obtain y s' e' t' where r: "r = Lam y s' e' t'"
      and e': "are_equiv_with_varmap same e e' (add_var m x y) = Inr b"
      by (subst (asm) are_equiv_with_varmap.simps) (auto split: expr.splits)
    from Lam.IH [OF _ represents_add_var [OF Lam.prems(2)] e'] Lam.prems(1) show ?thesis
      by (simp add: r)
  qed
next
  case (LetE vs d e t)
  show ?case
  proof (cases "same (LetE vs d e t) r")
    case True
    then show ?thesis
      by (rule are_equiv_same_sound [where same = same, OF _ same LetE.prems(2,3)])
  next
    case False
    show ?thesis
    proof (cases r)
      case r: (LetE vs' d' e' t')
      with LetE.prems(3) False obtain x y q where xy: "vs = One x" "vs' = One y"
        and q: "are_equiv_with_varmap same d d' m = Inr q"
        and b: "(if q then are_equiv_with_varmap same e e' (add_var m (var_name x) (var_name y))
          else Inr False) = Inr b"
        by (subst (asm) are_equiv_with_varmap.simps) (auto split: binders.splits)
      have "q \<longleftrightarrow> to_db cl d = to_db cr d'"
        using LetE.IH(1) [OF _ LetE.prems(2) q] LetE.prems(1) by simp
      moreover have "b \<longleftrightarrow> to_db (var_name x # cl) e = to_db (var_name y # cr) e'" if q
        using LetE.IH(2) [OF _ represents_add_var [OF LetE.prems(2)]] LetE.prems(1) b that by simp
      ultimately show ?thesis using b by (cases q) (auto simp: r xy)
    qed (use LetE.prems(3) False are_equiv_with_varmap.simps [of same "LetE vs d e t" r m] in
          \<open>auto split: option.splits\<close>)
  qed
next
  case (IfE c d e t)
  show ?case
  proof (cases "same (IfE c d e t) r")
    case True
    then show ?thesis
      by (rule are_equiv_same_sound [where same = same, OF _ same IfE.prems(2,3)])
  next
    case False
    have "k \<longleftrightarrow> to_db cl x = to_db cr y" if "x \<in> set [c, d, e]" "are_equiv_with_varmap same x y m = Inr k" for x y k
      using IfE.IH(1) [OF _ IfE.prems(2), of y k] IfE.IH(2) [OF _ IfE.prems(2), of y k]
        IfE.IH(3) [OF _ IfE.prems(2), of y k]
        IfE.prems(1) that by auto
    with are_equiv_default_sound [where same = same, OF False _ IfE.prems(3), of cl cr] obtain q where
      q: "filter_term_eq (FClass ''If'') (get_filter_term r) = Inr q"
      "b \<longleftrightarrow> q \<and> map (to_db cl) [c, d, e] = map (to_db cr) (children r)"
      by auto
    then show ?thesis by (cases r) (auto split: option.splits)
  qed
next
  case (Assert c d t)
  show ?case
  proof (cases "same (Assert c d t) r")
    case True
    then show ?thesis
      by (rule are_equiv_same_sound [where same = same, OF _ same Assert.prems(2,3)])
  next
    case False
    have "k \<longleftrightarrow> to_db cl x = to_db cr y" if "x \<in> set [c, d]" "are_equiv_with_varmap same x y m = Inr k" for x y k
      using Assert.IH(1) [OF _ Assert.prems(2), of y k] Assert.IH(2) [OF _ Assert.prems(2), of y k]
        Assert.prems(1) that by auto
    with are_equiv_default_sound [where same = same, OF False _ Assert.prems(3), of cl cr] obtain q where
      q: "filter_term_eq (FClass ''Assert'') (get_filter_term r) = Inr q"
      "b \<longleftrightarrow> q \<and> map (to_db cl) [c, d] = map (to_db cr) (children r)"
      by auto
    then show ?thesis by (cases r) (auto split: option.splits)
  qed
qed

section \<open>When the comparison returns\<close>

fun lam_free_expr :: "expr \<Rightarrow> bool" where
  "lam_free_expr (Lam _ _ _ _) \<longleftrightarrow> False"
| "lam_free_expr (Call _ as _) \<longleftrightarrow> (\<forall>a \<in> set as. lam_free_expr a)"
| "lam_free_expr (LetE _ r b _) \<longleftrightarrow> lam_free_expr r \<and> lam_free_expr b"
| "lam_free_expr (IfE c t f _) \<longleftrightarrow> lam_free_expr c \<and> lam_free_expr t \<and> lam_free_expr f"
| "lam_free_expr (Assert c b _) \<longleftrightarrow> lam_free_expr c \<and> lam_free_expr b"
| "lam_free_expr _ \<longleftrightarrow> True"

fun call_names :: "expr \<Rightarrow> sname list" where
  "call_names (Call f as _) = f # concat (map call_names as)"
| "call_names (Lam _ _ b _) = call_names b"
| "call_names (LetE _ r b _) = call_names r @ call_names b"
| "call_names (IfE c t f _) = call_names c @ call_names t @ call_names f"
| "call_names (Assert c b _) = call_names c @ call_names b"
| "call_names _ = []"

definition comparable_names :: "sname list \<Rightarrow> sname list \<Rightarrow> bool" where
  "comparable_names ns ms \<longleftrightarrow> (\<forall>n \<in> set ns. \<forall>m \<in> set ms. \<exists>r. sname_eq n m = Inr r)"

lemma call_names_child: "c \<in> set (children e) \<Longrightarrow> set (call_names c) \<subseteq> set (call_names e)"
  by (cases e) auto

lemma lam_free_child: "lam_free_expr e \<Longrightarrow> c \<in> set (children e) \<Longrightarrow> lam_free_expr c"
  by (cases e) auto

lemma untupled_child: "is_untupled e \<Longrightarrow> c \<in> set (children e) \<Longrightarrow> is_untupled c"
  by (cases e) auto

lemma comparable_child:
  "comparable_names (call_names l) (call_names r) \<Longrightarrow> x \<in> set (children l) \<Longrightarrow> y \<in> set (children r) \<Longrightarrow>
   comparable_names (call_names x) (call_names y)"
  unfolding comparable_names_def using call_names_child by blast

lemma all2_py_total:
  "(\<And>x y. x \<in> set xs \<Longrightarrow> y \<in> set ys \<Longrightarrow> \<exists>b. f x y = Inr b) \<Longrightarrow> \<exists>b. all2_py f xs ys = Inr b"
proof (induction f xs ys rule: all2_py.induct)
  case (1 f x xs y ys)
  obtain b where b: "f x y = Inr b" using "1.prems" [of x y] by auto
  show ?case
  proof (cases b)
    case True
    with "1.IH" [OF b True] "1.prems" b show ?thesis by simp
  next
    case False
    with b show ?thesis by auto
  qed
qed auto

lemma filter_term_eq_total:
  "comparable_names (call_names l) (call_names r) \<Longrightarrow>
   \<exists>b. filter_term_eq (get_filter_term l) (get_filter_term r) = Inr b"
  by (cases l; cases r) (auto simp: comparable_names_def)

lemma are_equiv_total_aux:
  "is_untupled l \<Longrightarrow> is_untupled r \<Longrightarrow> lam_free_expr l \<Longrightarrow>
   comparable_names (call_names l) (call_names r) \<Longrightarrow>
   \<exists>b. are_equiv_with_varmap same l r m = Inr b"
proof (induction "size l" arbitrary: l r m rule: less_induct)
  case less
  have IH: "\<exists>b. are_equiv_with_varmap same x y m = Inr b"
    if "x \<in> set (children l)" "y \<in> set (children r)" for x y m
    using less.prems that
    by (intro less.hyps children_size)
      (auto intro: untupled_child lam_free_child comparable_child)
  show ?case
  proof (cases "same l r")
    case True
    then show ?thesis by (subst are_equiv_with_varmap.simps) simp
  next
    case False
    have default: ?thesis
      if "case l of Var _ \<Rightarrow> False | LetE _ _ _ _ \<Rightarrow> False | Lam _ _ _ _ \<Rightarrow> False | _ \<Rightarrow> True"
    proof -
      have ex: "\<exists>b. all2_py (\<lambda>l r. are_equiv_with_varmap same l r m) (children l) (children r) = Inr b"
        by (rule all2_py_total) (rule IH)
      obtain q where "filter_term_eq (get_filter_term l) (get_filter_term r) = Inr q"
        using filter_term_eq_total [OF less.prems(4)] by blast
      moreover obtain b where
        "all2_py (\<lambda>l r. are_equiv_with_varmap same l r m) (children l) (children r) = Inr b"
        using ex ..
      ultimately show ?thesis
        unfolding are_equiv_default [where same = same and l = l and r = r, OF False that] by auto
    qed
    show ?thesis
    proof (cases l)
      case (Var v)
      with False show ?thesis by (subst are_equiv_with_varmap.simps) simp
    next
      case (LetE vs d e t)
      then obtain x where x: "vs = One x" using less.prems(1) by (cases vs) auto
      show ?thesis
      proof (cases r)
        case r: (LetE vs' d' e' t')
        then obtain y where y: "vs' = One y" using less.prems(2) by (cases vs') auto
        from IH [of d d' m] IH [of e e' "add_var m (var_name x) (var_name y)"] False show ?thesis
          by (subst are_equiv_with_varmap.simps) (auto simp: LetE r x y)
      qed (use False are_equiv_with_varmap.simps [of same l r m] LetE in auto)
    next
      case (Lam x s b t)
      with less.prems(3) show ?thesis by simp
    qed (rule default, simp)+
  qed
qed

section \<open>Hashing\<close>

text \<open>
  \<open>_hash_str\<close>, Python's \<open>hash\<close> of a number and of a tuple are parameters. The variables in scope
  are a dictionary whose size is part of the hash of a bound variable.
\<close>

record hash_functions =
  hash_str :: "string \<Rightarrow> int"
  hash_num :: "const \<Rightarrow> int"
  hash_tuple :: "int list \<Rightarrow> int"

definition add_hash_var :: "(string, nat) dict \<Rightarrow> string \<Rightarrow> (string, nat) dict" where
  "add_hash_var vars x = AList.update x (length vars) vars"

fun alpha_hash :: "hash_functions \<Rightarrow> expr \<Rightarrow> (string, nat) dict \<Rightarrow> int result" where
  "alpha_hash h (Const c) vars = Inr (case c of CStr s \<Rightarrow> hash_str h s | _ \<Rightarrow> hash_num h c)"
| "alpha_hash h (Var v) vars =
     Inr (case map_of vars (var_name v) of
            Some i \<Rightarrow> int (length vars) - int i
          | None \<Rightarrow> hash_str h (var_name v))"
| "alpha_hash h (Call f as _) vars =
     bindE (mapE (\<lambda>a. alpha_hash h a vars) as) (\<lambda>hs.
     Inr (hash_tuple h (hash_str h (sname_str f) # hs)))"
| "alpha_hash h (LetE vs r b _) vars =
     bindE (alpha_hash h r vars) (\<lambda>hr.
     case vs of
       One x \<Rightarrow> bindE (alpha_hash h b (add_hash_var vars (var_name x))) (\<lambda>hb.
         Inr (hash_tuple h [hash_str h ''Let'', hr, hb]))
     | Many _ \<Rightarrow> Inl AttributeError)"
| "alpha_hash h (Lam x _ b _) vars =
     bindE (alpha_hash h b (add_hash_var vars x)) (\<lambda>hb.
     Inr (hash_tuple h [hash_str h ''Lam'', hb]))"
| "alpha_hash h (IfE c t f _) vars =
     bindE (mapE (\<lambda>a. alpha_hash h a vars) [c, t, f]) (\<lambda>hs.
     Inr (hash_tuple h (hash_str h ''If'' # hs)))"
| "alpha_hash h (Assert c b _) vars =
     bindE (mapE (\<lambda>a. alpha_hash h a vars) [c, b]) (\<lambda>hs.
     Inr (hash_tuple h (hash_str h ''Assert'' # hs)))"

definition hash_with_alpha :: "hash_functions \<Rightarrow> expr \<Rightarrow> int result" where
  "hash_with_alpha h e = alpha_hash h e []"

text \<open>The same hash computed from the de Bruijn term.\<close>

fun hash_db :: "hash_functions \<Rightarrow> db \<Rightarrow> int" where
  "hash_db h (DBound i) = int i + 1"
| "hash_db h (DFree x) = hash_str h x"
| "hash_db h (DConst c) = (case c of CStr s \<Rightarrow> hash_str h s | _ \<Rightarrow> hash_num h c)"
| "hash_db h (DCall f ds) = hash_tuple h (hash_str h (sname_str f) # map (hash_db h) ds)"
| "hash_db h (DLam d) = hash_tuple h [hash_str h ''Lam'', hash_db h d]"
| "hash_db h (DLet d e) = hash_tuple h [hash_str h ''Let'', hash_db h d, hash_db h e]"
| "hash_db h (DIf c d e) = hash_tuple h [hash_str h ''If'', hash_db h c, hash_db h d, hash_db h e]"
| "hash_db h (DAssert c d) = hash_tuple h [hash_str h ''Assert'', hash_db h c, hash_db h d]"

text \<open>No binder re-binds a name that is in scope.\<close>

fun no_shadow :: "string list \<Rightarrow> expr \<Rightarrow> bool" where
  "no_shadow ctx (Const _) \<longleftrightarrow> True"
| "no_shadow ctx (Var _) \<longleftrightarrow> True"
| "no_shadow ctx (Call _ as _) \<longleftrightarrow> (\<forall>a \<in> set as. no_shadow ctx a)"
| "no_shadow ctx (Lam x _ b _) \<longleftrightarrow> x \<notin> set ctx \<and> no_shadow (x # ctx) b"
| "no_shadow ctx (LetE vs r b _) \<longleftrightarrow> no_shadow ctx r \<and>
     distinct (binder_names vs) \<and> set (binder_names vs) \<inter> set ctx = {} \<and>
     no_shadow (rev (binder_names vs) @ ctx) b"
| "no_shadow ctx (IfE c t f _) \<longleftrightarrow> no_shadow ctx c \<and> no_shadow ctx t \<and> no_shadow ctx f"
| "no_shadow ctx (Assert c b _) \<longleftrightarrow> no_shadow ctx c \<and> no_shadow ctx b"

text \<open>Equal numbers hash alike, as Python promises.\<close>

definition hash_respects_eq :: "hash_functions \<Rightarrow> bool" where
  "hash_respects_eq h \<longleftrightarrow> (\<forall>c. const_num c \<noteq> None \<longrightarrow> hash_num h (norm_const c) = hash_num h c)"

definition stores :: "(string, nat) dict \<Rightarrow> string list \<Rightarrow> bool" where
  "stores vars ctx \<longleftrightarrow> length vars = length ctx \<and>
     (\<forall>x. map_of vars x = map_option (\<lambda>i. length ctx - 1 - i) (binder_index ctx x))"

lemma binder_index_less: "binder_index ctx x = Some i \<Longrightarrow> i < length ctx"
  by (induction ctx arbitrary: i) (auto split: if_splits)

lemma length_update_new: "k \<notin> fst ` set al \<Longrightarrow> length (AList.update k v al) = Suc (length al)"
  by (induction al) auto

lemma stores_add:
  assumes "stores vars ctx" "x \<notin> set ctx"
  shows "stores (add_hash_var vars x) (x # ctx)"
proof -
  have "map_of vars x = None"
    using assms binder_index_None [of ctx x] by (simp add: stores_def)
  then have "length (add_hash_var vars x) = Suc (length vars)"
    by (simp add: add_hash_var_def length_update_new map_of_eq_None_iff)
  moreover have "map_of (add_hash_var vars x) y =
      map_option (\<lambda>i. length (x # ctx) - 1 - i) (binder_index (x # ctx) y)" for y
    using assms(1) by (auto simp: add_hash_var_def update_conv' stores_def option.map_comp comp_def)
  ultimately show ?thesis using assms(1) by (simp add: stores_def)
qed

lemma hash_const_norm:
  "hash_respects_eq h \<Longrightarrow>
   (case norm_const c of CStr s \<Rightarrow> hash_str h s | _ \<Rightarrow> hash_num h (norm_const c)) =
   (case c of CStr s \<Rightarrow> hash_str h s | _ \<Rightarrow> hash_num h c)"
proof (cases "const_num c")
  case None
  then obtain s where "c = CStr s" by auto
  then show "(case norm_const c of CStr s \<Rightarrow> hash_str h s | _ \<Rightarrow> hash_num h (norm_const c)) =
   (case c of CStr s \<Rightarrow> hash_str h s | _ \<Rightarrow> hash_num h c)" by (simp add: norm_const_def)
next
  case (Some f)
  assume "hash_respects_eq h"
  with Some have "hash_num h (norm_const c) = hash_num h c"
    unfolding hash_respects_eq_def by blast
  moreover have "norm_const c = CFloat f" "\<forall>s. c \<noteq> CStr s" using Some by (auto simp: norm_const_def)
  ultimately show "(case norm_const c of CStr s \<Rightarrow> hash_str h s | _ \<Rightarrow> hash_num h (norm_const c)) =
   (case c of CStr s \<Rightarrow> hash_str h s | _ \<Rightarrow> hash_num h c)" by (auto split: const.splits)
qed

lemma alpha_hash_db:
  "is_untupled e \<Longrightarrow> no_shadow ctx e \<Longrightarrow> stores vars ctx \<Longrightarrow> hash_respects_eq h \<Longrightarrow>
   alpha_hash h e vars = Inr (hash_db h (to_db ctx e))"
proof (induction e arbitrary: ctx vars)
  case (Const c)
  then show ?case using hash_const_norm [of h c] by simp
next
  case (Var v)
  then show ?case
    by (auto simp: stores_def split: option.splits dest: binder_index_less)
next
  case (Call f as t)
  have "mapE (\<lambda>a. alpha_hash h a vars) as = Inr (map (\<lambda>a. hash_db h (to_db ctx a)) as)"
    by (rule mapE_total) (use Call in auto)
  then show ?case by (simp add: comp_def)
next
  case (LetE vs r b t)
  then obtain x where "vs = One x" by (cases vs) auto
  with LetE.prems LetE.IH(1) [of ctx vars]
    LetE.IH(2) [of "var_name x # ctx" "add_hash_var vars (var_name x)"] stores_add [of vars ctx "var_name x"]
  show ?case by simp
next
  case (Lam x s b t)
  from Lam.prems Lam.IH [of "x # ctx" "add_hash_var vars x"] stores_add [of vars ctx x] show ?case by simp
qed auto

section \<open>Properties\<close>

text \<open>
  C5: The comparison is sound and complete for alpha equivalence: when \<open>are_alpha_equivalent\<close> returns,
  it says whether the two expressions have the same de Bruijn term. Calls are compared by name,
  constants by their numeric value, and the types of bound variables not at all.
\<close>

theorem are_alpha_equivalent_sound:
  assumes "\<And>x y. same x y \<Longrightarrow> x = y" "nan_free a" "are_alpha_equivalent same a b = Inr r"
  shows "r = alpha_eq a b"
  using are_equiv_sound_aux [OF assms(1,2) represents_empty] assms(3)
  by (simp add: are_alpha_equivalent_def alpha_eq_def)

definition identity_of :: "string \<Rightarrow> expr" where
  "identity_of x = Lam ''x'' Float (Lam x Float (Var (MkVar x None)) None) None"

theorem are_alpha_equivalent_sound_witness:
  "are_alpha_equivalent (\<lambda>_ _. False) (identity_of ''x'') (identity_of ''y'') = Inr True \<and>
   True = alpha_eq (identity_of ''x'') (identity_of ''y'')"
proof -
  have "are_alpha_equivalent (\<lambda>_ _. False) (identity_of ''x'') (identity_of ''y'') = Inr True"
    by (simp add: are_alpha_equivalent_def are_equiv_with_varmap.simps identity_of_def
        empty_bijection_def add_var_def vars_equal_def map_get_def)
  with are_alpha_equivalent_sound [of "\<lambda>_ _. False" "identity_of ''x''" "identity_of ''y''" True]
  show ?thesis by (simp add: identity_of_def)
qed

text \<open>
  C23: The comparison returns on expressions without tuple-binding lets whose names can be compared,
  provided the left one has no lambda.
\<close>

theorem are_alpha_equivalent_total:
  assumes "is_untupled a" "is_untupled b" "lam_free_expr a"
    and "comparable_names (call_names a) (call_names b)"
  shows "\<exists>r. are_alpha_equivalent same a b = Inr r"
  unfolding are_alpha_equivalent_def by (rule are_equiv_total_aux [OF assms])

theorem are_alpha_equivalent_total_witness:
  "\<exists>r. are_alpha_equivalent (=) (Call (SName ''f'') [Const (CInt 1)] None)
     (Call (SName ''g'') [Const (CInt 1)] None) = Inr r"
  using are_alpha_equivalent_total [of "Call (SName ''f'') [Const (CInt 1)] None"
      "Call (SName ''g'') [Const (CInt 1)] None" "(=)"]
  by (auto simp: comparable_names_def)

text \<open>
  A lambda compared with anything that is not a lambda raises \<open>AttributeError\<close>: the case for
  lambdas does not check the class of the other side, as the case for \<open>let\<close> does.
\<close>

theorem lam_compared_raises:
  assumes "expr_class e \<noteq> ''Lam''" "\<not> same (Lam x t b u) e"
  shows "are_alpha_equivalent same (Lam x t b u) e = Inl AttributeError"
  using assms by (cases e) (simp_all add: are_alpha_equivalent_def are_equiv_with_varmap.simps)

theorem lam_compared_raises_witness:
  "are_alpha_equivalent (=) (identity_of ''y'') (Const (CInt 1)) = Inl AttributeError"
  using lam_compared_raises [of "Const (CInt 1)" "(=)" "''x''" Float] by (simp add: identity_of_def)

text \<open>
  C6: Alpha-equivalent expressions have the same hash, as long as no binder shadows another and the
  hash of a number does not depend on its type.
\<close>

theorem hash_with_alpha_respects:
  assumes "is_untupled a" "is_untupled b" "no_shadow [] a" "no_shadow [] b" "hash_respects_eq h"
    and "alpha_eq a b"
  shows "\<exists>v. hash_with_alpha h a = Inr v \<and> hash_with_alpha h b = Inr v"
proof -
  have "stores [] []" by (simp add: stores_def)
  with alpha_hash_db [OF assms(1,3) _ assms(5)] alpha_hash_db [OF assms(2,4) _ assms(5)] assms(6)
  show ?thesis by (simp add: hash_with_alpha_def alpha_eq_def)
qed

definition sum_hash :: hash_functions where
  "sum_hash = \<lparr>hash_str = (\<lambda>s. int (length s)), hash_num = (\<lambda>_. 0), hash_tuple = sum_list\<rparr>"

theorem hash_with_alpha_respects_witness:
  "\<exists>v. hash_with_alpha sum_hash (identity_of ''y'') = Inr v \<and>
       hash_with_alpha sum_hash (identity_of ''z'') = Inr v"
  using hash_with_alpha_respects [of "identity_of ''y''" "identity_of ''z''" sum_hash]
  by (simp add: identity_of_def hash_respects_eq_def sum_hash_def alpha_eq_def)





end
