(* ===== verification/UntupleLets.thy ===== *)
theory UntupleLets
  imports CavSubst
begin

text \<open>
  Taking tupled lets apart, \<open>src/python/ksc/untuple_lets.py\<close>, and giving every function one
  argument, \<open>src/python/ksc/oneargify_defs.py\<close>. The new nodes carry no type.
\<close>

section \<open>Definitions\<close>

fun is_literal_tuple :: "expr \<Rightarrow> bool" where
  "is_literal_tuple (Call f _ _) \<longleftrightarrow> mangle_without_type f = ''tuple''"
| "is_literal_tuple _ \<longleftrightarrow> False"

definition make_tuple_get :: "nat \<Rightarrow> nat \<Rightarrow> expr \<Rightarrow> expr result" where
  "make_tuple_get idx n tuple_val =
     bindE (assertE (1 \<le> idx \<and> idx \<le> n)) (\<lambda>_. Inr (Call (get_name idx n) [tuple_val] None))"

text \<open>The two loops run over the reversed list: the first variable ends up outermost.\<close>

fun nest_literal :: "(var \<times> expr) list \<Rightarrow> expr \<Rightarrow> expr" where
  "nest_literal [] body = body"
| "nest_literal ((v, e) # ves) body = LetE (One v) e (nest_literal ves body) None"

fun nest_gets :: "(nat \<times> var) list \<Rightarrow> nat \<Rightarrow> expr \<Rightarrow> expr \<Rightarrow> expr result" where
  "nest_gets [] n temp body = Inr body"
| "nest_gets ((i, v) # ivs) n temp body =
     bindE (nest_gets ivs n temp body) (\<lambda>b.
     bindE (make_tuple_get i n temp) (\<lambda>g. Inr (LetE (One v) g b None)))"

fun untuple_one_let :: "expr \<Rightarrow> expr result" where
  "untuple_one_let (LetE (One v) rhs body t) = Inr (LetE (One v) rhs body t)"
| "untuple_one_let (LetE (Many vs) rhs body t) =
     (if is_literal_tuple rhs then
        bindE (assertE (length (children rhs) = length vs)) (\<lambda>_.
        Inr (nest_literal (zip vs (children rhs)) body))
      else (case rhs of
          Var v \<Rightarrow> nest_gets (enumerate 1 vs) (length vs) (Var v) body
        | _ \<Rightarrow> (let temp_var = make_nonfree_var ''temp'' [rhs, body] None in
            bindE (nest_gets (enumerate 1 vs) (length vs) (Var temp_var) body) (\<lambda>b.
            Inr (LetE (One temp_var) rhs b None)))))"
| "untuple_one_let _ = Inl AttributeError"

function untuple_lets :: "expr \<Rightarrow> expr result" where
  "untuple_lets e =
     (case e of
        LetE vs r b t \<Rightarrow>
          bindE (untuple_lets r) (\<lambda>r'.
          bindE (untuple_lets b) (\<lambda>b'.
          bindE (mk_let vs r' b' None) untuple_one_let))
      | _ \<Rightarrow> transform_children (\<lambda>pe c. untuple_lets c) e)"
  by pat_completeness auto

termination
  by (relation "measure size") (auto dest: pe_get_size)

declare untuple_lets.simps [simp del]

lemma untuple_lets_nodes:
  "untuple_lets (Const k) = Inr (Const k)"
  "untuple_lets (Var v) = Inr (Var v)"
  "untuple_lets (Call f as t) =
     bindE (mapE (\<lambda>(i, a). untuple_lets a) (enumerate 0 as)) (\<lambda>as'. Inr (Call f as' t))"
  "untuple_lets (Lam x s b t) = bindE (untuple_lets b) (\<lambda>b'. Inr (Lam x s b' t))"
  "untuple_lets (LetE vs r b t) =
     bindE (untuple_lets r) (\<lambda>r'. bindE (untuple_lets b) (\<lambda>b'. bindE (mk_let vs r' b' None) untuple_one_let))"
  "untuple_lets (IfE c d e t) =
     bindE (untuple_lets c) (\<lambda>c'. bindE (untuple_lets d) (\<lambda>d'. bindE (untuple_lets e) (\<lambda>e'. Inr (IfE c' d' e' t))))"
  "untuple_lets (Assert c d t) =
     bindE (untuple_lets c) (\<lambda>c'. bindE (untuple_lets d) (\<lambda>d'. Inr (Assert c' d' t)))"
  by (subst untuple_lets.simps; simp add: mk_call_def)+

definition oneargify_def :: "tld \<Rightarrow> tld result" where
  "oneargify_def d =
     (case d of
        Def name ret args body \<Rightarrow>
          (if length args = 1 then Inr d
           else
             bindE (mapE (\<lambda>a. case var_type a of Some t \<Rightarrow> Inr t | None \<Rightarrow> Inl AssertionError) args) (\<lambda>ts.
             let tuple_arg = make_nonfree_var ''func_arg'' (body # map Var args) (Some (Tuple ts))
             in bindE (mk_let (Many args) (Var tuple_arg) body None) (\<lambda>l.
                bindE (untuple_one_let l) (\<lambda>b. Inr (Def name ret [tuple_arg] b)))))
      | _ \<Rightarrow> Inl AttributeError)"

definition oneargify_defs :: "tld list \<Rightarrow> tld list result" where
  "oneargify_defs ds = mapE (\<lambda>d. case d of Def _ _ _ _ \<Rightarrow> oneargify_def d | _ \<Rightarrow> Inr d) ds"

section \<open>The result has no tupled lets\<close>

lemma nest_literal_untupled:
  "is_untupled (nest_literal ves body) \<longleftrightarrow> is_untupled body \<and> (\<forall>(v, e) \<in> set ves. is_untupled e)"
  by (induction ves body rule: nest_literal.induct) auto

lemma nest_gets_untupled:
  "nest_gets ivs n temp body = Inr b \<Longrightarrow> is_untupled temp \<Longrightarrow> is_untupled body \<Longrightarrow> is_untupled b"
  by (induction ivs n temp body arbitrary: b rule: nest_gets.induct) (auto simp: make_tuple_get_def)

lemma is_untupled_children: "is_untupled e \<Longrightarrow> \<forall>c \<in> set (children e). is_untupled c"
  by (cases e) auto

lemma untuple_one_let_untupled:
  "untuple_one_let (LetE vs r b t) = Inr e \<Longrightarrow> is_untupled r \<Longrightarrow> is_untupled b \<Longrightarrow> is_untupled e"
proof (cases vs)
  case (Many xs)
  assume e: "untuple_one_let (LetE vs r b t) = Inr e" and un: "is_untupled r" "is_untupled b"
  show ?thesis
  proof (cases "is_literal_tuple r")
    case True
    with e un show ?thesis
      by (auto simp: Many nest_literal_untupled dest!: set_zip_rightD is_untupled_children [OF un(1), rule_format])
  next
    case False
    with e un show ?thesis
      by (auto simp: Many Let_def nest_gets_untupled split: expr.splits)
  qed
qed auto

lemma untuple_lets_untupled: "untuple_lets e = Inr e' \<Longrightarrow> is_untupled e'"
proof (induction e arbitrary: e')
  case (Call f as t)
  then obtain bs where bs: "mapE (\<lambda>(i, a). untuple_lets a) (enumerate 0 as) = Inr bs" "e' = Call f bs t"
    by (auto simp: untuple_lets.simps [of "Call f as t"] mk_call_def)
  have "is_untupled (bs ! i)" if "i < length as" for i
    using bs(1) Call.IH [OF nth_mem [OF that]] that by (simp add: mapE_enumerate_Inr)
  with bs show ?case by (auto simp: mapE_enumerate_Inr in_set_conv_nth)
next
  case (LetE vs r b t)
  then show ?case
    by (auto simp: untuple_lets.simps [of "LetE vs r b t"] mk_let_def split: if_splits
        intro: untuple_one_let_untupled)
next
  case (Lam x s b t)
  then show ?case by (auto simp: untuple_lets.simps [of "Lam x s b t"])
next
  case (IfE c d f t)
  then show ?case by (auto simp: untuple_lets.simps [of "IfE c d f t"])
next
  case (Assert c d t)
  then show ?case by (auto simp: untuple_lets.simps [of "Assert c d t"])
next
  case (Const c)
  then show ?case by (auto simp: untuple_lets.simps [of "Const c"])
next
  case (Var v)
  then show ?case by (auto simp: untuple_lets.simps [of "Var v"])
qed

section \<open>Free variables\<close>

lemma nest_literal_fv:
  "free_vars (nest_literal ves body) \<subseteq>
   (\<Union>(v, e) \<in> set ves. free_vars e) \<union> (free_vars body - set (map (var_name \<circ> fst) ves))"
  by (induction ves body rule: nest_literal.induct) auto

lemma nest_gets_fv:
  "nest_gets ivs n temp body = Inr b \<Longrightarrow>
   free_vars b \<subseteq> free_vars temp \<union> (free_vars body - set (map (var_name \<circ> snd) ivs))"
proof (induction ivs n temp body arbitrary: b rule: nest_gets.induct)
  case (2 i v ivs n temp body)
  then obtain b0 where b0: "nest_gets ivs n temp body = Inr b0"
    and b: "b = LetE (One v) (Call (get_name i n) [temp] None) b0 None"
    by (auto simp: make_tuple_get_def)
  from "2.IH" [OF b0] show ?case by (auto simp: b)
qed simp

lemma enumerate_names: "(var_name \<circ> snd) ` set (enumerate n xs) = var_name ` set xs"
  by (metis image_comp list.set_map map_snd_enumerate)

lemma literal_children_fv: "is_literal_tuple r \<Longrightarrow> (\<Union>c \<in> set (children r). free_vars c) = free_vars r"
  by (cases r) auto

lemma untuple_one_let_fv: "untuple_one_let (LetE vs r b t) = Inr e \<Longrightarrow> free_vars e \<subseteq> free_vars (LetE vs r b t)"
proof (cases vs)
  case (Many xs)
  assume e: "untuple_one_let (LetE vs r b t) = Inr e"
  show ?thesis
  proof (cases "is_literal_tuple r")
    case True
    with e have len: "length (children r) = length xs" and e': "e = nest_literal (zip xs (children r)) b"
      by (auto simp: Many)
    have "map (var_name \<circ> fst) (zip xs (children r)) = map var_name xs"
      using len by (metis map_fst_zip map_map)
    with nest_literal_fv [of "zip xs (children r)" b] literal_children_fv [OF True] show ?thesis
      by (auto simp: Many e' dest!: set_zip_rightD)
  next
    case False
    have names: "set (map (var_name \<circ> snd) (enumerate 1 xs)) = var_name ` set xs"
      unfolding list.set_map by (rule enumerate_names)
    show ?thesis
    proof (cases "\<exists>v. r = Var v")
      case True
      with e have "nest_gets (enumerate 1 xs) (length xs) r b = Inr e" by (auto simp: Many)
      from nest_gets_fv [OF this, unfolded names] show ?thesis by (auto simp: Many)
    next
      case False': False
      let ?temp = "make_nonfree_var ''temp'' [r, b] None"
      from e False False' obtain b' where b': "nest_gets (enumerate 1 xs) (length xs) (Var ?temp) b = Inr b'"
        "e = LetE (One ?temp) r b' None"
        by (auto simp: Many Let_def split: expr.splits)
      from nest_gets_fv [OF b'(1), unfolded names] show ?thesis by (auto simp: Many b'(2))
    qed
  qed
qed auto

lemma untuple_lets_fv: "untuple_lets e = Inr e' \<Longrightarrow> free_vars e' \<subseteq> free_vars e"
proof (induction e arbitrary: e')
  case (Call f as t)
  then obtain bs where bs: "mapE (\<lambda>(i, a). untuple_lets a) (enumerate 0 as) = Inr bs" "e' = Call f bs t"
    by (auto simp: untuple_lets.simps [of "Call f as t"] mk_call_def)
  have "free_vars (bs ! i) \<subseteq> free_vars (as ! i)" if "i < length as" for i
    using bs(1) Call.IH [OF nth_mem [OF that]] that by (simp add: mapE_enumerate_Inr)
  with bs show ?case by (fastforce simp: mapE_enumerate_Inr in_set_conv_nth)
next
  case (LetE vs r b t)
  then obtain r' b' where r': "untuple_lets r = Inr r'" and b': "untuple_lets b = Inr b'"
    and e': "untuple_one_let (LetE vs r' b' None) = Inr e'"
    by (auto simp: untuple_lets.simps [of "LetE vs r b t"] mk_let_def split: if_splits)
  from untuple_one_let_fv [OF e'] LetE.IH(1) [OF r'] LetE.IH(2) [OF b'] show ?case by auto
next
  case (Lam x s b t)
  then show ?case by (auto simp: untuple_lets.simps [of "Lam x s b t"])
next
  case (IfE c d f t)
  then show ?case by (fastforce simp: untuple_lets.simps [of "IfE c d f t"])
next
  case (Assert c d t)
  then show ?case by (fastforce simp: untuple_lets.simps [of "Assert c d t"])
next
  case (Const c)
  then show ?case by (auto simp: untuple_lets.simps [of "Const c"])
next
  case (Var v)
  then show ?case by (auto simp: untuple_lets.simps [of "Var v"])
qed

section \<open>Meaning\<close>

text \<open>
  The nested lets are evaluated one inside the other, so a tupled let is taken apart correctly
  when no variable bound earlier occurs in what a later one is bound to. The code does not check
  this.
\<close>

fun scope_safe :: "(var \<times> expr) list \<Rightarrow> bool" where
  "scope_safe [] \<longleftrightarrow> True"
| "scope_safe ((v, e) # ves) \<longleftrightarrow>
     list_all (\<lambda>(w, f). var_name v \<notin> free_vars f) ves \<and> scope_safe ves"

definition let_safe :: "var list \<Rightarrow> expr \<Rightarrow> bool" where
  "let_safe vs r \<longleftrightarrow> vs \<noteq> [] \<and>
     (if is_literal_tuple r then length (children r) = length vs \<and> scope_safe (zip vs (children r))
      else (case r of
          Var x \<Rightarrow> var_name x \<notin> set (butlast (map var_name vs))
        | _ \<Rightarrow> list_all (\<lambda>x. \<not> starts_with ''temp_'' x) (butlast (map var_name vs))))"

fun untuple_safe :: "expr \<Rightarrow> bool" where
  "untuple_safe (Const _) \<longleftrightarrow> True"
| "untuple_safe (Var _) \<longleftrightarrow> True"
| "untuple_safe (Call _ as _) \<longleftrightarrow> (\<forall>a \<in> set as. untuple_safe a)"
| "untuple_safe (Lam _ _ b _) \<longleftrightarrow> untuple_safe b"
| "untuple_safe (LetE vs r b _) \<longleftrightarrow>
     untuple_safe r \<and> untuple_safe b \<and> (case vs of One _ \<Rightarrow> True | Many xs \<Rightarrow> let_safe xs r)"
| "untuple_safe (IfE c t f _) \<longleftrightarrow> untuple_safe c \<and> untuple_safe t \<and> untuple_safe f"
| "untuple_safe (Assert c b _) \<longleftrightarrow> untuple_safe c \<and> untuple_safe b"

lemma upds_case_nat: "upds \<rho> (x # xs) (case_nat u us) = upds (\<rho>(x := u)) xs us"
  by simp

lemma eval_nest_literal:
  "scope_safe ves \<Longrightarrow>
   eval A \<rho> (nest_literal ves body) =
   nest_lets A (map (eval A \<rho> \<circ> snd) ves) (\<lambda>us. eval A (upds \<rho> (map (var_name \<circ> fst) ves) us) body)"
proof (induction ves arbitrary: \<rho>)
  case (Cons ve ves)
  obtain v e where ve: "ve = (v, e)" by (cases ve)
  have vals: "map (eval A (\<rho>(var_name v := u)) \<circ> snd) ves = map (eval A \<rho> \<circ> snd) ves" for u
    using Cons.prems by (auto simp: ve list_all_iff intro!: eval_upd_notin)
  have "eval A (\<rho>(var_name v := u)) (nest_literal ves body) =
      nest_lets A (map (eval A \<rho> \<circ> snd) ves)
        (\<lambda>us. eval A (upds (\<rho>(var_name v := u)) (map (var_name \<circ> fst) ves) us) body)" for u
  proof -
    have "scope_safe ves" using Cons.prems by (simp add: ve)
    from Cons.IH [OF this, of "\<rho>(var_name v := u)"] show ?thesis by (simp only: vals)
  qed
  then show ?case
    by (simp only: ve nest_literal.simps eval.simps nest_lets.simps list.map comp_def fst_conv snd_conv
        upds_case_nat)
qed simp

lemma eval_nest_gets:
  "nest_gets (enumerate m vs) n (Var x) body = Inr b \<Longrightarrow>
   var_name x \<notin> set (butlast (map var_name vs)) \<Longrightarrow>
   eval A \<rho> b =
   nest_lets A (map (\<lambda>i. a_call A (get_name i n) [\<rho> (var_name x)]) [m..<m + length vs])
     (\<lambda>us. eval A (upds \<rho> (map var_name vs) us) body)"
proof (induction vs arbitrary: m b \<rho>)
  case (Cons v vs)
  from Cons.prems(1) obtain b' where b': "nest_gets (enumerate (Suc m) vs) n (Var x) body = Inr b'"
    and b: "b = LetE (One v) (Call (get_name m n) [Var x] None) b' None"
    by (auto simp: make_tuple_get_def)
  have up: "[m..<m + length (v # vs)] = m # [Suc m..<Suc m + length vs]"
    by (subst upt_conv_Cons) simp_all
  show ?case
  proof (cases vs)
    case Nil
    with b' have b'': "b' = body" by simp
    have up0: "[Suc m..<Suc m + length vs] = []" by (simp add: Nil)
    show ?thesis unfolding up up0
      by (simp only: b b'' Nil eval.simps nest_lets.simps list.map upds_case_nat) simp
  next
    case (Cons w ws)
    then have x: "var_name x \<noteq> var_name v" "var_name x \<notin> set (butlast (map var_name vs))"
      using Cons.prems(2) by auto
    have "eval A (\<rho>(var_name v := u)) b' =
      nest_lets A (map (\<lambda>i. a_call A (get_name i n) [\<rho> (var_name x)]) [Suc m..<Suc m + length vs])
        (\<lambda>us. eval A (upds (\<rho>(var_name v := u)) (map var_name vs) us) body)" for u
    proof -
      have "(\<rho>(var_name v := u)) (var_name x) = \<rho> (var_name x)" using x(1) by simp
      with Cons.IH [OF b' x(2), of "\<rho>(var_name v := u)"] show ?thesis by (simp only:)
    qed
    then show ?thesis unfolding up
      by (simp only: b eval.simps nest_lets.simps list.map upds_case_nat)
  qed
qed simp

lemma upds_other_agree:
  "x \<notin> X \<Longrightarrow> agree_on X (upds (\<rho>(x := v)) xs us) (upds \<rho> xs us)"
  by (rule agree_on_upds) (auto simp: agree_on_def)

lemma temp_not_bound:
  "list_all (\<lambda>x. \<not> starts_with ''temp_'' x) names \<Longrightarrow>
   var_name (make_nonfree_var ''temp'' es t) \<notin> set names"
  by (auto simp: list_all_iff make_nonfree_var_def candidate_def starts_with_iff)

context tuple_algebra
begin

lemma untuple_one_let_refines:
  assumes safe: "let_safe vs r" and e: "untuple_one_let (LetE (Many vs) r b t) = Inr e"
  shows "refines (LetE (Many vs) r b t) e"
proof (rule refinesI)
  fix \<rho>
  let ?h = "\<lambda>us. eval A (upds \<rho> (map var_name vs) us) b"
  have first: "first_values (length vs) ?h"
    using first_values_upds [of "map var_name vs" A \<rho> b] by simp
  show "le (eval A \<rho> (LetE (Many vs) r b t)) (eval A \<rho> e)"
  proof (cases "is_literal_tuple r")
    case True
    then obtain f as u where r: "r = Call f as u" "mangle_without_type f = ''tuple''"
      by (cases r) auto
    with e True have len: "length as = length vs" and e': "e = nest_literal (zip vs as) b" by auto
    have "map (eval A \<rho> \<circ> snd) (zip vs as) = map (eval A \<rho>) as"
      "map (var_name \<circ> fst) (zip vs as) = map var_name vs"
      using len by (metis map_map map_snd_zip, metis map_map map_fst_zip)
    then have "eval A \<rho> e = nest_lets A (map (eval A \<rho>) as) ?h"
      using eval_nest_literal [of "zip vs as" A \<rho> b] safe True by (simp add: e' r let_safe_def)
    moreover have "map (eval A \<rho>) as \<noteq> []" using safe len by (auto simp: let_safe_def)
    ultimately show ?thesis
      using lets_literal [OF r(2), of "map (eval A \<rho>) as" ?h] len first by (simp add: r)
  next
    case False
    have pos: "0 < length vs" using safe by (simp add: let_safe_def)
    show ?thesis
    proof (cases "\<exists>x. r = Var x")
      case True
      then obtain x where x: "r = Var x" ..
      with e False have "nest_gets (enumerate 1 vs) (length vs) (Var x) b = Inr e" by simp
      moreover have "var_name x \<notin> set (butlast (map var_name vs))"
        using safe x by (simp add: let_safe_def)
      ultimately have "eval A \<rho> e =
          nest_lets A (map (\<lambda>i. a_call A (get_name i (length vs)) [\<rho> (var_name x)]) [1..<Suc (length vs)]) ?h"
        using eval_nest_gets [of 1 vs "length vs" x b e A \<rho>] by simp
      then show ?thesis
        using le_trans [OF lets_get [OF pos first] let_body, of "\<rho> (var_name x)"] by (simp add: x)
    next
      case False': False
      let ?temp = "make_nonfree_var ''temp'' [r, b] None"
      from e False False' obtain b' where b': "nest_gets (enumerate 1 vs) (length vs) (Var ?temp) b = Inr b'"
        "e = LetE (One ?temp) r b' None"
        by (auto simp: Let_def split: expr.splits)
      have temp: "var_name ?temp \<notin> set (butlast (map var_name vs))"
        using safe False False' by (intro temp_not_bound) (auto simp: let_safe_def split: expr.splits)
      have "var_name ?temp \<notin> free_vars b" by (rule make_nonfree_var_fresh) simp
      then have "eval A (upds (\<rho>(var_name ?temp := u)) (map var_name vs) us) b = ?h us" for u us
        by (intro eval_cong upds_other_agree)
      then have "eval A (\<rho>(var_name ?temp := u)) b' =
          nest_lets A (map (\<lambda>i. a_call A (get_name i (length vs)) [u]) [1..<Suc (length vs)]) ?h" for u
        using eval_nest_gets [OF b'(1) temp, of A "\<rho>(var_name ?temp := u)"] by simp
      then show ?thesis using lets_get [OF pos first, of "eval A \<rho> r"] by (simp add: b'(2))
    qed
  qed
qed

end

text \<open>Untupling inside the bound expression keeps the condition.\<close>

lemma scope_safe_mono:
  "scope_safe (zip vs as) \<Longrightarrow> list_all2 (\<lambda>a b. free_vars b \<subseteq> free_vars a) as bs \<Longrightarrow>
   scope_safe (zip vs bs)"
proof (induction vs arbitrary: as bs)
  case (Cons v vs)
  show ?case
  proof (cases as)
    case Nil
    with Cons.prems show ?thesis by simp
  next
    case as: (Cons a as')
    with Cons.prems(2) obtain b bs' where bs: "bs = b # bs'" "list_all2 (\<lambda>a b. free_vars b \<subseteq> free_vars a) as' bs'"
      by (auto simp: list_all2_Cons1)
    have "list_all (\<lambda>(w, f). var_name v \<notin> free_vars f) (zip vs as')"
      using Cons.prems(1) as by simp
    then have "list_all (\<lambda>(w, f). var_name v \<notin> free_vars f) (zip vs bs')"
      using bs(2) by (fastforce simp: list_all_length list_all2_conv_all_nth)
    with Cons.IH [OF _ bs(2)] Cons.prems(1) as bs show ?thesis by simp
  qed
qed simp

lemma nest_literal_Cons: "ves \<noteq> [] \<Longrightarrow> \<exists>v e b. nest_literal ves body = LetE (One v) e b None"
  by (cases ves) auto

lemma untuple_one_let_is_let:
  assumes "untuple_one_let (LetE vs r b t) = Inr e" "case vs of One _ \<Rightarrow> True | Many xs \<Rightarrow> xs \<noteq> []"
  shows "\<exists>ws d c u. e = LetE ws d c u"
proof (cases vs)
  case (Many xs)
  with assms(2) have xs: "xs \<noteq> []" by simp
  then obtain y ys where ys: "xs = y # ys" by (cases xs) auto
  show ?thesis
  proof (cases "is_literal_tuple r")
    case True
    with assms(1) have "length (children r) = length xs" "e = nest_literal (zip xs (children r)) b"
      by (auto simp: Many)
    then show ?thesis using nest_literal_Cons [of "zip xs (children r)" b] xs
      by (metis length_0_conv length_zip min.idem)
  next
    case False
    with assms(1) show ?thesis
      by (auto simp: Many ys Let_def split: expr.splits)
  qed
qed (use assms in auto)

lemma untuple_lets_shape:
  assumes "untuple_lets r = Inr r'" "untuple_safe r"
  shows "case r of
      Var v \<Rightarrow> r' = Var v
    | Call f as t \<Rightarrow> \<exists>bs. r' = Call f bs t \<and> list_all2 (\<lambda>a b. free_vars b \<subseteq> free_vars a) as bs
    | _ \<Rightarrow> \<not> is_literal_tuple r' \<and> (\<forall>v. r' \<noteq> Var v)"
proof (cases r)
  case (Call f as t)
  with assms obtain bs where bs: "mapE (\<lambda>(i, a). untuple_lets a) (enumerate 0 as) = Inr bs" "r' = Call f bs t"
    by (auto simp: untuple_lets.simps [of "Call f as t"] mk_call_def)
  then show ?thesis
    using untuple_lets_fv by (auto simp: Call mapE_enumerate_Inr list_all2_conv_all_nth)
next
  case (LetE vs d b t)
  with assms(1) obtain d' b' where "untuple_one_let (LetE vs d' b' None) = Inr r'"
    by (auto simp: untuple_lets.simps [of "LetE vs d b t"] mk_let_def split: if_splits)
  moreover have "case vs of One _ \<Rightarrow> True | Many xs \<Rightarrow> xs \<noteq> []"
    using assms(2) by (auto simp: LetE let_safe_def split: binders.splits)
  ultimately show ?thesis using untuple_one_let_is_let LetE by fastforce
qed (use assms in \<open>auto simp: untuple_lets_nodes\<close>)

lemma let_safe_untuple:
  "let_safe vs r \<Longrightarrow> untuple_lets r = Inr r' \<Longrightarrow> untuple_safe r \<Longrightarrow> let_safe vs r'"
  using untuple_lets_shape [of r r'] scope_safe_mono
  by (cases r) (auto simp: let_safe_def dest: list_all2_lengthD split: expr.splits if_splits)

context tuple_algebra
begin

lemma untuple_lets_refines: "untuple_lets e = Inr e' \<Longrightarrow> untuple_safe e \<Longrightarrow> refines e e'"
proof (induction e arbitrary: e')
  case (Call f as t)
  then obtain bs where bs: "mapE (\<lambda>(i, a). untuple_lets a) (enumerate 0 as) = Inr bs" "e' = Call f bs t"
    by (auto simp: untuple_lets.simps [of "Call f as t"] mk_call_def)
  have "list_all2 refines as bs"
    using bs(1) Call.IH Call.prems(2) by (auto simp: mapE_enumerate_Inr list_all2_conv_all_nth)
  with bs(2) show ?case by (simp add: refines_call)
next
  case (LetE vs r b t)
  then obtain r' b' where r': "untuple_lets r = Inr r'" and b': "untuple_lets b = Inr b'"
    and e': "untuple_one_let (LetE vs r' b' None) = Inr e'"
    by (auto simp: untuple_lets.simps [of "LetE vs r b t"] mk_let_def split: if_splits)
  have ref: "refines (LetE vs r b t) (LetE vs r' b' None)"
    using LetE.IH(1) [OF r'] LetE.IH(2) [OF b'] LetE.prems(2) by (intro refines_let) auto
  show ?case
  proof (cases vs)
    case (One x)
    with e' ref show ?thesis by auto
  next
    case (Many xs)
    then have "let_safe xs r'"
      using LetE.prems(2) let_safe_untuple [OF _ r'] by simp
    with refines_trans [OF ref] untuple_one_let_refines e' Many show ?thesis by blast
  qed
next
  case (Lam x s b t)
  then show ?case by (auto simp: untuple_lets.simps [of "Lam x s b t"] intro: refines_lam)
next
  case (IfE c d f t)
  then show ?case by (auto simp: untuple_lets.simps [of "IfE c d f t"] intro!: refines_if)
next
  case (Assert c d t)
  then show ?case by (auto simp: untuple_lets.simps [of "Assert c d t"] intro!: refines_assert)
next
  case (Const c)
  then show ?case by (simp add: untuple_lets.simps [of "Const c"] refines_refl)
next
  case (Var v)
  then show ?case by (simp add: untuple_lets.simps [of "Var v"] refines_refl)
qed

end

section \<open>Success\<close>

lemma nest_gets_total:
  "\<forall>(i, v) \<in> set ivs. 1 \<le> i \<and> i \<le> n \<Longrightarrow> \<exists>b. nest_gets ivs n temp body = Inr b"
  by (induction ivs n temp body rule: nest_gets.induct) (auto simp: make_tuple_get_def)

lemma enumerate_bounds: "\<forall>(i, v) \<in> set (enumerate 1 vs). 1 \<le> i \<and> i \<le> length vs"
  by (auto simp: in_set_enumerate_eq)

lemma untuple_one_let_total:
  "let_safe vs r \<Longrightarrow> \<exists>e. untuple_one_let (LetE (Many vs) r b t) = Inr e"
proof -
  assume safe: "let_safe vs r"
  have gets: "\<exists>b'. nest_gets (enumerate 1 vs) (length vs) temp b = Inr b'" for temp
    by (rule nest_gets_total [OF enumerate_bounds])
  show ?thesis
  proof (cases "is_literal_tuple r")
    case False
    then show ?thesis
      using gets by (cases r) (auto simp: Let_def bindE_eq_Inr)
  qed (use safe in \<open>simp add: let_safe_def\<close>)
qed

lemma untuple_lets_total: "untuple_safe e \<Longrightarrow> \<exists>e'. untuple_lets e = Inr e'"
proof (induction e)
  case (Call f as t)
  then have "\<exists>bs. mapE (\<lambda>(i, a). untuple_lets a) (enumerate 0 as) = Inr bs"
    by (simp add: mapE_ex_Inr Ball_def in_enumerate_iff del: in_enumerate_iff) (auto simp: in_set_enumerate_eq)
  then show ?case by (auto simp: untuple_lets_nodes)
next
  case (LetE vs r b t)
  then obtain r' b' where r': "untuple_lets r = Inr r'" "untuple_lets b = Inr b'" by auto
  show ?case
  proof (cases vs)
    case (Many xs)
    then have safe: "let_safe xs r'"
      using LetE.prems let_safe_untuple [OF _ r'(1)] by simp
    then have "xs \<noteq> []" by (simp add: let_safe_def)
    with untuple_one_let_total [OF safe] r' show ?thesis
      by (simp add: untuple_lets_nodes mk_let_def Many)
  qed (use r' in \<open>simp add: untuple_lets_nodes mk_let_def\<close>)
qed (auto simp: untuple_lets_nodes)

section \<open>Properties\<close>

text \<open>
  C22: The result of \<open>untuple_lets\<close> binds no tuple, and has no free variable the expression does not
  have.
\<close>

theorem untuple_lets_result:
  assumes "untuple_lets e = Inr e'"
  shows "is_untupled e' \<and> free_vars e' \<subseteq> free_vars e"
  using untuple_lets_untupled [OF assms] untuple_lets_fv [OF assms] by blast

definition swap_let :: expr where
  "swap_let = LetE (Many [MkVar ''a'' None, MkVar ''b'' None])
     (Call (SName ''tuple'') [Var (MkVar ''b'' None), Var (MkVar ''a'' None)] None)
     (Call (SName ''sub'') [Var (MkVar ''a'' None), Var (MkVar ''b'' None)] None) None"

definition swap_untupled :: expr where
  "swap_untupled = LetE (One (MkVar ''a'' None)) (Var (MkVar ''b'' None))
     (LetE (One (MkVar ''b'' None)) (Var (MkVar ''a'' None))
       (Call (SName ''sub'') [Var (MkVar ''a'' None), Var (MkVar ''b'' None)] None) None) None"

theorem untuple_lets_result_witness:
  "untuple_lets swap_let = Inr swap_untupled \<and> is_untupled swap_untupled"
proof -
  have "untuple_lets swap_let = Inr swap_untupled"
    by (simp add: swap_let_def swap_untupled_def untuple_lets_nodes mk_let_def)
  with untuple_lets_result [OF this] show ?thesis by blast
qed

end
