(* ===== verification/Prim.thy ===== *)
theory Prim
  imports KsExpr
begin

text \<open>
  The result types of the primitives, \<open>src/python/ksc/prim.py\<close>. \<open>prim_lookup\<close> returns \<open>None\<close> for
  a name that is not a primitive; a failing \<open>assert\<close> and a raised exception are error values.
\<close>

section \<open>The name of a component\<close>

text \<open>The full match of \<open>get\$(\d+)\$(\d+)\<close>, with the two numbers read.\<close>

definition get_indices :: "string \<Rightarrow> (nat \<times> nat) option" where
  "get_indices name =
     (let rest = drop 4 name; ds = takeWhile is_digit rest; tail = dropWhile is_digit rest
      in if starts_with ''get$'' name \<and> ds \<noteq> [] \<and> starts_with ''$'' tail \<and> tl tail \<noteq> [] \<and>
            list_all is_digit (tl tail)
         then Some (str_nat ds, str_nat (tl tail)) else None)"

section \<open>The table of primitives\<close>

text \<open>The arguments of a primitive: the elements of a tuple type, or the one type.\<close>

definition arg_list :: "ty \<Rightarrow> ty list" where
  "arg_list argtype = (case argtype of Tuple ts \<Rightarrow> ts | _ \<Rightarrow> [argtype])"

definition is_tensor_of :: "ty \<Rightarrow> ty \<Rightarrow> bool" where
  "is_tensor_of t u \<longleftrightarrow> (case t of Tensor _ elem \<Rightarrow> type_eq elem u | _ \<Rightarrow> False)"

definition rank_of_size :: "ty \<Rightarrow> int result" where
  "rank_of_size sty =
     (case SizeType_get_rank sty of None \<Rightarrow> Inl AssertionError | Some r \<Rightarrow> Inr r)"

definition prim1 :: "string \<Rightarrow> ty \<Rightarrow> ty option result" where
  "prim1 name t =
     (if name = ''size'' then bindE (tensor_rank t) (\<lambda>r. Inr (Some (SizeType_from_rank r)))
      else if name = ''shape'' then bindE (shape_type t) (\<lambda>s. Inr (Some s))
      else if name = ''sum'' \<and> is_tensor t then bindE (tensor_elem_type t) (\<lambda>e. Inr (Some e))
      else Inr None)"

definition prim2 :: "string \<Rightarrow> ty \<Rightarrow> ty \<Rightarrow> ty option result" where
  "prim2 name t u =
     (if name = ''index'' then
        bindE (tensor_rank u) (\<lambda>r.
        bindE (assertE (type_eq t (SizeType_from_rank r))) (\<lambda>_.
        bindE (tensor_elem_type u) (\<lambda>e. Inr (Some e))))
      else if name = ''build'' then
        bindE (lam_arg_type u) (\<lambda>a.
        bindE (assertE (type_eq a t)) (\<lambda>_.
        bindE (rank_of_size t) (\<lambda>rank.
        bindE (lam_return_type u) (\<lambda>e. Inr (Some (Tensor rank e))))))
      else if name = ''sumbuild'' then
        bindE (lam_arg_type u) (\<lambda>a.
        bindE (assertE (type_eq a t)) (\<lambda>_.
        bindE (lam_return_type u) (\<lambda>e. Inr (Some e))))
      else if name = ''constVec'' then
        bindE (rank_of_size t) (\<lambda>rank. Inr (Some (Tensor rank u)))
      else if name = ''map'' then
        bindE (assertE (is_lam_or_LM t)) (\<lambda>_.
        bindE (lam_arg_type t) (\<lambda>tyS.
        bindE (lam_return_type t) (\<lambda>tyT.
        bindE (assertE (is_tensor_of u tyS)) (\<lambda>_.
        bindE (tensor_rank u) (\<lambda>rank. Inr (Some (Tensor rank tyT)))))))
      else if name \<in> set [''eq'', ''ne'', ''lt'', ''gt'', ''lte'', ''gte''] then
        bindE (assertE (type_eq t u)) (\<lambda>_. Inr (Some Bool))
      else if name = ''ts_add'' then Inr (Some t)
      else if name = ''ts_dot'' then bindE (assertE (type_eq t u)) (\<lambda>_. Inr (Some Float))
      else if name = ''ts_scale'' then bindE (assertE (type_eq t Float)) (\<lambda>_. Inr (Some u))
      else Inr None)"

definition prim3 :: "string \<Rightarrow> ty \<Rightarrow> ty \<Rightarrow> ty \<Rightarrow> ty option result" where
  "prim3 name t u v =
     (if name = ''deltaVec'' then
        bindE (assertE (type_eq t u)) (\<lambda>_.
        bindE (rank_of_size t) (\<lambda>rank. Inr (Some (Tensor rank v))))
      else if name = ''fold'' then
        bindE (assertE (is_lam_or_LM t)) (\<lambda>_.
        bindE (lam_arg_type t) (\<lambda>a.
        bindE (tuple_len a) (\<lambda>n.
        bindE (assertE (n = 2)) (\<lambda>_.
        bindE (tuple_elem a 0) (\<lambda>tyState.
        bindE (tuple_elem a 1) (\<lambda>tyT.
        bindE (lam_return_type t) (\<lambda>ret.
        bindE (assertE (type_eq ret tyState)) (\<lambda>_.
        bindE (assertE (type_eq u tyState)) (\<lambda>_.
        bindE (assertE (is_tensor_of v tyT)) (\<lambda>_. Inr (Some tyState)))))))))))
      else Inr None)"

text \<open>The primitives told apart by name and number of arguments; \<open>print\<close> takes any number.\<close>

definition prim_by_count :: "string \<Rightarrow> ty list \<Rightarrow> ty option result" where
  "prim_by_count name tys =
     bindE (case tys of
         [t] \<Rightarrow> prim1 name t
       | [t, u] \<Rightarrow> prim2 name t u
       | [t, u, v] \<Rightarrow> prim3 name t u v
       | _ \<Rightarrow> Inr None) (\<lambda>r.
     Inr (if r = None \<and> name = ''print'' then Some Integer else r))"

definition vec_init_type :: "ty list \<Rightarrow> ty option result" where
  "vec_init_type tys =
     (case tys of
        [] \<Rightarrow> Inr (Some (Tensor 1 Float))
      | t # _ \<Rightarrow> bindE (assertE (list_all (\<lambda>u. type_eq u t) tys)) (\<lambda>_. Inr (Some (Tensor 1 t))))"

definition prim_lookup :: "sname \<Rightarrow> ty \<Rightarrow> ty option result" where
  "prim_lookup sn argtype =
     (let tys = arg_list argtype; name = mangle_without_type sn in
      if name = ''tuple'' then Inr (Some (Tuple tys))
      else if starts_with ''get$'' name \<and> \<not> is_tuple argtype then Inl AssertionError
      else (case get_indices name of
          Some (i, mx) \<Rightarrow>
            bindE (tuple_len argtype) (\<lambda>len.
            bindE (assertE (len = mx)) (\<lambda>_.
            bindE (tuple_elem argtype (int i - 1)) (\<lambda>t. Inr (Some t))))
        | None \<Rightarrow>
            if name = ''Vec_init'' then vec_init_type tys
            else prim_by_count name tys))"

text \<open>\<open>make_prim_call\<close>\<close>

definition make_prim_call :: "sname \<Rightarrow> expr list \<Rightarrow> expr result" where
  "make_prim_call sn elems =
     bindE (mapE (\<lambda>e. case type_of e of Some t \<Rightarrow> Inr t | None \<Rightarrow> Inl AssertionError) elems) (\<lambda>ts.
     bindE (prim_lookup sn (Tuple ts)) (\<lambda>r.
     case r of None \<Rightarrow> Inl AssertionError | Some t \<Rightarrow> Inr (Call sn elems (Some t))))"

text \<open>Adding a type to a name does not change what primitive it names.\<close>

lemma prim_lookup_typed: "prim_lookup (fst (add_type sn t)) argtype = prim_lookup sn argtype"
  by (simp add: prim_lookup_def add_type_mangle)

lemma get_indices_get: "get_indices (''get$'' @ nat_str i @ ''$'' @ nat_str n) = Some (i, n)"
proof -
  have "\<not> is_digit (CHR ''$'')" by (simp add: is_digit_def)
  moreover have "\<forall>c \<in> set (nat_str i). is_digit c" "list_all is_digit (nat_str n)"
    using nat_str_digits by (auto simp: list_all_iff)
  ultimately have
    "takeWhile is_digit (nat_str i @ CHR ''$'' # nat_str n) = nat_str i"
    "dropWhile is_digit (nat_str i @ CHR ''$'' # nat_str n) = CHR ''$'' # nat_str n"
    by (simp_all add: takeWhile_append2 dropWhile_append2)
  with \<open>list_all is_digit (nat_str n)\<close> show ?thesis
    by (simp add: get_indices_def starts_with_def Let_def)
qed

section \<open>Properties\<close>

text \<open>
  The types of \<open>tuple\<close> and \<open>get$i$n\<close> fit together: a component of a tuple of the given
  expressions has the type of that expression, and a component outside the tuple is refused, but
  for \<open>get$0$n\<close>, which names the last component (\<open>-1\<close> is an index in Python).
\<close>

theorem get_of_tuple_type:
  assumes "ts \<noteq> []"
  shows "prim_lookup (SName ''tuple'') (Tuple ts) = Inr (Some (Tuple ts)) \<and>
    prim_lookup (SName (''get$'' @ nat_str i @ ''$'' @ nat_str n)) (Tuple ts) =
      (if length ts \<noteq> n then Inl AssertionError
       else if i = 0 then Inr (Some (last ts))
       else if i \<le> n then Inr (Some (ts ! (i - 1)))
       else Inl IndexError)"
proof -
  have "py_index ts (int i - 1) =
      (if i = 0 then Inr (last ts) else if i \<le> length ts then Inr (ts ! (i - 1)) else Inl IndexError)"
    using assms by (cases i) (auto simp: py_index_def last_conv_nth Suc_le_eq)
  then show ?thesis
    using get_indices_get [of i n]
    by (simp add: prim_lookup_def arg_list_def Let_def starts_with_def tuple_len_def tuple_elem_def)
qed

theorem get_of_tuple_type_witness:
  "prim_lookup (SName ''get$2$2'') (Tuple [Float, Integer]) = Inr (Some Integer)"
proof -
  have "nat_str 2 = ''2''" by code_simp
  with get_of_tuple_type [of "[Float, Integer]" 2 2] show ?thesis by simp
qed

end
