(* ===== verification/TypePropagate.thy ===== *)
theory TypePropagate
  imports Prim KsPystr
begin

text \<open>
  Type propagation, \<open>src/python/ksc/type_propagate.py\<close>. The code fills the \<open>type_\<close> fields of an
  expression in place; the model returns the expression with its types filled. A symbol table is a
  dictionary whose keys are the names of variables and the structured names of functions, and whose
  values are types or \<open>None\<close>. An expression works on copies of the table, a definition updates it.
\<close>

section \<open>Names and their argument types\<close>

datatype symkey = KVar string | KName sname

type_synonym symtab = "symkey \<rightharpoonup> ty option"

text \<open>\<open>make_tuple_if_many\<close> of inferred types: \<open>Type.Tuple\<close> asserts that its arguments are types.\<close>

definition make_tuple_opt :: "ty option list \<Rightarrow> ty option result" where
  "make_tuple_opt ts =
     (case ts of
        [t] \<Rightarrow> Inr t
      | _ \<Rightarrow> bindE (mapE (\<lambda>t. case t of Some u \<Rightarrow> Inr u | None \<Rightarrow> Inl AssertionError) ts) (\<lambda>us.
          Inr (Some (Tuple us))))"

fun infer_fn_type_from_derived_fn_args :: "sname \<Rightarrow> ty option \<Rightarrow> ty option result" where
  "infer_fn_type_from_derived_fn_args (SDerived d sn) argtype =
     (if d = ''rev'' \<or> d = ''fwd'' then
        (case argtype of
           None \<Rightarrow> Inl AttributeError
         | Some a \<Rightarrow> bindE (tuple_elem a 0) (\<lambda>s. infer_fn_type_from_derived_fn_args sn (Some s)))
      else if d = ''D'' \<or> d = ''shape'' \<or> d = ''suffwdpass'' then
        infer_fn_type_from_derived_fn_args sn argtype
      else Inr (get_type (SDerived d sn)))"
| "infer_fn_type_from_derived_fn_args (STyped s t) argtype = Inr (Some t)"
| "infer_fn_type_from_derived_fn_args (SName s) argtype = Inr argtype"

definition add_type_to_sname :: "sname \<Rightarrow> ty option \<Rightarrow> sname result" where
  "add_type_to_sname sn argtype =
     bindE (if is_derivation sn then infer_fn_type_from_derived_fn_args sn argtype else Inr argtype) (\<lambda>fn_type.
     case fn_type of
       None \<Rightarrow> Inl KSTypeError
     | Some t \<Rightarrow>
         (let (sn', old_ty) = add_type sn t
          in case old_ty of
               Some old \<Rightarrow> if type_eq old t then Inr sn' else Inl KSTypeError
             | None \<Rightarrow> Inr sn'))"

section \<open>Expressions\<close>

text \<open>
  A call that is found nowhere prints what could help, and this may itself raise: the mangled name
  may not exist, \<open>argtypes[0]\<close> is out of range for a call without arguments, and not every type
  has a tangent type. How a float prints is of no consequence here.
\<close>

definition unknown_call :: "expr \<Rightarrow> ty list \<Rightarrow> expr result" where
  "unknown_call ex argtypes =
     bindE (pystr (\<lambda>_. []) ex 2) (\<lambda>_.
     bindE (if 1 < length argtypes then Inr (Tuple argtypes)
            else (case argtypes of [] \<Rightarrow> Inl IndexError | t # _ \<Rightarrow> Inr t)) (\<lambda>argtype_tuple.
     bindE (tangent_type argtype_tuple) (\<lambda>_. Inl KSTypeError)))"

definition propagate_call :: "symtab \<Rightarrow> sname \<Rightarrow> expr list \<Rightarrow> expr result" where
  "propagate_call symtab f args =
     bindE (make_tuple_opt (map type_of args)) (\<lambda>argtype.
     case argtype of
       None \<Rightarrow> Inl AttributeError
     | Some a \<Rightarrow>
         bindE (prim_lookup f a) (\<lambda>prim.
         case prim of
           Some t \<Rightarrow> Inr (Call f args (Some t))
         | None \<Rightarrow>
             bindE (add_type_to_sname f (Some a)) (\<lambda>f'.
             case symtab (KName f') of
               Some t \<Rightarrow> Inr (Call f' args t)
             | None \<Rightarrow> unknown_call (Call f' args None) (map (the \<circ> type_of) args))))"

text \<open>The variables of a tupled \<open>let\<close>, numbered, with the types of the components.\<close>

fun component_types :: "ty option \<Rightarrow> (nat \<times> var) list \<Rightarrow> var list result" where
  "component_types rhs [] = Inr []"
| "component_types rhs ((i, v) # ivs) =
     bindE (case rhs of None \<Rightarrow> Inr None | Some t \<Rightarrow> bindE (tuple_elem t (int i)) (\<lambda>u. Inr (Some u))) (\<lambda>u.
     bindE (component_types rhs ivs) (\<lambda>vs. Inr (MkVar (var_name v) u # vs)))"

definition bind_vars :: "symtab \<Rightarrow> var list \<Rightarrow> symtab" where
  "bind_vars symtab vs = foldl (\<lambda>st v. st(KVar (var_name v) \<mapsto> var_type v)) symtab vs"

definition propagate_binders :: "binders \<Rightarrow> ty option \<Rightarrow> binders result" where
  "propagate_binders vs rhs =
     (case vs of
        One v \<Rightarrow> Inr (One (MkVar (var_name v) rhs))
      | Many ws \<Rightarrow>
          bindE (case rhs of None \<Rightarrow> Inr () | Some t \<Rightarrow>
              bindE (tuple_len t) (\<lambda>n. assertE (length ws = n))) (\<lambda>_.
          bindE (component_types rhs (enumerate 0 ws)) (\<lambda>ws'. Inr (Many ws'))))"

definition opt_type_eq :: "ty option \<Rightarrow> ty option \<Rightarrow> bool" where
  "opt_type_eq t u \<longleftrightarrow>
     (case (t, u) of (Some t, Some u) \<Rightarrow> type_eq t u | (None, None) \<Rightarrow> True | _ \<Rightarrow> False)"

text \<open>\<open>respect\<close> is \<open>respect_existing\<close>: an expression that has a type is left alone.\<close>

fun type_propagate :: "bool \<Rightarrow> symtab \<Rightarrow> expr \<Rightarrow> expr result" where
  "type_propagate respect st (Const c) = Inr (Const c)"
| "type_propagate respect st (Var v) =
     (if respect \<and> var_type v \<noteq> None then Inr (Var v)
      else (case st (KVar (var_name v)) of
              None \<Rightarrow> Inl KSTypeError
            | Some t \<Rightarrow> Inr (Var (MkVar (var_name v) t))))"
| "type_propagate respect st (Call f args t) =
     (if respect \<and> t \<noteq> None then Inr (Call f args t)
      else bindE (mapE (type_propagate respect st) args) (propagate_call st f))"
| "type_propagate respect st (Lam x s b t) =
     (if respect \<and> t \<noteq> None then Inr (Lam x s b t)
      else bindE (type_propagate respect (st(KVar x \<mapsto> Some s)) b) (\<lambda>b'.
           case type_of b' of
             None \<Rightarrow> Inl AssertionError
           | Some u \<Rightarrow> Inr (Lam x s b' (Some (LamT s u)))))"
| "type_propagate respect st (LetE vs r b t) =
     (if respect \<and> t \<noteq> None then Inr (LetE vs r b t)
      else bindE (type_propagate respect st r) (\<lambda>r'.
           bindE (propagate_binders vs (type_of r')) (\<lambda>vs'.
           bindE (type_propagate respect (bind_vars st (binder_vars vs')) b) (\<lambda>b'.
           Inr (LetE vs' r' b' (type_of b'))))))"
| "type_propagate respect st (IfE c d e t) =
     (if respect \<and> t \<noteq> None then Inr (IfE c d e t)
      else bindE (type_propagate respect st c) (\<lambda>c'.
           bindE (assertE (opt_type_eq (type_of c') (Some Bool))) (\<lambda>_.
           bindE (type_propagate respect st d) (\<lambda>d'.
           bindE (type_propagate respect st e) (\<lambda>e'.
           bindE (assertE (opt_type_eq (type_of d') (type_of e'))) (\<lambda>_.
           Inr (IfE c' d' e' (type_of d'))))))))"
| "type_propagate respect st (Assert c b t) =
     (if respect \<and> t \<noteq> None then Inr (Assert c b t)
      else bindE (type_propagate respect st c) (\<lambda>c'.
           bindE (assertE (opt_type_eq (type_of c') (Some Bool))) (\<lambda>_.
           bindE (type_propagate respect st b) (\<lambda>b'.
           Inr (Assert c' b' (type_of b'))))))"

section \<open>Definitions\<close>

text \<open>
  A \<open>KSTypeError\<close> from the body of a definition is raised again with more text. A declared return
  type enters the table before the body is examined, an inferred one after.
\<close>

definition propagate_def :: "bool \<Rightarrow> symtab \<Rightarrow> sname \<Rightarrow> ty option \<Rightarrow> var list \<Rightarrow> expr \<Rightarrow> (tld \<times> symtab) result" where
  "propagate_def respect symtab name ret args body =
     bindE (make_tuple_opt (map var_type args)) (\<lambda>argtype.
     bindE (add_type_to_sname name argtype) (\<lambda>name'.
     bindE (case symtab (KName name') of None \<Rightarrow> Inr ()
            | Some old \<Rightarrow> raise_unless KSTypeError (opt_type_eq old ret)) (\<lambda>_.
     let st = (if ret \<noteq> None then symtab(KName name' \<mapsto> ret) else symtab)
     in bindE (type_propagate respect (bind_vars st args) body) (\<lambda>body'.
        if ret \<noteq> None then
          bindE (raise_unless KSTypeError (opt_type_eq ret (type_of body'))) (\<lambda>_.
          Inr (Def name' ret args body', st))
        else Inr (Def name' (type_of body') args body', st(KName name' \<mapsto> type_of body'))))))"

fun type_propagate_tld :: "bool \<Rightarrow> symtab \<Rightarrow> tld \<Rightarrow> (tld \<times> symtab) result" where
  "type_propagate_tld respect symtab (Def name ret args body) =
     propagate_def respect symtab name ret args body"
| "type_propagate_tld respect symtab (EDef name ret arg) =
     bindE (add_type_to_sname name arg) (\<lambda>name'.
     bindE (case symtab (KName name') of None \<Rightarrow> Inr ()
            | Some old \<Rightarrow> raise_unless KSTypeError (opt_type_eq old ret)) (\<lambda>_.
     Inr (EDef name' ret arg, symtab(KName name' \<mapsto> ret))))"
| "type_propagate_tld respect symtab (GDef derivation function_name) =
     (let signature = SDerived derivation function_name
      in bindE (case symtab (KName signature) of None \<Rightarrow> Inr ()
            | Some old \<Rightarrow> raise_unless KSTypeError (opt_type_eq old None)) (\<lambda>_.
         Inr (GDef derivation function_name, symtab(KName signature \<mapsto> None))))"
| "type_propagate_tld respect symtab (Rule name vs template replacement) =
     (let local = bind_vars symtab vs
      in bindE (type_propagate respect local template) (\<lambda>t.
         bindE (type_propagate respect local replacement) (\<lambda>r.
         Inr (Rule name vs t r, symtab))))"

fun type_propagate_decls :: "symtab \<Rightarrow> tld list \<Rightarrow> (tld list \<times> symtab) result" where
  "type_propagate_decls symtab [] = Inr ([], symtab)"
| "type_propagate_decls symtab (d # ds) =
     bindE (type_propagate_tld False symtab d) (\<lambda>(d', st).
     bindE (type_propagate_decls st ds) (\<lambda>(ds', st').
     Inr (d' # ds', st')))"

lemma opt_type_eq_iff [simp]: "opt_type_eq t u \<longleftrightarrow> t = u"
  by (auto simp: opt_type_eq_def split: option.splits)

section \<open>What propagation keeps\<close>

text \<open>An expression without its inferred types, its names passed through \<open>g\<close>.\<close>

fun forget :: "(sname \<Rightarrow> sname) \<Rightarrow> expr \<Rightarrow> expr" where
  "forget g (Const c) = Const c"
| "forget g (Var v) = Var (MkVar (var_name v) None)"
| "forget g (Call f as _) = Call (g f) (map (forget g) as) None"
| "forget g (Lam x s b _) = Lam x s (forget g b) None"
| "forget g (LetE vs r b _) = LetE (untyped_binders vs) (forget g r) (forget g b) None"
| "forget g (IfE c d e _) = IfE (forget g c) (forget g d) (forget g e) None"
| "forget g (Assert c b _) = Assert (forget g c) (forget g b) None"

abbreviation untype :: "expr \<Rightarrow> expr" where
  "untype \<equiv> forget (\<lambda>f. f)"

fun strip_type :: "sname \<Rightarrow> sname" where
  "strip_type (SName s) = SName s"
| "strip_type (SDerived d sn) = SDerived d (strip_type sn)"
| "strip_type (STyped s _) = SName s"

lemma strip_add_type [simp]: "strip_type (fst (add_type sn t)) = strip_type sn"
  by (induction sn) (auto split: prod.splits)

lemma binder_names_untyped [simp]: "binder_names (untyped_binders vs) = binder_names vs"
  by (cases vs) simp_all

lemma untyped_binders_Many: "(case untyped_binders vs of One _ \<Rightarrow> True | Many _ \<Rightarrow> False) = (case vs of One _ \<Rightarrow> True | Many _ \<Rightarrow> False)"
  by (cases vs) simp_all

lemma free_vars_forget [simp]: "free_vars (forget g e) = free_vars e"
  by (induction e) auto

lemma is_untupled_forget [simp]: "is_untupled (forget g e) = is_untupled e"
  by (induction e) (auto simp: untyped_binders_Many)

lemma forget_forget: "(\<And>f. h (g f) = h f) \<Longrightarrow> forget h (forget g e) = forget h e"
proof (induction e)
  case (LetE vs r b t)
  then show ?case by (cases vs) simp_all
qed simp_all

lemma add_type_to_sname_Inr:
  "add_type_to_sname sn a = Inr sn' \<longleftrightarrow>
   (\<exists>t. (if is_derivation sn then infer_fn_type_from_derived_fn_args sn a else Inr a) = Inr (Some t) \<and>
     (get_type sn = None \<or> get_type sn = Some t) \<and> sn' = fst (add_type sn t))"
proof -
  let ?infer = "if is_derivation sn then infer_fn_type_from_derived_fn_args sn a else Inr a"
  have step: "(case add_type sn t of (sn', old_ty) \<Rightarrow>
      (case old_ty of Some old \<Rightarrow> if old = t then Inr sn' else Inl KSTypeError | None \<Rightarrow> Inr sn')) = Inr sn' \<longleftrightarrow>
    (get_type sn = None \<or> get_type sn = Some t) \<and> sn' = fst (add_type sn t)" for t
    using add_type_old [of sn t] by (cases "add_type sn t") (auto split: option.split)
  show ?thesis
  proof (cases ?infer)
    case (Inr ft)
    with step show ?thesis by (cases ft) (simp_all add: add_type_to_sname_def Let_def)
  qed (simp add: add_type_to_sname_def)
qed

lemma infer_add_type:
  "infer_fn_type_from_derived_fn_args sn a = Inr (Some t) \<Longrightarrow>
   infer_fn_type_from_derived_fn_args (fst (add_type sn t)) a = Inr (Some t)"
proof (induction sn arbitrary: a)
  case (SDerived d sn)
  obtain sn' old where at: "add_type sn t = (sn', old)" by force
  then have "get_type sn' = Some t" using add_type_new [of sn t] by simp
  with SDerived at show ?case by (auto simp: bindE_eq_Inr split: if_splits option.splits)
qed simp_all

lemma is_derivation_add_type [simp]: "is_derivation (fst (add_type sn t)) = is_derivation sn"
  by (cases sn) (auto split: prod.splits)

text \<open>A name that has been given its type gets the same type again.\<close>

lemma add_type_to_sname_idem:
  "add_type_to_sname sn a = Inr sn' \<Longrightarrow> add_type_to_sname sn' a = Inr sn'"
proof -
  assume "add_type_to_sname sn a = Inr sn'"
  then obtain t where t: "(if is_derivation sn then infer_fn_type_from_derived_fn_args sn a else Inr a) = Inr (Some t)"
    "sn' = fst (add_type sn t)"
    unfolding add_type_to_sname_Inr by blast
  then have "(if is_derivation sn' then infer_fn_type_from_derived_fn_args sn' a else Inr a) = Inr (Some t)"
    using infer_add_type by (auto split: if_splits)
  then show ?thesis
    unfolding add_type_to_sname_Inr by (simp add: t(2) add_type_new add_type_add_type)
qed

lemma add_type_to_sname_strip: "add_type_to_sname sn a = Inr sn' \<Longrightarrow> strip_type sn' = strip_type sn"
  by (auto simp: add_type_to_sname_Inr)

section \<open>The binders of a let\<close>

definition binders_typed :: "binders \<Rightarrow> ty option \<Rightarrow> bool" where
  "binders_typed vs rhs \<longleftrightarrow>
     (case vs of
        One v \<Rightarrow> var_type v = rhs
      | Many ws \<Rightarrow>
          (case rhs of None \<Rightarrow> \<forall>w \<in> set ws. var_type w = None
           | Some t \<Rightarrow> \<exists>ts. t = Tuple ts \<and> map var_type ws = map Some ts))"

lemma component_types_None:
  "component_types None (enumerate k ws) = Inr (map (\<lambda>w. MkVar (var_name w) None) ws)"
  by (induction ws arbitrary: k) simp_all

lemma component_types_Tuple:
  "k + length ws \<le> length ts \<Longrightarrow>
   component_types (Some (Tuple ts)) (enumerate k ws) =
   Inr (map2 (\<lambda>w t. MkVar (var_name w) (Some t)) ws (take (length ws) (drop k ts)))"
proof (induction ws arbitrary: k)
  case (Cons w ws)
  then have "drop k ts = ts ! k # drop (Suc k) ts" by (simp add: Cons_nth_drop_Suc)
  with Cons show ?case by (simp add: tuple_elem_def py_index_def)
qed simp

lemma var_eq_iff: "MkVar x t = w \<longleftrightarrow> var_name w = x \<and> var_type w = t"
  by (cases w) auto

lemma untyped_map_None_iff:
  "map (\<lambda>w. MkVar (var_name w) None) ws = ws' \<longleftrightarrow>
   map var_name ws = map var_name ws' \<and> (\<forall>w \<in> set ws'. var_type w = None)"
proof (induction ws arbitrary: ws')
  case (Cons w ws)
  then show ?case by (cases ws') (auto simp: var_eq_iff)
qed auto

lemma typed_map_iff:
  "length ws = length ts \<Longrightarrow>
   map2 (\<lambda>w t. MkVar (var_name w) (Some t)) ws ts = ws' \<longleftrightarrow>
   map var_name ws = map var_name ws' \<and> map var_type ws' = map Some ts"
proof (induction ws ts arbitrary: ws' rule: list_induct2)
  case (Cons w ws t ts)
  then show ?case by (cases ws') (auto simp: var_eq_iff)
qed auto

lemma propagate_binders_iff:
  "propagate_binders vs rhs = Inr vs' \<longleftrightarrow>
   untyped_binders vs = untyped_binders vs' \<and> binders_typed vs' rhs"
proof (cases vs)
  case (One v)
  then show ?thesis
    by (cases vs') (auto simp: propagate_binders_def binders_typed_def var_eq_iff)
next
  case (Many ws)
  show ?thesis
  proof (cases rhs)
    case None
    with Many show ?thesis
      by (cases vs') (auto simp: propagate_binders_def binders_typed_def component_types_None
          untyped_map_None_iff untyped_binders_eq simp del: untyped_binders.simps)
  next
    case (Some t)
    show ?thesis
    proof (cases "\<exists>ts. t = Tuple ts \<and> length ts = length ws")
      case True
      then obtain ts where ts: "t = Tuple ts" "length ws = length ts" by auto
      with component_types_Tuple [of 0 ws ts] Many Some show ?thesis
        by (cases vs') (auto simp: propagate_binders_def binders_typed_def tuple_len_def
          typed_map_iff [OF ts(2)] untyped_binders_eq simp del: untyped_binders.simps)
    next
      case False
      then have no: "tuple_len t \<noteq> Inr (length ws)" by (cases t) (auto simp: tuple_len_def)
      have "propagate_binders vs rhs \<noteq> Inr vs'"
        using no by (auto simp: propagate_binders_def Many Some bindE_eq_Inr)
      moreover have "\<not> (untyped_binders vs = untyped_binders vs' \<and> binders_typed vs' rhs)"
        using False by (cases vs') (auto simp: Many Some binders_typed_def untyped_binders_eq
          simp del: untyped_binders.simps dest!: map_eq_imp_length_eq)
      ultimately show ?thesis by blast
    qed
  qed
qed

section \<open>The typing rules\<close>

text \<open>
  A fully annotated expression whose every type is what the local rule gives: a declarative
  reading of the table of primitives and of the symbol table.
\<close>

inductive typed :: "symtab \<Rightarrow> expr \<Rightarrow> bool" where
  typed_const: "typed st (Const c)"
| typed_var: "st (KVar x) = Some t \<Longrightarrow> typed st (Var (MkVar x t))"
| typed_prim: "list_all (typed st) as \<Longrightarrow> make_tuple_opt (map type_of as) = Inr (Some a) \<Longrightarrow>
    prim_lookup f a = Inr (Some t) \<Longrightarrow> typed st (Call f as (Some t))"
| typed_fun: "list_all (typed st) as \<Longrightarrow> make_tuple_opt (map type_of as) = Inr (Some a) \<Longrightarrow>
    prim_lookup f a = Inr None \<Longrightarrow> add_type_to_sname f (Some a) = Inr f \<Longrightarrow>
    st (KName f) = Some t \<Longrightarrow> typed st (Call f as t)"
| typed_lam: "typed (st(KVar x \<mapsto> Some s)) b \<Longrightarrow> type_of b = Some u \<Longrightarrow>
    typed st (Lam x s b (Some (LamT s u)))"
| typed_let: "typed st r \<Longrightarrow> binders_typed vs (type_of r) \<Longrightarrow>
    typed (bind_vars st (binder_vars vs)) b \<Longrightarrow> typed st (LetE vs r b (type_of b))"
| typed_if: "typed st c \<Longrightarrow> type_of c = Some Bool \<Longrightarrow> typed st d \<Longrightarrow> typed st e \<Longrightarrow>
    type_of d = type_of e \<Longrightarrow> typed st (IfE c d e (type_of d))"
| typed_assert: "typed st c \<Longrightarrow> type_of c = Some Bool \<Longrightarrow> typed st b \<Longrightarrow>
    typed st (Assert c b (type_of b))"
  monos list.pred_mono

inductive_simps typed_simps [simp]:
  "typed st (Const c)" "typed st (Var v)" "typed st (Call f as t)" "typed st (Lam x s b t)"
  "typed st (LetE vs r b t)" "typed st (IfE c d e t)" "typed st (Assert c b t)"

lemma unknown_call_raises: "unknown_call e ts \<noteq> Inr e'"
  by (auto simp: unknown_call_def bindE_eq_Inr)

lemma propagate_call_Inr:
  "propagate_call st f as = Inr e' \<longleftrightarrow>
   (\<exists>a. make_tuple_opt (map type_of as) = Inr (Some a) \<and>
     ((\<exists>t. prim_lookup f a = Inr (Some t) \<and> e' = Call f as (Some t)) \<or>
      (\<exists>f' t. prim_lookup f a = Inr None \<and> add_type_to_sname f (Some a) = Inr f' \<and>
        st (KName f') = Some t \<and> e' = Call f' as t)))"
proof (cases "make_tuple_opt (map type_of as)")
  case argt: (Inr argt)
  show ?thesis
  proof (cases argt)
    case a: (Some a)
    show ?thesis
    proof (cases "prim_lookup f a")
      case pr: (Inr pr)
      show ?thesis
      proof (cases pr)
        case None
        show ?thesis
        proof (cases "add_type_to_sname f (Some a)")
          case (Inr f')
          with argt a pr None show ?thesis
            by (cases "st (KName f')") (auto simp: propagate_call_def unknown_call_raises)
        qed (simp add: propagate_call_def argt a pr None)
      qed (auto simp: propagate_call_def argt a pr)
    qed (simp add: propagate_call_def argt a)
  qed (simp add: propagate_call_def argt)
qed (simp add: propagate_call_def)

lemma propagate_call_typed:
  assumes "propagate_call st f as = Inr e'" "list_all (typed st) as"
  shows "typed st e' \<and> (\<exists>f' t. e' = Call f' as t \<and> strip_type f' = strip_type f)"
proof -
  from assms(1) obtain a where a: "make_tuple_opt (map type_of as) = Inr (Some a)"
    and cases: "(\<exists>t. prim_lookup f a = Inr (Some t) \<and> e' = Call f as (Some t)) \<or>
      (\<exists>f' t. prim_lookup f a = Inr None \<and> add_type_to_sname f (Some a) = Inr f' \<and>
        st (KName f') = Some t \<and> e' = Call f' as t)"
    unfolding propagate_call_Inr by blast
  from cases show ?thesis
  proof (elim disjE exE conjE)
    fix t
    assume "prim_lookup f a = Inr (Some t)" "e' = Call f as (Some t)"
    with a assms(2) show ?thesis by auto
  next
    fix f' t
    assume f': "prim_lookup f a = Inr None" "add_type_to_sname f (Some a) = Inr f'"
      "st (KName f') = Some t" "e' = Call f' as t"
    then have "prim_lookup f' a = Inr None"
      by (auto simp: add_type_to_sname_Inr prim_lookup_typed)
    with f' a assms(2) add_type_to_sname_idem [OF f'(2)] add_type_to_sname_strip [OF f'(2)]
    show ?thesis by auto
  qed
qed

lemma type_propagate_typed:
  "type_propagate False st e = Inr e' \<Longrightarrow>
   typed st e' \<and> forget strip_type e' = forget strip_type e"
proof (induction e arbitrary: st e')
  case (Call f as t)
  then obtain bs where bs: "mapE (type_propagate False st) as = Inr bs" "propagate_call st f bs = Inr e'"
    by auto
  have nth: "typed st (bs ! i) \<and> forget strip_type (bs ! i) = forget strip_type (as ! i)"
    if "i < length as" for i
    using Call.IH [OF nth_mem [OF that] mapE_nth [OF bs(1) that]] .
  then have "list_all (typed st) bs" and "map (forget strip_type) bs = map (forget strip_type) as"
    using mapE_length [OF bs(1)] by (auto simp: list_all_length intro: nth_equalityI)
  with propagate_call_typed [OF bs(2)] show ?case by auto
next
  case (Lam x s b t)
  then show ?case by (force simp: bindE_eq_Inr split: option.splits)
next
  case (LetE vs r b t)
  then show ?case by (force simp: bindE_eq_Inr propagate_binders_iff)
next
  case (IfE c d e t)
  then show ?case by (force simp: bindE_eq_Inr)
next
  case (Assert c b t)
  then show ?case by (force simp: bindE_eq_Inr)
qed (auto split: option.splits)

lemma typed_propagate:
  "typed st e' \<Longrightarrow> untype e = untype e' \<Longrightarrow> type_propagate False st e = Inr e'"
proof (induction st e' arbitrary: e rule: typed.induct)
  case (typed_prim st as a f t)
  then obtain bs u where e: "e = Call f bs u" "map (untype) bs = map (untype) as"
    by (cases e) auto
  then have len: "length bs = length as" by (auto dest: map_eq_imp_length_eq)
  have "type_propagate False st (bs ! i) = Inr (as ! i)" if "i < length as" for i
    using typed_prim.IH e(2) that len by (auto simp: list_all_length list_eq_iff_nth_eq)
  then have "mapE (type_propagate False st) bs = Inr as"
    using len by (simp add: mapE_Inr_iff list_all2_conv_all_nth)
  with typed_prim.hyps e show ?case by (auto simp: propagate_call_Inr)
next
  case (typed_fun st as a f t)
  then obtain bs u where e: "e = Call f bs u" "map (untype) bs = map (untype) as"
    by (cases e) auto
  then have len: "length bs = length as" by (auto dest: map_eq_imp_length_eq)
  have "type_propagate False st (bs ! i) = Inr (as ! i)" if "i < length as" for i
    using typed_fun.IH e(2) that len by (auto simp: list_all_length list_eq_iff_nth_eq)
  then have "mapE (type_propagate False st) bs = Inr as"
    using len by (simp add: mapE_Inr_iff list_all2_conv_all_nth)
  with typed_fun.hyps e show ?case by (auto simp: propagate_call_Inr)
next
  case (typed_const st c)
  then show ?case by (cases e) auto
next
  case (typed_var st x t)
  then show ?case by (cases e) auto
next
  case (typed_lam st x s b u)
  then obtain b0 t0 where "e = Lam x s b0 t0" "untype b0 = untype b" by (cases e) auto
  moreover from this(2) have "type_propagate False (st(KVar x \<mapsto> Some s)) b0 = Inr b" by (rule typed_lam.IH)
  ultimately show ?case using typed_lam.hyps(2) by simp
next
  case (typed_let st r vs b)
  then obtain ws r0 b0 t0 where e: "e = LetE ws r0 b0 t0" "untyped_binders ws = untyped_binders vs"
    "untype r0 = untype r" "untype b0 = untype b" by (cases e) auto
  then have "propagate_binders ws (type_of r) = Inr vs"
    using typed_let.hyps by (simp add: propagate_binders_iff)
  with e typed_let.IH show ?case by simp
next
  case (typed_if st c d e1)
  then obtain c0 d0 e0 t0 where "e = IfE c0 d0 e0 t0" "untype c0 = untype c"
    "untype d0 = untype d" "untype e0 = untype e1" by (cases e) auto
  with typed_if show ?case by simp
next
  case (typed_assert st c b)
  then obtain c0 b0 t0 where "e = Assert c0 b0 t0" "untype c0 = untype c"
    "untype b0 = untype b" by (cases e) auto
  with typed_assert show ?case by simp
qed

section \<open>Growing the table\<close>

lemma bind_vars_mono: "st \<subseteq>\<^sub>m st' \<Longrightarrow> bind_vars st vs \<subseteq>\<^sub>m bind_vars st' vs"
  unfolding bind_vars_def
proof (induction vs arbitrary: st st')
  case (Cons v vs)
  from Cons.IH [OF map_le_upd [OF Cons.prems]] show ?case by simp
qed simp

lemma propagate_call_mono: "st \<subseteq>\<^sub>m st' \<Longrightarrow> propagate_call st f as = Inr e' \<Longrightarrow> propagate_call st' f as = Inr e'"
  by (auto simp: propagate_call_Inr map_le_def dom_def)

lemma type_propagate_mono:
  "st \<subseteq>\<^sub>m st' \<Longrightarrow> type_propagate re st e = Inr e' \<Longrightarrow> type_propagate re st' e = Inr e'"
proof (induction e arbitrary: st st' e')
  case (Var v)
  then show ?case by (auto simp: map_le_def dom_def split: if_splits option.splits)
next
  case (Call f as t)
  show ?case
  proof (cases "re \<and> t \<noteq> None")
    case False
    with Call.prems(2) obtain bs where bs: "mapE (type_propagate re st) as = Inr bs"
      "propagate_call st f bs = Inr e'" by auto
    have "mapE (type_propagate re st') as = Inr bs"
      using bs(1) Call.IH [OF _ Call.prems(1)] unfolding mapE_Inr_iff
      by (auto simp: list_all2_conv_all_nth)
    with False propagate_call_mono [OF Call.prems(1) bs(2)] show ?thesis by auto
  qed (use Call in auto)
next
  case (Lam x s b t)
  show ?case
  proof (cases "re \<and> t \<noteq> None")
    case False
    with Lam.prems(2) obtain b' where "type_propagate re (st(KVar x \<mapsto> Some s)) b = Inr b'"
      "(case type_of b' of None \<Rightarrow> Inl AssertionError | Some u \<Rightarrow> Inr (Lam x s b' (Some (LamT s u)))) = Inr e'"
      by auto
    moreover from this(1) have "type_propagate re (st'(KVar x \<mapsto> Some s)) b = Inr b'"
      by (rule Lam.IH [OF map_le_upd [OF Lam.prems(1)]])
    ultimately show ?thesis using False by auto
  qed (use Lam in auto)
next
  case (LetE vs r b t)
  show ?case
  proof (cases "re \<and> t \<noteq> None")
    case False
    with LetE.prems(2) obtain r' vs' b' where "type_propagate re st r = Inr r'"
      "propagate_binders vs (type_of r') = Inr vs'"
      "type_propagate re (bind_vars st (binder_vars vs')) b = Inr b'" "e' = LetE vs' r' b' (type_of b')"
      by auto
    with LetE.IH(1) [OF LetE.prems(1)] LetE.IH(2) [OF bind_vars_mono [OF LetE.prems(1)]] False
    show ?thesis by auto
  qed (use LetE in auto)
next
  case (IfE c d e t)
  show ?case
  proof (cases "re \<and> t \<noteq> None")
    case False
    with IfE.prems(2) obtain c' d' e1 where "type_propagate re st c = Inr c'" "type_of c' = Some Bool"
      "type_propagate re st d = Inr d'" "type_propagate re st e = Inr e1" "type_of d' = type_of e1"
      "e' = IfE c' d' e1 (type_of d')"
      by (auto simp: bindE_eq_Inr)
    with IfE.IH [OF IfE.prems(1)] False show ?thesis by auto
  qed (use IfE in auto)
next
  case (Assert c b t)
  show ?case
  proof (cases "re \<and> t \<noteq> None")
    case False
    with Assert.prems(2) obtain c' b' where "type_propagate re st c = Inr c'" "type_of c' = Some Bool"
      "type_propagate re st b = Inr b'" "e' = Assert c' b' (type_of b')"
      by (auto simp: bindE_eq_Inr)
    with Assert.IH [OF Assert.prems(1)] False show ?thesis by auto
  qed (use Assert in auto)
qed auto

text \<open>A definition never changes a type the table already holds.\<close>

lemma type_propagate_tld_keeps:
  "type_propagate_tld re st d = Inr (d', st') \<Longrightarrow> st k = Some (Some t) \<Longrightarrow> st' k = Some (Some t)"
  by (cases d) (auto simp: propagate_def_def Let_def bindE_eq_Inr split: option.splits if_splits)

lemma type_propagate_decls_keeps:
  "type_propagate_decls st ds = Inr (ds', st') \<Longrightarrow> st k = Some (Some t) \<Longrightarrow> st' k = Some (Some t)"
proof (induction ds arbitrary: st ds' st')
  case (Cons d ds)
  then show ?case by (auto simp: bindE_eq_Inr split: prod.splits dest: type_propagate_tld_keeps)
qed simp

section \<open>Properties\<close>

text \<open>
  C29: Type propagation is sound: what \<open>type_propagate\<close> returns satisfies the typing rules at every
  node, and differs from the expression it was given in inferred types only: the types of nodes and
  binders, and the argument types added to the names of calls.
\<close>

theorem type_propagate_sound:
  assumes "type_propagate False st e = Inr e'"
  shows "typed st e' \<and> forget strip_type e' = forget strip_type e \<and> free_vars e' = free_vars e"
proof -
  have "free_vars e' = free_vars e"
    using type_propagate_typed [OF assms] by (metis free_vars_forget)
  with type_propagate_typed [OF assms] show ?thesis by blast
qed

definition square_lam :: "ty option \<Rightarrow> ty option \<Rightarrow> ty option \<Rightarrow> expr" where
  "square_lam v c t =
     Lam ''x'' Float (Call (SName ''ts_dot'') [Var (MkVar ''x'' v), Var (MkVar ''x'' v)] c) t"

lemma square_lam_typed:
  "type_propagate False Map.empty (square_lam None None None) =
   Inr (square_lam (Some Float) (Some Float) (Some (LamT Float Float)))"
  by (simp add: square_lam_def propagate_call_def make_tuple_opt_def prim_lookup_def arg_list_def
      starts_with_def get_indices_def prim_by_count_def prim2_def)

theorem type_propagate_sound_witness:
  "typed Map.empty (square_lam (Some Float) (Some Float) (Some (LamT Float Float)))"
  using type_propagate_sound [OF square_lam_typed] by blast

text \<open>
  C30: Type propagation is complete for the rules, and its result is the only one: whenever the node
  and binder types of an expression can be chosen so that the rules hold, \<open>type_propagate\<close> returns
  that choice, whatever types the expression carried. In particular it is idempotent.
\<close>

theorem type_propagate_complete:
  assumes "typed st e'" "untype e = untype e'"
  shows "type_propagate False st e = Inr e'"
  using assms by (rule typed_propagate)

theorem type_propagate_complete_witness:
  "type_propagate False Map.empty (square_lam (Some Integer) None None) =
   Inr (square_lam (Some Float) (Some Float) (Some (LamT Float Float)))"
proof -
  have "typed Map.empty (square_lam (Some Float) (Some Float) (Some (LamT Float Float)))"
    using type_propagate_typed [OF square_lam_typed] by blast
  from type_propagate_complete [OF this, of "square_lam (Some Integer) None None"]
  show ?thesis by (simp add: square_lam_def)
qed

text \<open>
  Definitions only extend the symbol table: after \<open>type_propagate_decls\<close> every name that had a
  type has that type, and an expression typed before is typed the same way with the larger table.
\<close>

theorem type_propagate_decls_extends:
  assumes "type_propagate_decls st ds = Inr (ds', st')" "\<forall>k. st k \<noteq> Some None"
  shows "st \<subseteq>\<^sub>m st' \<and> (\<forall>e e'. type_propagate re st e = Inr e' \<longrightarrow> type_propagate re st' e = Inr e')"
proof -
  have "st \<subseteq>\<^sub>m st'"
    unfolding map_le_def
  proof
    fix k
    assume "k \<in> dom st"
    then obtain t where "st k = Some (Some t)" using assms(2) by (auto simp: dom_def) (metis option.exhaust)
    with type_propagate_decls_keeps [OF assms(1) this] show "st k = st' k" by simp
  qed
  then show ?thesis using type_propagate_mono by blast
qed

theorem type_propagate_decls_extends_witness:
  "\<exists>st'. type_propagate_decls [KName (STyped ''g'' Float) \<mapsto> Some Float]
      [EDef (SName ''f'') (Some Float) (Some Integer)] = Inr ([EDef (STyped ''f'' Integer) (Some Float) (Some Integer)], st') \<and>
    st' (KName (STyped ''g'' Float)) = Some (Some Float)"
proof -
  let ?st = "[KName (STyped ''g'' Float) \<mapsto> Some Float]"
  have decls: "type_propagate_decls ?st [EDef (SName ''f'') (Some Float) (Some Integer)] =
      Inr ([EDef (STyped ''f'' Integer) (Some Float) (Some Integer)],
        ?st(KName (STyped ''f'' Integer) \<mapsto> Some Float))"
    by (simp add: add_type_to_sname_def)
  from type_propagate_decls_extends [OF decls] have "?st \<subseteq>\<^sub>m ?st(KName (STyped ''f'' Integer) \<mapsto> Some Float)"
    by auto
  with decls show ?thesis by auto
qed

text \<open>
  A call without arguments of a function that is not in the table raises \<open>IndexError\<close> and not
  the \<open>KSTypeError\<close> that says what was not found: the help text takes the first argument type.
\<close>

theorem unknown_nullary_call:
  assumes "prim_lookup (SName f) (Tuple []) = Inr None" "st (KName (STyped f (Tuple []))) = None"
  shows "type_propagate False st (Call (SName f) [] t) = Inl IndexError"
  using assms
  by (simp add: propagate_call_def make_tuple_opt_def add_type_to_sname_def unknown_call_def
      pystr_StructuredName_def)

theorem unknown_nullary_call_witness:
  "type_propagate False Map.empty (Call (SName ''f'') [] None) = Inl IndexError"
  using unknown_nullary_call [of "''f''" Map.empty None]
  by (simp add: prim_lookup_def arg_list_def starts_with_def get_indices_def prim_by_count_def)

end
