(* ===== verification/Comments.thy ===== *)
theory Comments
  imports Prelude
begin

text \<open>
  The removal of block comments, \<open>strip_block_comments\<close> of \<open>src/python/ksc/parse_ks.py\<close>. The regular
  expression matches \<open>#|\<close>, then characters that start neither \<open>|#\<close> nor \<open>#|\<close>, then \<open>|#\<close>; at every
  position at most one alternative applies, so that its match is found by reading on without going
  back. A round removes the matches from left to right, and rounds follow until nothing is removed.
\<close>

abbreviation hash :: char where "hash \<equiv> CHR ''#''"
abbreviation bar :: char where "bar \<equiv> CHR ''|''"

section \<open>Definitions\<close>

text \<open>What follows the match, when the text after \<open>#|\<close> is given.\<close>

fun comment_rest :: "string \<Rightarrow> string option" where
  "comment_rest [] = None"
| "comment_rest (c # s) =
     (if c = bar then (if s \<noteq> [] \<and> hd s = hash then Some (tl s) else comment_rest s)
      else if c = hash then (if s \<noteq> [] \<and> hd s = bar then None else comment_rest s)
      else comment_rest s)"

definition comment_here :: "string \<Rightarrow> string option" where
  "comment_here s = (case s of c # d # t \<Rightarrow> if c = hash \<and> d = bar then comment_rest t else None | _ \<Rightarrow> None)"

lemma comment_rest_length: "comment_rest s = Some t \<Longrightarrow> length t < length s"
  by (induction s) (auto split: if_splits simp: less_Suc_eq)

lemma comment_here_length [termination_simp]: "comment_here (c # s) = Some t \<Longrightarrow> length t < Suc (length s)"
  using comment_rest_length by (fastforce simp: comment_here_def split: list.splits if_splits)

text \<open>\<open>re.subn\<close>: the text without the matches, and their number.\<close>

fun subn :: "string \<Rightarrow> string \<times> nat" where
  "subn [] = ([], 0)"
| "subn (c # s) =
     (case comment_here (c # s) of
        Some t \<Rightarrow> (let (r, n) = subn t in (r, Suc n))
      | None \<Rightarrow> (let (r, n) = subn s in (c # r, n)))"

lemma subn_length: "length (fst (subn s)) + snd (subn s) \<le> length s"
proof (induction s rule: subn.induct)
  case (2 c s)
  show ?case
  proof (cases "comment_here (c # s)")
    case None
    with 2(1) [OF None] show ?thesis by (simp add: case_prod_beta Let_def)
  next
    case (Some t)
    with 2(2) [OF Some] comment_here_length [OF Some] show ?thesis by (simp add: case_prod_beta Let_def)
  qed
qed simp

function strip_block_comments :: "string \<Rightarrow> string" where
  "strip_block_comments s = (let (t, n) = subn s in if n = 0 then t else strip_block_comments t)"
  by pat_completeness auto
termination
proof (relation "measure length", goal_cases)
  case (2 s p t n)
  from 2(1,2) have "subn s = (t, n)" by (simp only:)
  with subn_length [of s] have "length t + n \<le> length s" by simp
  with 2(3) show ?case by (simp only: in_measure)
qed simp

declare strip_block_comments.simps [simp del]

section \<open>No comment is left\<close>

lemma subn_none: "snd (subn s) = 0 \<Longrightarrow> fst (subn s) = s"
  by (induction s rule: subn.induct) (auto simp: case_prod_beta Let_def split: option.splits)

lemma strip_block_comments_fixed: "subn (strip_block_comments s) = (strip_block_comments s, 0)"
proof (induction s rule: strip_block_comments.induct)
  case (1 s)
  show ?case
  proof (cases "snd (subn s) = 0")
    case True
    then have "subn s = (s, 0)" using subn_none [of s] by (metis prod.collapse)
    then show ?thesis by (simp add: strip_block_comments.simps [of s])
  next
    case False
    then have "strip_block_comments s = strip_block_comments (fst (subn s))"
      by (simp add: strip_block_comments.simps [of s] case_prod_beta Let_def)
    with 1 [of "subn s" "fst (subn s)" "snd (subn s)"] False show ?thesis by simp
  qed
qed

lemma subn_none_suffix: "snd (subn (a @ s)) = 0 \<Longrightarrow> comment_here s = None"
proof (induction a)
  case Nil
  then show ?case
    by (cases s) (auto simp: comment_here_def case_prod_beta Let_def split: option.splits)
next
  case (Cons c a)
  then show ?case by (auto simp: case_prod_beta Let_def split: option.splits)
qed

text \<open>Reading on stops at the closing \<open>|#\<close> or at a \<open>#|\<close> before it.\<close>

lemma comment_rest_stops:
  assumes "comment_rest (c @ [bar, hash] @ b) = None" "c = [] \<or> last c \<noteq> hash"
  shows "\<exists>c1 c2. c = c1 @ [hash, bar] @ c2"
  using assms
proof (induction c)
  case (Cons x c)
  show ?case
  proof (cases "x = hash \<and> c \<noteq> [] \<and> hd c = bar")
    case True
    then have "x # c = [] @ [hash, bar] @ tl c" by (cases c) auto
    then show ?thesis by blast
  next
    case False
    have "comment_rest (c @ [bar, hash] @ b) = None"
      using Cons.prems False by (cases c) (auto split: if_splits)
    moreover have "c = [] \<or> last c \<noteq> hash" using Cons.prems by auto
    ultimately obtain c1 c2 where "c = c1 @ [hash, bar] @ c2" using Cons.IH by blast
    then have "x # c = (x # c1) @ [hash, bar] @ c2" by simp
    then show ?thesis by blast
  qed
qed simp

lemma no_match_no_comment:
  assumes "snd (subn s) = 0" "c = [] \<or> last c \<noteq> hash"
  shows "s \<noteq> a @ [hash, bar] @ c @ [bar, hash] @ b"
  using assms
proof (induction c arbitrary: a rule: length_induct)
  case (1 c)
  show ?case
  proof
    assume s: "s = a @ [hash, bar] @ c @ [bar, hash] @ b"
    then have "comment_here ([hash, bar] @ c @ [bar, hash] @ b) = None"
      using subn_none_suffix 1(2) by blast
    then have "comment_rest (c @ [bar, hash] @ b) = None" by (simp add: comment_here_def)
    then obtain c1 c2 where c: "c = c1 @ [hash, bar] @ c2" using comment_rest_stops 1(3) by blast
    then have "c2 = [] \<or> last c2 \<noteq> hash" using 1(3) by auto
    moreover have "length c2 < length c" using c by simp
    ultimately have "s \<noteq> (a @ [hash, bar] @ c1) @ [hash, bar] @ c2 @ [bar, hash] @ b"
      using 1(1) 1(2) by blast
    with s c show False by simp
  qed
qed

section \<open>Nested comments\<close>

text \<open>A text as its author sees it: characters, and comments around such texts.\<close>

datatype piece = Plain char | Comment "piece list"

fun is_plain :: "piece \<Rightarrow> bool" where
  "is_plain (Plain c) \<longleftrightarrow> True"
| "is_plain (Comment ps) \<longleftrightarrow> False"

fun render_piece :: "piece \<Rightarrow> string" where
  "render_piece (Plain c) = [c]"
| "render_piece (Comment ps) = [hash, bar] @ concat (map render_piece ps) @ [bar, hash]"

abbreviation render :: "piece list \<Rightarrow> string" where
  "render ps \<equiv> concat (map render_piece ps)"

text \<open>What is left when every comment is removed.\<close>

definition outside :: "piece list \<Rightarrow> string" where
  "outside ps = render (filter is_plain ps)"

text \<open>No \<open>#\<close> or \<open>|\<close> is part of the text, and no comment ends where the comment around it ends.\<close>

fun separated :: "piece \<Rightarrow> bool" where
  "separated (Plain c) \<longleftrightarrow> c \<noteq> hash \<and> c \<noteq> bar"
| "separated (Comment ps) \<longleftrightarrow> (\<forall>p \<in> set ps. separated p) \<and> (ps = [] \<or> is_plain (last ps))"

text \<open>What one round does: it removes the innermost comments.\<close>

fun strip_round :: "piece \<Rightarrow> piece list" where
  "strip_round (Plain c) = [Plain c]"
| "strip_round (Comment ps) =
     (if list_all is_plain ps then [] else [Comment (concat (map strip_round ps))])"

lemma outside_simps [simp]:
  "outside [] = []" "outside (Plain c # ps) = c # outside ps" "outside (Comment qs # ps) = outside ps"
  "outside (ps @ qs) = outside ps @ outside qs"
  by (simp_all add: outside_def)

lemma outside_strip_round: "outside (concat (map strip_round ps)) = outside ps"
proof (induction ps)
  case (Cons p ps)
  then show ?case by (cases p) simp_all
qed simp

lemma separated_strip_round: "separated p \<Longrightarrow> q \<in> set (strip_round p) \<Longrightarrow> separated q"
proof (induction p arbitrary: q)
  case (Comment ps)
  show ?case
  proof (cases "list_all is_plain ps")
    case False
    then have q: "q = Comment (concat (map strip_round ps))" using Comment.prems by simp
    have all: "separated x" if "x \<in> set (concat (map strip_round ps))" for x
      using that Comment by fastforce
    have "is_plain (last (concat (map strip_round ps)))"
    proof (cases ps rule: rev_cases)
      case Nil
      with False show ?thesis by simp
    next
      case (snoc rs p)
      with Comment.prems(1) show ?thesis by (cases p) auto
    qed
    with q all show ?thesis by (simp del: set_concat set_map)
  next
    case True
    with Comment.prems(2) show ?thesis by simp
  qed
qed simp

lemma comment_rest_plain:
  "\<forall>c \<in> set w. c \<noteq> hash \<and> c \<noteq> bar \<Longrightarrow> comment_rest (w @ [bar, hash] @ b) = Some b"
  by (induction w) auto

lemma comment_rest_opens:
  "\<forall>c \<in> set w. c \<noteq> hash \<and> c \<noteq> bar \<Longrightarrow> comment_rest (w @ [hash, bar] @ b) = None"
  by (induction w) auto

lemma render_plain:
  "list_all is_plain ps \<Longrightarrow> \<forall>p \<in> set ps. separated p \<Longrightarrow> \<forall>c \<in> set (render ps). c \<noteq> hash \<and> c \<noteq> bar"
proof (induction ps)
  case (Cons p ps)
  then show ?case by (cases p) auto
qed simp

lemma render_nested:
  assumes "\<not> list_all is_plain ps" "\<forall>p \<in> set ps. separated p"
  shows "\<exists>w b. render ps = w @ [hash, bar] @ b \<and> (\<forall>c \<in> set w. c \<noteq> hash \<and> c \<noteq> bar)"
  using assms
proof (induction ps)
  case (Cons p ps)
  show ?case
  proof (cases p)
    case (Plain c)
    then obtain w b where "render ps = w @ [hash, bar] @ b" "\<forall>c \<in> set w. c \<noteq> hash \<and> c \<noteq> bar"
      using Cons by auto
    then have "render (p # ps) = (c # w) @ [hash, bar] @ b" "\<forall>c \<in> set (c # w). c \<noteq> hash \<and> c \<noteq> bar"
      using Plain Cons.prems by auto
    then show ?thesis by blast
  next
    case (Comment qs)
    then have "render (p # ps) = [] @ [hash, bar] @ render qs @ [bar, hash] @ render ps" by simp
    then show ?thesis by (metis empty_iff list.set(1))
  qed
qed simp

text \<open>What may follow a text so that no comment starts where it ends.\<close>

definition may_follow :: "piece list \<Rightarrow> string \<Rightarrow> bool" where
  "may_follow ps b \<longleftrightarrow> ps = [] \<or> is_plain (last ps) \<or> b = [] \<or> hd b \<noteq> bar"

lemma hd_render: "\<forall>p \<in> set ps. separated p \<Longrightarrow> ps \<noteq> [] \<Longrightarrow> render ps \<noteq> [] \<and> hd (render ps) \<noteq> bar"
proof (cases ps)
  case (Cons p qs)
  assume "\<forall>p \<in> set ps. separated p"
  with Cons show ?thesis by (cases p) auto
qed simp

lemma subn_pieces:
  assumes "\<And>p b. p \<in> set ps \<Longrightarrow> separated p \<Longrightarrow> may_follow [p] b \<Longrightarrow>
      fst (subn (render_piece p @ b)) = render (strip_round p) @ fst (subn b)"
    and "\<forall>p \<in> set ps. separated p" "may_follow ps b"
  shows "fst (subn (render ps @ b)) = render (concat (map strip_round ps)) @ fst (subn b)"
  using assms
proof (induction ps)
  case (Cons p ps)
  have "may_follow [p] (render ps @ b)"
    using Cons.prems(3) hd_render [of ps] Cons.prems(2) by (cases "ps = []") (auto simp: may_follow_def)
  then have "fst (subn (render_piece p @ render ps @ b)) = render (strip_round p) @ fst (subn (render ps @ b))"
    using Cons.prems(1,2) by simp
  moreover have "may_follow ps b" using Cons.prems(3) by (auto simp: may_follow_def split: if_splits)
  then have "fst (subn (render ps @ b)) = render (concat (map strip_round ps)) @ fst (subn b)"
    using Cons.IH Cons.prems(1,2) by simp
  ultimately show ?case by simp
qed simp

lemma comment_here_not: "c \<noteq> hash \<or> s = [] \<or> hd s \<noteq> bar \<Longrightarrow> comment_here (c # s) = None"
  by (cases s) (auto simp: comment_here_def)

lemma subn_skip: "comment_here (c # s) = None \<Longrightarrow> fst (subn (c # s)) = c # fst (subn s)"
  by (simp add: case_prod_beta Let_def)

lemma subn_piece:
  "separated p \<Longrightarrow> may_follow [p] b \<Longrightarrow>
   fst (subn (render_piece p @ b)) = render (strip_round p) @ fst (subn b)"
proof (induction p arbitrary: b)
  case (Plain c)
  then show ?case by (simp add: subn_skip comment_here_not del: subn.simps)
next
  case (Comment ps)
  have b: "b = [] \<or> hd b \<noteq> bar" using Comment.prems by (simp add: may_follow_def)
  have start: "render_piece (Comment ps) @ b = hash # bar # render ps @ [bar, hash] @ b" by simp
  show ?case
  proof (cases "list_all is_plain ps")
    case True
    then have "comment_rest (render ps @ [bar, hash] @ b) = Some b"
      using comment_rest_plain render_plain Comment.prems(1) by simp
    then have "comment_here (hash # bar # render ps @ [bar, hash] @ b) = Some b"
      by (simp add: comment_here_def)
    with True start show ?thesis by (simp add: case_prod_beta Let_def)
  next
    case False
    then obtain w b' where w: "render ps = w @ [hash, bar] @ b'" "\<forall>c \<in> set w. c \<noteq> hash \<and> c \<noteq> bar"
      using render_nested Comment.prems(1) by (meson separated.simps(2))
    have "comment_here (hash # bar # render ps @ [bar, hash] @ b) = None"
      using comment_rest_opens [OF w(2)] by (simp add: comment_here_def w(1))
    then have "fst (subn (render_piece (Comment ps) @ b)) =
        hash # bar # fst (subn (render ps @ [bar, hash] @ b))"
      unfolding start by (simp add: subn_skip comment_here_not del: subn.simps)
    also have "fst (subn (render ps @ [bar, hash] @ b)) =
        render (concat (map strip_round ps)) @ fst (subn ([bar, hash] @ b))"
    proof (rule subn_pieces [OF Comment.IH])
      show "may_follow ps ([bar, hash] @ b)" using Comment.prems(1) by (auto simp: may_follow_def)
    qed (use Comment.prems(1) in auto)
    also have "fst (subn ([bar, hash] @ b)) = bar # hash # fst (subn b)"
      using b by (simp add: subn_skip comment_here_not del: subn.simps)
    finally show ?thesis using False by simp
  qed
qed

lemma no_comment_left:
  assumes "\<forall>p \<in> set ps. separated p" "snd (subn (render ps)) = 0"
  shows "list_all is_plain ps"
proof (rule ccontr)
  assume "\<not> list_all is_plain ps"
  then obtain qs where q: "Comment qs \<in> set ps"
    by (metis is_plain.elims(3) list_all_iff)
  then obtain xs ys where ps: "ps = xs @ Comment qs # ys" by (meson split_list)
  have sep: "separated (Comment qs)" using assms(1) q by blast
  have "render qs = [] \<or> last (render qs) \<noteq> hash"
  proof (cases qs rule: rev_cases)
    case (snoc rs p)
    with sep show ?thesis by (cases p) auto
  qed simp
  then have "render ps \<noteq> render xs @ [hash, bar] @ render qs @ [bar, hash] @ render ys"
    using no_match_no_comment [OF assms(2)] by blast
  with ps show False by simp
qed

lemma outside_plain: "list_all is_plain ps \<Longrightarrow> outside ps = render ps"
  by (simp add: outside_def filter_id_conv list_all_iff)

lemma strip_nested:
  "\<forall>p \<in> set ps. separated p \<Longrightarrow> s = render ps \<Longrightarrow> strip_block_comments s = outside ps"
proof (induction s arbitrary: ps rule: strip_block_comments.induct)
  case (1 s)
  have r: "fst (subn s) = render (concat (map strip_round ps))"
    using subn_pieces [of ps "[]"] subn_piece 1(2,3) by (simp add: may_follow_def)
  show ?case
  proof (cases "snd (subn s) = 0")
    case True
    then have "strip_block_comments s = fst (subn s)"
      by (simp add: strip_block_comments.simps [of s] case_prod_beta Let_def)
    also have "\<dots> = s" using subn_none [OF True] .
    finally show ?thesis using no_comment_left 1(2,3) True outside_plain by simp
  next
    case False
    then have "strip_block_comments s = strip_block_comments (fst (subn s))"
      by (simp add: strip_block_comments.simps [of s] case_prod_beta Let_def)
    also have "\<dots> = outside (concat (map strip_round ps))"
    proof (rule 1(1) [OF refl prod.collapse False _ r])
      show "\<forall>p \<in> set (concat (map strip_round ps)). separated p"
        using separated_strip_round 1(2) by fastforce
    qed
    finally show ?thesis by (simp add: outside_strip_round)
  qed
qed

section \<open>Properties\<close>

lemma strip_block_comments_none_left:
  assumes "c = [] \<or> last c \<noteq> hash"
  shows "strip_block_comments s \<noteq> a @ [hash, bar] @ c @ [bar, hash] @ b"
  using no_match_no_comment [OF _ assms, of "strip_block_comments s"] strip_block_comments_fixed [of s] by simp




end
