(* ===== verification/ParseKs.thy ===== *)
theory ParseKs
  imports TypePropagate
begin

text \<open>
  The parser, \<open>src/python/ksc/parse_ks.py\<close>, from s-expressions to definitions.
  S-expressions are those the library \<open>sexpdata\<close> returns when it is called as here: symbols, brackets, lists, and numbers, strings, \<open>true\<close> and \<open>false\<close> as Python
  values. What the library makes of other text (quoted expressions) is not modelled. The name
  \<open>[f None]\<close>, for which the code builds a name whose type is \<open>None\<close>, is the value \<open>Unmodelled\<close>.
\<close>

section \<open>S-expressions\<close>

datatype sexp = Sym string | Brk "sexp list" | Lst "sexp list" | Atom const

abbreviation check :: "bool \<Rightarrow> unit result" where
  "check b \<equiv> raise_unless ParseError b"

text \<open>\<open>utils.ensure_list_of_lists\<close>\<close>

definition ensure_list_of_lists :: "sexp \<Rightarrow> sexp list result" where
  "ensure_list_of_lists l =
     (case l of
        Lst [] \<Rightarrow> Inr []
      | Lst (Lst xs # ys) \<Rightarrow> Inr (Lst xs # ys)
      | Lst ys \<Rightarrow> Inr [Lst ys]
      | _ \<Rightarrow> Inl ValueError)"

section \<open>Types\<close>

fun unbracket :: "sexp \<Rightarrow> sexp" where
  "unbracket (Lst [s]) = unbracket s"
| "unbracket s = s"

text \<open>\<open>True\<close> and \<open>False\<close> are the integers 1 and 0. The pattern allows a newline at the end.\<close>

fun parse_int :: "sexp \<Rightarrow> int result" where
  "parse_int (Atom (CInt i)) = Inr i"
| "parse_int (Atom (CBool b)) = Inr (if b then 1 else 0)"
| "parse_int (Atom (CStr s)) =
     (let ds = takeWhile is_digit s; rest = dropWhile is_digit s
      in bindE (assertE (ds \<noteq> [] \<and> (rest = [] \<or> rest = [CHR 0x0A]))) (\<lambda>_. Inr (int (str_nat ds))))"
| "parse_int _ = Inl TypeError"

text \<open>A child of a type constructor, which asserts that it is a type.\<close>

definition type_child :: "ty option \<Rightarrow> ty result" where
  "type_child t = (case t of None \<Rightarrow> Inl AssertionError | Some u \<Rightarrow> Inr u)"

lemma unbracket_size: "size (unbracket s) \<le> size s"
  by (induction s rule: unbracket.induct) auto

lemma unbracket_elem: "unbracket se = Lst ses \<Longrightarrow> s \<in> set ses \<Longrightarrow> size s < size se"
  using unbracket_size [of se] by (auto dest!: size_list_estimation' [of s _ "size s" size])

lemma unbracket_smaller:
  "unbracket se = Lst (h # ses) \<Longrightarrow> s \<in> set ses \<Longrightarrow> Suc (2 * size s) < 2 * size se"
  using unbracket_elem [of se "h # ses" s] by simp

text \<open>The pair \<open>(True, t)\<close> is \<open>Some t\<close>, where \<open>t\<close> may be \<open>None\<close>; \<open>(False, None)\<close> is \<open>None\<close>.\<close>

function parse_type_maybe :: "bool \<Rightarrow> sexp \<Rightarrow> ty option option result"
  and parse_type :: "bool \<Rightarrow> sexp \<Rightarrow> ty option result" where
  "parse_type_maybe allow_Any se =
     (case unbracket se of
        Sym s \<Rightarrow>
          if s = ''None'' then Inr (Some None)
          else if is_type_introducer s \<and> (allow_Any \<or> s \<noteq> ''Any'')
          then bindE (type_init s []) (\<lambda>t. Inr (Some (Some t)))
          else Inr None
      | Lst (Sym k # ses) \<Rightarrow>
          (if k = ''Tuple'' then
             bindE (mapE (parse_type allow_Any) ses) (\<lambda>ts.
             bindE (mapE type_child ts) (\<lambda>us. Inr (Some (Some (Tuple us)))))
           else (case ses of
               [s] \<Rightarrow>
                 if k = ''Vec'' then
                   bindE (parse_type allow_Any s) (\<lambda>t. bindE (type_child t) (\<lambda>u. Inr (Some (Some (Tensor 1 u)))))
                 else Inr None
             | [s1, s2] \<Rightarrow>
                 if k = ''Tensor'' then
                   bindE (parse_int s1) (\<lambda>n. bindE (parse_type allow_Any s2) (\<lambda>t.
                   bindE (type_child t) (\<lambda>u. Inr (Some (Some (Tensor n u))))))
                 else if k = ''Lam'' \<or> k = ''LM'' then
                   bindE (parse_type allow_Any s1) (\<lambda>t1. bindE (parse_type allow_Any s2) (\<lambda>t2.
                   bindE (type_child t1) (\<lambda>u1. bindE (type_child t2) (\<lambda>u2.
                   Inr (Some (Some (if k = ''Lam'' then LamT u1 u2 else LM u1 u2)))))))
                 else Inr None
             | _ \<Rightarrow> Inr None))
      | _ \<Rightarrow> Inr None)"
| "parse_type allow_Any se =
     bindE (parse_type_maybe allow_Any se) (\<lambda>r. case r of None \<Rightarrow> Inl ParseError | Some t \<Rightarrow> Inr t)"
  by pat_completeness auto

termination
  by (relation "measure (\<lambda>x. case x of Inl (any, se) \<Rightarrow> 2 * size se | Inr (any, se) \<Rightarrow> 2 * size se + 1)")
    (simp_all add: unbracket_smaller)

declare parse_type_maybe.simps [simp del]

section \<open>Names and arguments\<close>

fun parse_name :: "sexp \<Rightarrow> string result" where
  "parse_name (Sym s) = Inr s"
| "parse_name _ = Inl ParseError"

fun parse_structured_name :: "sexp \<Rightarrow> sname result" where
  "parse_structured_name (Sym s) = Inr (SName s)"
| "parse_structured_name (Brk [s1, s2]) =
     bindE (parse_name s1) (\<lambda>f.
     bindE (parse_type_maybe False s2) (\<lambda>r.
     case r of
       Some (Some t) \<Rightarrow> Inr (STyped f t)
     | Some None \<Rightarrow> Inl Unmodelled
     | None \<Rightarrow> bindE (parse_structured_name s2) (\<lambda>sn. Inr (SDerived f sn))))"
| "parse_structured_name (Brk _) = Inl AssertionError"
| "parse_structured_name _ = Inl ParseError"

fun parse_string :: "sexp \<Rightarrow> string result" where
  "parse_string (Atom (CStr s)) = Inr s"
| "parse_string _ = Inl ParseError"

text \<open>Only lists and strings have a length; a string has no colon at position 1 that is a symbol.\<close>

fun parse_arg :: "bool \<Rightarrow> sexp \<Rightarrow> var result" where
  "parse_arg allow_Any (Lst ses) =
     bindE (check (3 \<le> length ses)) (\<lambda>_.
     bindE (check (ses ! 1 = Sym '':'')) (\<lambda>_.
     bindE (parse_name (ses ! 0)) (\<lambda>x.
     bindE (parse_type allow_Any (Lst (drop 2 ses))) (\<lambda>t. Inr (MkVar x t)))))"
| "parse_arg allow_Any (Atom (CStr s)) = Inl ParseError"
| "parse_arg allow_Any _ = Inl TypeError"

definition parse_args :: "bool \<Rightarrow> sexp \<Rightarrow> var list result" where
  "parse_args allow_Any se = bindE (ensure_list_of_lists se) (mapE (parse_arg allow_Any))"

section \<open>Expressions\<close>

definition parse_binders :: "sexp \<Rightarrow> binders result" where
  "parse_binders lhs =
     (case lhs of
        Lst vs \<Rightarrow> bindE (mapE parse_name vs) (\<lambda>xs. Inr (Many (map (\<lambda>x. MkVar x None) xs)))
      | _ \<Rightarrow> bindE (parse_name lhs) (\<lambda>x. Inr (One (MkVar x None))))"

text \<open>The binding of a \<open>let\<close>: a pair. A string of length two passes the check on the length.\<close>

fun let_binding :: "sexp \<Rightarrow> (sexp \<times> sexp) result" where
  "let_binding (Lst [lhs, rhs]) = Inr (lhs, rhs)"
| "let_binding (Lst _) = Inl ParseError"
| "let_binding (Atom (CStr _)) = Inl ParseError"
| "let_binding _ = Inl TypeError"

lemma let_binding_Inr: "let_binding se = Inr (l, r) \<longleftrightarrow> se = Lst [l, r]"
  by (cases se rule: let_binding.cases) auto

lemma sexp_elem_size: "s \<in> set ses \<Longrightarrow> size s < Suc (size_list size ses)"
  by (induction ses) auto

function parse_expr :: "bool \<Rightarrow> sexp \<Rightarrow> expr result" where
  "parse_expr allow_Any se =
     (case se of
        Sym s \<Rightarrow> Inr (Var (MkVar s None))
      | Atom c \<Rightarrow> Inr (Const c)
      | Brk _ \<Rightarrow> Inl NotImplementedError
      | Lst [] \<Rightarrow> Inl ParseError
      | Lst (h # ses) \<Rightarrow>
          if h = Sym ''if'' then
            bindE (check (length ses = 3)) (\<lambda>_.
            bindE (mapE (parse_expr allow_Any) ses) (\<lambda>es. Inr (IfE (es ! 0) (es ! 1) (es ! 2) None)))
          else if h = Sym ''assert'' then
            bindE (check (length ses = 2)) (\<lambda>_.
            bindE (mapE (parse_expr allow_Any) ses) (\<lambda>es. Inr (Assert (es ! 0) (es ! 1) None)))
          else if h = Sym ''let'' then
            bindE (check (length ses = 2)) (\<lambda>_.
            bindE (let_binding (ses ! 0)) (\<lambda>(l, r).
            bindE (parse_binders l) (\<lambda>vs.
            bindE (parse_expr allow_Any r) (\<lambda>rhs.
            bindE (parse_expr allow_Any (ses ! 1)) (\<lambda>body. mk_let vs rhs body None)))))
          else if h = Sym ''lam'' then
            (case ses of
               [] \<Rightarrow> Inl IndexError
             | s1 # rest \<Rightarrow>
                 bindE (parse_arg allow_Any s1) (\<lambda>v.
                 case rest of
                   [] \<Rightarrow> Inl IndexError
                 | s2 # _ \<Rightarrow> bindE (parse_expr allow_Any s2) (\<lambda>body. mk_lam v body None)))
          else
            bindE (parse_structured_name h) (\<lambda>f.
            bindE (mapE (parse_expr allow_Any) ses) (\<lambda>es. mk_call (Inr f) es None)))"
  by pat_completeness auto

termination
  by (relation "measure (\<lambda>(any, se). size se)")
    (auto simp: let_binding_Inr length_Suc_conv less_Suc_eq_le eval_nat_numeral dest!: sexp_elem_size)

declare parse_expr.simps [simp del]

section \<open>Definitions\<close>

fun parse_tld :: "sexp \<Rightarrow> tld result" where
  "parse_tld (Lst (h # ses)) =
     (if h = Sym ''def'' then
        (case ses of
           [n, r, a, b] \<Rightarrow>
             bindE (parse_structured_name n) (\<lambda>name.
             bindE (parse_type False r) (\<lambda>ret.
             bindE (parse_args False a) (\<lambda>args.
             bindE (parse_expr False b) (\<lambda>body. Inr (Def name ret args body)))))
         | _ \<Rightarrow> Inl ParseError)
      else if h = Sym ''edef'' then
        (case ses of
           [n, r, a] \<Rightarrow>
             bindE (parse_structured_name n) (\<lambda>name.
             bindE (parse_type False r) (\<lambda>ret.
             bindE (parse_type False a) (\<lambda>arg. Inr (EDef name ret arg))))
         | _ \<Rightarrow> Inl ParseError)
      else if h = Sym ''gdef'' then
        (case ses of
           [d, n] \<Rightarrow>
             bindE (parse_name d) (\<lambda>d.
             bindE (parse_structured_name n) (\<lambda>name. Inr (GDef d name)))
         | _ \<Rightarrow> Inl ParseError)
      else if h = Sym ''rule'' then
        (case ses of
           [n, a, t, r] \<Rightarrow>
             bindE (parse_string n) (\<lambda>name.
             bindE (parse_args True a) (\<lambda>args.
             bindE (parse_expr True t) (\<lambda>template.
             bindE (parse_expr True r) (\<lambda>replacement. Inr (Rule name args template replacement)))))
         | _ \<Rightarrow> Inl ParseError)
      else Inl ParseError)"
| "parse_tld _ = Inl ParseError"

text \<open>\<open>parse_ks_string\<close>, from the s-expressions of its text, and \<open>parse_expr_string\<close>.\<close>

definition parse_ks :: "sexp list \<Rightarrow> tld list result" where
  "parse_ks = mapE parse_tld"

definition parse_expr_string :: "sexp list \<Rightarrow> expr result" where
  "parse_expr_string ses = bindE (assertE (length ses = 1)) (\<lambda>_. parse_expr False (ses ! 0))"

section \<open>Printing and parsing\<close>

text \<open>
  The s-expressions of types, names, expressions and definitions, in the syntax that the documentation
  of the classes shows.
\<close>

fun type_sexp :: "ty \<Rightarrow> sexp" where
  "type_sexp (Tensor r t) = Lst [Sym ''Tensor'', Atom (CInt r), type_sexp t]"
| "type_sexp (Tuple ts) = Lst (Sym ''Tuple'' # map type_sexp ts)"
| "type_sexp (LamT a b) = Lst [Sym ''Lam'', type_sexp a, type_sexp b]"
| "type_sexp (LM a b) = Lst [Sym ''LM'', type_sexp a, type_sexp b]"
| "type_sexp Integer = Sym ''Integer''"
| "type_sexp Float = Sym ''Float''"
| "type_sexp Bool = Sym ''Bool''"
| "type_sexp String = Sym ''String''"
| "type_sexp Any = Sym ''Any''"

fun sname_sexp :: "sname \<Rightarrow> sexp" where
  "sname_sexp (SName s) = Sym s"
| "sname_sexp (STyped s t) = Brk [Sym s, type_sexp t]"
| "sname_sexp (SDerived d sn) = Brk [Sym d, sname_sexp sn]"

definition type_opt_sexp :: "ty option \<Rightarrow> sexp" where
  "type_opt_sexp t = (case t of None \<Rightarrow> Sym ''None'' | Some t \<Rightarrow> type_sexp t)"

definition arg_sexp :: "string \<Rightarrow> ty option \<Rightarrow> sexp" where
  "arg_sexp x t = Lst [Sym x, Sym '':'', type_opt_sexp t]"

definition binders_sexp :: "binders \<Rightarrow> sexp" where
  "binders_sexp vs = (case vs of One v \<Rightarrow> Sym (var_name v) | Many vs \<Rightarrow> Lst (map (Sym \<circ> var_name) vs))"

fun expr_sexp :: "expr \<Rightarrow> sexp" where
  "expr_sexp (Const c) = Atom c"
| "expr_sexp (Var v) = Sym (var_name v)"
| "expr_sexp (Call f as _) = Lst (sname_sexp f # map expr_sexp as)"
| "expr_sexp (Lam x s b _) = Lst [Sym ''lam'', arg_sexp x (Some s), expr_sexp b]"
| "expr_sexp (LetE vs r b _) = Lst [Sym ''let'', Lst [binders_sexp vs, expr_sexp r], expr_sexp b]"
| "expr_sexp (IfE c d e _) = Lst [Sym ''if'', expr_sexp c, expr_sexp d, expr_sexp e]"
| "expr_sexp (Assert c b _) = Lst [Sym ''assert'', expr_sexp c, expr_sexp b]"

text \<open>
  What can be written: \<open>Any\<close> in rules only, a derivation of a name that is not the name of a type, a
  call whose name is not a keyword.
\<close>

fun name_ok :: "sname \<Rightarrow> bool" where
  "name_ok (SName s) \<longleftrightarrow> True"
| "name_ok (STyped s t) \<longleftrightarrow> \<not> contains_any t"
| "name_ok (SDerived d sn) \<longleftrightarrow> name_ok sn \<and>
     (case sn of SName s \<Rightarrow> s \<noteq> ''None'' \<and> (is_type_introducer s \<longrightarrow> s = ''Any'') | _ \<Rightarrow> True)"

fun writable :: "bool \<Rightarrow> expr \<Rightarrow> bool" where
  "writable allow (Const c) \<longleftrightarrow> True"
| "writable allow (Var v) \<longleftrightarrow> True"
| "writable allow (Call f as _) \<longleftrightarrow>
     name_ok f \<and> f \<notin> SName ` {''if'', ''assert'', ''let'', ''lam''} \<and> (\<forall>a \<in> set as. writable allow a)"
| "writable allow (Lam x s b _) \<longleftrightarrow> (allow \<or> \<not> contains_any s) \<and> writable allow b"
| "writable allow (LetE vs r b _) \<longleftrightarrow> vs \<noteq> Many [] \<and> writable allow r \<and> writable allow b"
| "writable allow (IfE c d e _) \<longleftrightarrow> writable allow c \<and> writable allow d \<and> writable allow e"
| "writable allow (Assert c b _) \<longleftrightarrow> writable allow c \<and> writable allow b"

lemma introducers [simp]:
  "is_type_introducer ''Integer''" "is_type_introducer ''Float''" "is_type_introducer ''Bool''"
  "is_type_introducer ''String''" "is_type_introducer ''Any''" "is_type_introducer ''Tuple''"
  by (simp_all add: is_type_introducer_def node_kinds_def)

lemma type_init_simps [simp]:
  "type_init ''Integer'' [] = Inr Integer" "type_init ''Float'' [] = Inr Float" "type_init ''Bool'' [] = Inr Bool"
  "type_init ''String'' [] = Inr String" "type_init ''Any'' [] = Inr Any" "type_init ''Tuple'' [] = Inr (Tuple [])"
  by (simp_all add: type_init_def node_kinds_def)

lemma type_child_Some [simp]: "type_child (Some t) = Inr t"
  by (simp add: type_child_def)

lemma unbracket_type_sexp: "unbracket (type_sexp t) = (if t = Tuple [] then Sym ''Tuple'' else type_sexp t)"
  by (cases t rule: type_sexp.cases) (auto simp: neq_Nil_conv)

lemma parse_type_maybe_sexp:
  "allow \<or> \<not> contains_any t \<Longrightarrow> parse_type_maybe allow (type_sexp t) = Inr (Some (Some t))"
proof (induction t)
  case (Tuple ts)
  then have "mapE (parse_type allow) (map type_sexp ts) = Inr (map Some ts)"
    unfolding mapE_map by (intro mapE_total) auto
  moreover have "mapE type_child (map Some ts) = Inr ts" by (induction ts) simp_all
  ultimately show ?case
    by (cases ts) (simp_all add: parse_type_maybe.simps [of allow "Lst xs" for xs])
qed (auto simp: parse_type_maybe.simps [of a "Lst xs" for a xs] parse_type_maybe.simps [of a "Sym s" for a s])

lemma parse_type_opt_sexp:
  "t = None \<or> allow \<or> \<not> contains_any (the t) \<Longrightarrow> parse_type allow (type_opt_sexp t) = Inr t"
  by (cases t) (simp_all add: type_opt_sexp_def parse_type_maybe_sexp parse_type_maybe.simps [of allow "Sym s" for s])

lemma parse_type_maybe_Brk: "parse_type_maybe allow (Brk ses) = Inr None"
  by (simp add: parse_type_maybe.simps)

lemma parse_sname_sexp: "name_ok sn \<Longrightarrow> parse_structured_name (sname_sexp sn) = Inr sn"
proof (induction sn)
  case (SDerived d sn)
  have "parse_type_maybe False (sname_sexp sn) = Inr None"
    using SDerived.prems by (cases sn) (auto simp: parse_type_maybe_Brk parse_type_maybe.simps [of _ "Sym s" for s])
  with SDerived show ?case by simp
qed (simp_all add: parse_type_maybe_sexp)

lemma parse_type_bracketed: "parse_type allow (Lst [s]) = parse_type allow s"
  by (simp add: parse_type_maybe.simps [of allow "Lst [s]"] parse_type_maybe.simps [of allow s])

lemma parse_arg_sexp:
  "t = None \<or> allow \<or> \<not> contains_any (the t) \<Longrightarrow> parse_arg allow (arg_sexp x t) = Inr (MkVar x t)"
  using parse_type_opt_sexp [of t allow] unfolding arg_sexp_def
  by (simp add: parse_type_bracketed del: parse_type.simps)

lemma parse_binders_sexp: "vs \<noteq> Many [] \<Longrightarrow> parse_binders (binders_sexp vs) = Inr (untyped_binders vs)"
proof (cases vs)
  case (Many ws)
  have "mapE parse_name (map (Sym \<circ> var_name) ws) = Inr (map var_name ws)"
    unfolding mapE_map by (intro mapE_total) simp
  then show ?thesis by (simp add: Many parse_binders_def binders_sexp_def)
qed (simp add: parse_binders_def binders_sexp_def)

lemma sname_sexp_keyword:
  "f \<notin> SName ` {''if'', ''assert'', ''let'', ''lam''} \<Longrightarrow> k \<in> {''if'', ''assert'', ''let'', ''lam''} \<Longrightarrow> sname_sexp f \<noteq> Sym k"
  by (cases f) auto

lemma parse_expr_sexp: "writable allow e \<Longrightarrow> parse_expr allow (expr_sexp e) = Inr (untype e)"
proof (induction e)
  case (Call f as t)
  then have "mapE (parse_expr allow) (map expr_sexp as) = Inr (map untype as)"
    unfolding mapE_map by (intro mapE_total) auto
  with Call.prems sname_sexp_keyword [of f] show ?case
    by (simp add: parse_expr.simps [of allow "Lst xs" for xs] parse_sname_sexp mk_call_def)
next
  case (Lam x s b t)
  then show ?case
    by (simp add: parse_expr.simps [of allow "Lst xs" for xs] parse_arg_sexp)
next
  case (LetE vs r b t)
  then show ?case
    by (cases vs) (auto simp: parse_expr.simps [of allow "Lst xs" for xs] parse_binders_sexp mk_let_def)
qed (simp_all add: parse_expr.simps [of allow "Lst xs" for xs] parse_expr.simps [of allow "Sym s" for s]
  parse_expr.simps [of allow "Atom c" for c])

fun tld_sexp :: "tld \<Rightarrow> sexp" where
  "tld_sexp (Def name ret args body) =
     Lst [Sym ''def'', sname_sexp name, type_opt_sexp ret,
       Lst (map (\<lambda>v. arg_sexp (var_name v) (var_type v)) args), expr_sexp body]"
| "tld_sexp (EDef name ret arg) = Lst [Sym ''edef'', sname_sexp name, type_opt_sexp ret, type_opt_sexp arg]"
| "tld_sexp (GDef d name) = Lst [Sym ''gdef'', Sym d, sname_sexp name]"
| "tld_sexp (Rule name vs template replacement) =
     Lst [Sym ''rule'', Atom (CStr name), Lst (map (\<lambda>v. arg_sexp (var_name v) (var_type v)) vs),
       expr_sexp template, expr_sexp replacement]"

definition type_opt_ok :: "ty option \<Rightarrow> bool" where
  "type_opt_ok t \<longleftrightarrow> t = None \<or> \<not> contains_any (the t)"

fun tld_writable :: "tld \<Rightarrow> bool" where
  "tld_writable (Def name ret args body) \<longleftrightarrow>
     name_ok name \<and> type_opt_ok ret \<and> (\<forall>v \<in> set args. type_opt_ok (var_type v)) \<and> writable False body"
| "tld_writable (EDef name ret arg) \<longleftrightarrow> name_ok name \<and> type_opt_ok ret \<and> type_opt_ok arg"
| "tld_writable (GDef d name) \<longleftrightarrow> name_ok name"
| "tld_writable (Rule name vs template replacement) \<longleftrightarrow> writable True template \<and> writable True replacement"

fun untype_tld :: "tld \<Rightarrow> tld" where
  "untype_tld (Def name ret args body) = Def name ret args (untype body)"
| "untype_tld (Rule name vs template replacement) = Rule name vs (untype template) (untype replacement)"
| "untype_tld d = d"

lemma parse_args_sexp:
  assumes "\<forall>v \<in> set vs. allow \<or> type_opt_ok (var_type v)"
  shows "parse_args allow (Lst (map (\<lambda>v. arg_sexp (var_name v) (var_type v)) vs)) = Inr vs"
proof -
  have "ensure_list_of_lists (Lst (map (\<lambda>v. arg_sexp (var_name v) (var_type v)) vs)) =
      Inr (map (\<lambda>v. arg_sexp (var_name v) (var_type v)) vs)"
    by (cases vs) (simp_all add: ensure_list_of_lists_def arg_sexp_def)
  moreover have "mapE (parse_arg allow) (map (\<lambda>v. arg_sexp (var_name v) (var_type v)) vs) = Inr (map id vs)"
    unfolding mapE_map using assms
    by (intro mapE_total) (auto simp: type_opt_ok_def intro!: trans [OF parse_arg_sexp])
  ultimately show ?thesis by (simp add: parse_args_def)
qed

text \<open>
  C14: Parsing inverts printing: the parser reads the s-expression of a definition back as the definition
  without its inferred types.
\<close>

theorem parse_print_tld:
  assumes "tld_writable d"
  shows "parse_tld (tld_sexp d) = Inr (untype_tld d)"
proof (cases d)
  case (Def name ret args body)
  with assms parse_type_opt_sexp [of ret False] show ?thesis
    by (simp add: parse_sname_sexp parse_args_sexp parse_expr_sexp type_opt_ok_def del: parse_type.simps)
next
  case (EDef name ret arg)
  with assms parse_type_opt_sexp [of ret False] parse_type_opt_sexp [of arg False] show ?thesis
    by (simp add: parse_sname_sexp type_opt_ok_def del: parse_type.simps)
next
  case (GDef dn name)
  with assms show ?thesis by (simp add: parse_sname_sexp)
next
  case (Rule name vs template replacement)
  with assms show ?thesis by (simp add: parse_args_sexp parse_expr_sexp)
qed

theorem parse_print_tld_witness:
  "parse_tld (tld_sexp (Def (SDerived ''rev'' (STyped ''f'' Float)) (Some (Tuple [Float, Integer]))
      [MkVar ''x'' (Some (Tensor 1 Float))]
      (LetE (Many [MkVar ''a'' (Some Float)]) (Call (SName ''f'') [Var (MkVar ''x'' None)] (Some Float))
        (Lam ''i'' Integer (Var (MkVar ''a'' None)) None) None))) =
    Inr (Def (SDerived ''rev'' (STyped ''f'' Float)) (Some (Tuple [Float, Integer]))
      [MkVar ''x'' (Some (Tensor 1 Float))]
      (LetE (Many [MkVar ''a'' None]) (Call (SName ''f'') [Var (MkVar ''x'' None)] None)
        (Lam ''i'' Integer (Var (MkVar ''a'' None)) None) None))"
  by (subst parse_print_tld) (auto simp: type_opt_ok_def)

end
