(* ===== verification/KsBackend.thy ===== *)
theory KsBackend
  imports KsSemantics
begin

text \<open>
  The execution of expressions by the Python backend: the values, the functions of
  \<open>src/python/ksc/backends/common.py\<close>, the names \<open>src/python/ksc/translate.py\<close> gives to
  calls, and the interpretation of expressions they add up to. The laws the
  transformations rely on (the locales of \<open>KsSemantics\<close>) are proved for this interpretation.
\<close>

section \<open>Values\<close>

text \<open>
  A function takes first-order data; \<open>VNd\<close> is a numpy array of scalars, its shape and its
  elements in row-major order.
\<close>

datatype data =
    DatInt int | DatFloat pyfloat | DatBool bool | DatStr string
  | DatTuple "data list" | DatList "data list" | DatNd "int list" "data list"

datatype val =
    VInt int | VFloat pyfloat | VBool bool | VStr string
  | VTuple "val list" | VList "val list" | VNd "int list" "data list"
  | VFun "data \<Rightarrow> py_error + val"

fun of_data :: "data \<Rightarrow> val" where
  "of_data (DatInt i) = VInt i"
| "of_data (DatFloat f) = VFloat f"
| "of_data (DatBool b) = VBool b"
| "of_data (DatStr s) = VStr s"
| "of_data (DatTuple ds) = VTuple (map of_data ds)"
| "of_data (DatList ds) = VList (map of_data ds)"
| "of_data (DatNd sh ds) = VNd sh ds"

fun to_data :: "val \<Rightarrow> data option" where
  "to_data (VInt i) = Some (DatInt i)"
| "to_data (VFloat f) = Some (DatFloat f)"
| "to_data (VBool b) = Some (DatBool b)"
| "to_data (VStr s) = Some (DatStr s)"
| "to_data (VTuple vs) = map_option DatTuple (those (map to_data vs))"
| "to_data (VList vs) = map_option DatList (those (map to_data vs))"
| "to_data (VNd sh ds) = Some (DatNd sh ds)"
| "to_data (VFun f) = None"

fun of_const :: "const \<Rightarrow> val" where
  "of_const (CInt i) = VInt i"
| "of_const (CFloat f) = VFloat f"
| "of_const (CBool b) = VBool b"
| "of_const (CStr s) = VStr s"

lemma those_Some: "those xs = Some ys \<longleftrightarrow> xs = map Some ys"
proof (induction xs arbitrary: ys)
  case (Cons x xs)
  then show ?case by (cases x; cases ys) auto
qed auto

lemma those_map_Some [simp]: "those (map Some xs) = Some xs"
  by (simp add: those_Some)

lemma to_data_of_data [simp]: "to_data (of_data d) = Some d"
proof (induction d)
  case (DatTuple ds)
  then have "map (to_data \<circ> of_data) ds = map Some ds" by simp
  then show ?case by (simp only: of_data.simps to_data.simps map_map those_map_Some) simp
next
  case (DatList ds)
  then have "map (to_data \<circ> of_data) ds = map Some ds" by simp
  then show ?case by (simp only: of_data.simps to_data.simps map_map those_map_Some) simp
qed simp_all

text \<open>
  The order on values: equal, except that a function may return where the other raises. A
  computation that raises is below every computation.
\<close>

inductive le_val :: "val \<Rightarrow> val \<Rightarrow> bool" where
  le_int: "le_val (VInt i) (VInt i)"
| le_float: "le_val (VFloat f) (VFloat f)"
| le_bool: "le_val (VBool b) (VBool b)"
| le_str: "le_val (VStr s) (VStr s)"
| le_tuple: "list_all2 le_val vs ws \<Longrightarrow> le_val (VTuple vs) (VTuple ws)"
| le_list: "list_all2 le_val vs ws \<Longrightarrow> le_val (VList vs) (VList ws)"
| le_nd: "le_val (VNd sh ds) (VNd sh ds)"
| le_fun: "(\<And>d u. f d = Inr u \<Longrightarrow> \<exists>w. g d = Inr w \<and> le_val u w) \<Longrightarrow> le_val (VFun f) (VFun g)"

inductive_simps le_val_simps [simp]:
  "le_val (VInt i) w" "le_val (VFloat f) w" "le_val (VBool b) w" "le_val (VStr s) w"
  "le_val (VTuple vs) w" "le_val (VList vs) w" "le_val (VNd sh ds) w" "le_val (VFun f) w"

lemma le_val_refl: "le_val v v"
proof (induction v)
  case (VTuple vs)
  then show ?case by (simp add: list_all2_same)
next
  case (VList vs)
  then show ?case by (simp add: list_all2_same)
next
  case (VFun f)
  have "le_val u u" if "f d = Inr u" for d u
    using VFun.IH [OF rangeI, of u d] that by (auto intro: setr.intros)
  then show ?case by auto
qed simp_all

lemma le_val_trans: "le_val u v \<Longrightarrow> le_val v w \<Longrightarrow> le_val u w"
proof (induction u v arbitrary: w rule: le_val.induct)
  case (le_tuple us vs)
  then obtain ws where w: "w = VTuple ws" "list_all2 le_val vs ws" by auto
  with le_tuple.IH have "list_all2 le_val us ws"
    by (auto simp: list_all2_conv_all_nth)
  with w show ?case by simp
next
  case (le_list us vs)
  then obtain ws where w: "w = VList ws" "list_all2 le_val vs ws" by auto
  with le_list.IH have "list_all2 le_val us ws"
    by (auto simp: list_all2_conv_all_nth)
  with w show ?case by simp
next
  case (le_fun f g)
  then obtain h where w: "w = VFun h" and gh: "\<And>d u. g d = Inr u \<Longrightarrow> \<exists>w. h d = Inr w \<and> le_val u w"
    by auto
  have "\<exists>w. h d = Inr w \<and> le_val u w" if "f d = Inr u" for d u
    using le_fun.IH [OF that] gh by blast
  with w show ?case by simp
qed auto

instantiation val :: preorder
begin

definition less_eq_val :: "val \<Rightarrow> val \<Rightarrow> bool" where
  "less_eq_val v w \<longleftrightarrow> le_val v w"

definition less_val :: "val \<Rightarrow> val \<Rightarrow> bool" where
  "less_val v w \<longleftrightarrow> le_val v w \<and> \<not> le_val w v"

instance
proof
  fix u v w :: val
  show "u \<le> u" by (simp add: less_eq_val_def le_val_refl)
  show "u \<le> v \<Longrightarrow> v \<le> w \<Longrightarrow> u \<le> w" by (auto simp: less_eq_val_def intro: le_val_trans)
  show "u < v \<longleftrightarrow> u \<le> v \<and> \<not> v \<le> u" by (simp add: less_eq_val_def less_val_def)
qed

end

definition le_res :: "val result \<Rightarrow> val result \<Rightarrow> bool" where
  "le_res r s \<longleftrightarrow> (\<forall>u. r = Inr u \<longrightarrow> (\<exists>w. s = Inr w \<and> u \<le> w))"

lemma le_res_simps [simp]:
  "le_res (Inl e) s" "le_res (Inr u) (Inr w) \<longleftrightarrow> u \<le> w" "\<not> le_res (Inr u) (Inl e)"
  by (auto simp: le_res_def)

lemma le_res_Inr: "le_res (Inr u) s \<longleftrightarrow> (\<exists>w. s = Inr w \<and> u \<le> w)"
  by (auto simp: le_res_def)

lemma le_res_refl [simp]: "le_res r r"
  by (auto simp: le_res_def)

lemma le_res_trans: "le_res r s \<Longrightarrow> le_res s t \<Longrightarrow> le_res r t"
  by (fastforce simp: le_res_def intro: order_trans)

text \<open>On data the order is equality.\<close>

lemma to_data_list_le:
  "list_all2 (\<lambda>v w. le_val v w \<and> (\<forall>d. to_data v = Some d \<longrightarrow> to_data w = Some d)) vs ws \<Longrightarrow>
   those (map to_data vs) = Some ds \<Longrightarrow> those (map to_data ws) = Some ds"
  unfolding those_Some
proof (induction vs ws arbitrary: ds rule: list_all2_induct)
  case (Cons v vs w ws)
  then show ?case by (cases ds) auto
qed simp

lemma to_data_le: "le_val v w \<Longrightarrow> to_data v = Some d \<Longrightarrow> to_data w = Some d"
proof (induction v w arbitrary: d rule: le_val.induct)
  case (le_tuple vs ws)
  then obtain ds where ds: "those (map to_data vs) = Some ds" "d = DatTuple ds" by auto
  from to_data_list_le [OF le_tuple.IH [simplified] ds(1)] ds(2) show ?case by simp
next
  case (le_list vs ws)
  then obtain ds where ds: "those (map to_data vs) = Some ds" "d = DatList ds" by auto
  from to_data_list_le [OF le_list.IH [simplified] ds(1)] ds(2) show ?case by simp
qed auto

section \<open>Python's operators on data\<close>

text \<open>
  The arithmetic of IEEE floats is a parameter: the operators of Python's \<open>float\<close>, which may
  raise, and \<open>np.log\<close>. Integers are exact. Operators on numpy arrays are numpy's: they answer
  \<open>NotImplementedError\<close> here, as does everything else that compares or adds functions.
\<close>

record py_ops =
  f_of_int :: "int \<Rightarrow> pyfloat result"
  f_of_str :: "string \<Rightarrow> pyfloat result"
  f_add :: "pyfloat \<Rightarrow> pyfloat \<Rightarrow> pyfloat result"
  f_sub :: "pyfloat \<Rightarrow> pyfloat \<Rightarrow> pyfloat result"
  f_mul :: "pyfloat \<Rightarrow> pyfloat \<Rightarrow> pyfloat result"
  f_div :: "pyfloat \<Rightarrow> pyfloat \<Rightarrow> pyfloat result"
  f_div_ints :: "int \<Rightarrow> int \<Rightarrow> pyfloat result"
  f_floordiv :: "pyfloat \<Rightarrow> pyfloat \<Rightarrow> pyfloat result"
  f_pow :: "pyfloat \<Rightarrow> pyfloat \<Rightarrow> pyfloat result"
  f_log :: "pyfloat \<Rightarrow> pyfloat"

text \<open>A number: an integer (a \<open>bool\<close> counts as one) or a float.\<close>

fun as_number :: "data \<Rightarrow> (int + pyfloat) option" where
  "as_number (DatInt i) = Some (Inl i)"
| "as_number (DatBool b) = Some (Inl (if b then 1 else 0))"
| "as_number (DatFloat f) = Some (Inr f)"
| "as_number _ = None"

definition to_float :: "py_ops \<Rightarrow> int + pyfloat \<Rightarrow> pyfloat result" where
  "to_float ops n = (case n of Inl i \<Rightarrow> f_of_int ops i | Inr f \<Rightarrow> Inr f)"

definition arith :: "py_ops \<Rightarrow> (int \<Rightarrow> int \<Rightarrow> data result) \<Rightarrow> (pyfloat \<Rightarrow> pyfloat \<Rightarrow> pyfloat result) \<Rightarrow>
    data \<Rightarrow> data \<Rightarrow> data result" where
  "arith ops fi ff a b =
     (case (as_number a, as_number b) of
        (Some (Inl i), Some (Inl j)) \<Rightarrow> fi i j
      | (Some m, Some n) \<Rightarrow>
          bindE (to_float ops m) (\<lambda>x. bindE (to_float ops n) (\<lambda>y. bindE (ff x y) (\<lambda>z. Inr (DatFloat z))))
      | _ \<Rightarrow> Inl TypeError)"

fun is_nd :: "data \<Rightarrow> bool" where
  "is_nd (DatNd _ _) \<longleftrightarrow> True"
| "is_nd _ \<longleftrightarrow> False"

definition no_nd :: "(data \<Rightarrow> data \<Rightarrow> 'a result) \<Rightarrow> data \<Rightarrow> data \<Rightarrow> 'a result" where
  "no_nd g a b = (if is_nd a \<or> is_nd b then Inl NotImplementedError else g a b)"

fun data_add :: "py_ops \<Rightarrow> data \<Rightarrow> data \<Rightarrow> data result" where
  "data_add ops (DatStr s) (DatStr t) = Inr (DatStr (s @ t))"
| "data_add ops (DatTuple xs) (DatTuple ys) = Inr (DatTuple (xs @ ys))"
| "data_add ops (DatList xs) (DatList ys) = Inr (DatList (xs @ ys))"
| "data_add ops a b = no_nd (arith ops (\<lambda>i j. Inr (DatInt (i + j))) (f_add ops)) a b"

definition data_sub :: "py_ops \<Rightarrow> data \<Rightarrow> data \<Rightarrow> data result" where
  "data_sub ops = no_nd (arith ops (\<lambda>i j. Inr (DatInt (i - j))) (f_sub ops))"

definition repeat :: "int \<Rightarrow> 'a list \<Rightarrow> 'a list" where
  "repeat n xs = concat (replicate (nat n) xs)"

text \<open>\<open>*\<close>: a sequence times an integer repeats the sequence.\<close>

definition data_mul :: "py_ops \<Rightarrow> data \<Rightarrow> data \<Rightarrow> data result" where
  "data_mul ops a b =
     (case (a, as_number b) of
        (DatStr s, Some (Inl n)) \<Rightarrow> Inr (DatStr (repeat n s))
      | (DatTuple xs, Some (Inl n)) \<Rightarrow> Inr (DatTuple (repeat n xs))
      | (DatList xs, Some (Inl n)) \<Rightarrow> Inr (DatList (repeat n xs))
      | _ \<Rightarrow>
        (case (as_number a, b) of
           (Some (Inl n), DatStr s) \<Rightarrow> Inr (DatStr (repeat n s))
         | (Some (Inl n), DatTuple xs) \<Rightarrow> Inr (DatTuple (repeat n xs))
         | (Some (Inl n), DatList xs) \<Rightarrow> Inr (DatList (repeat n xs))
         | _ \<Rightarrow> no_nd (arith ops (\<lambda>i j. Inr (DatInt (i * j))) (f_mul ops)) a b))"

definition data_floordiv :: "py_ops \<Rightarrow> data \<Rightarrow> data \<Rightarrow> data result" where
  "data_floordiv ops =
     no_nd (arith ops (\<lambda>i j. if j = 0 then Inl ZeroDivisionError else Inr (DatInt (i div j))) (f_floordiv ops))"

definition data_truediv :: "py_ops \<Rightarrow> data \<Rightarrow> data \<Rightarrow> data result" where
  "data_truediv ops =
     no_nd (arith ops (\<lambda>i j. bindE (f_div_ints ops i j) (\<lambda>z. Inr (DatFloat z))) (f_div ops))"

definition data_pow :: "py_ops \<Rightarrow> data \<Rightarrow> data \<Rightarrow> data result" where
  "data_pow ops =
     no_nd (arith ops
       (\<lambda>i j. if 0 \<le> j then Inr (DatInt (i ^ nat j))
         else bindE (f_of_int ops i) (\<lambda>x. bindE (f_of_int ops j) (\<lambda>y.
              bindE (f_pow ops x y) (\<lambda>z. Inr (DatFloat z)))))
       (f_pow ops))"

text \<open>Comparison; \<open>float_lt\<close> is applied to values whose negative zero has become zero.\<close>

fun float_lt :: "pyfloat \<Rightarrow> pyfloat \<Rightarrow> bool" where
  "float_lt (Fin r) (Fin s) \<longleftrightarrow> r < s"
| "float_lt (Fin r) PosInf \<longleftrightarrow> True"
| "float_lt NegInf (Fin r) \<longleftrightarrow> True"
| "float_lt NegInf PosInf \<longleftrightarrow> True"
| "float_lt _ _ \<longleftrightarrow> False"

definition num_const :: "int + pyfloat \<Rightarrow> const" where
  "num_const n = (case n of Inl i \<Rightarrow> CInt i | Inr f \<Rightarrow> CFloat f)"

definition num_lt :: "int + pyfloat \<Rightarrow> int + pyfloat \<Rightarrow> bool" where
  "num_lt m n \<longleftrightarrow> float_lt (the (const_num (num_const m))) (the (const_num (num_const n)))"

fun data_eq :: "data \<Rightarrow> data \<Rightarrow> bool" where
  "data_eq (DatStr s) (DatStr t) \<longleftrightarrow> s = t"
| "data_eq (DatTuple xs) (DatTuple ys) \<longleftrightarrow>
     length xs = length ys \<and> (\<forall>(x, y) \<in> set (zip xs ys). data_eq x y)"
| "data_eq (DatList xs) (DatList ys) \<longleftrightarrow>
     length xs = length ys \<and> (\<forall>(x, y) \<in> set (zip xs ys). data_eq x y)"
| "data_eq a b \<longleftrightarrow>
     (case (as_number a, as_number b) of
        (Some m, Some n) \<Rightarrow> const_eq (num_const m) (num_const n)
      | _ \<Rightarrow> False)"

fun str_lt :: "string \<Rightarrow> string \<Rightarrow> bool" where
  "str_lt s [] \<longleftrightarrow> False"
| "str_lt [] (d # t) \<longleftrightarrow> True"
| "str_lt (c # s) (d # t) \<longleftrightarrow>
     (if c = d then str_lt s t else (of_char c :: nat) < of_char d)"

fun data_lt :: "data \<Rightarrow> data \<Rightarrow> bool result"
  and data_list_lt :: "data list \<Rightarrow> data list \<Rightarrow> bool result" where
  "data_lt (DatStr s) (DatStr t) = Inr (str_lt s t)"
| "data_lt (DatTuple xs) (DatTuple ys) = data_list_lt xs ys"
| "data_lt (DatList xs) (DatList ys) = data_list_lt xs ys"
| "data_lt a b =
     (case (as_number a, as_number b) of
        (Some m, Some n) \<Rightarrow> Inr (num_lt m n)
      | _ \<Rightarrow> Inl TypeError)"
| "data_list_lt [] [] = Inr False"
| "data_list_lt [] (y # ys) = Inr True"
| "data_list_lt (x # xs) [] = Inr False"
| "data_list_lt (x # xs) (y # ys) = (if data_eq x y then data_list_lt xs ys else data_lt x y)"

section \<open>The functions of backends/common.py\<close>

definition on_data :: "(data \<Rightarrow> data result) \<Rightarrow> val \<Rightarrow> val result" where
  "on_data g v = (case to_data v of Some d \<Rightarrow> bindE (g d) (\<lambda>r. Inr (of_data r)) | None \<Rightarrow> Inl NotImplementedError)"

definition on_data2 :: "(data \<Rightarrow> data \<Rightarrow> data result) \<Rightarrow> val \<Rightarrow> val \<Rightarrow> val result" where
  "on_data2 g v w =
     (case (to_data v, to_data w) of
        (Some a, Some b) \<Rightarrow> bindE (g a b) (\<lambda>r. Inr (of_data r))
      | _ \<Rightarrow> Inl NotImplementedError)"

definition bool_data :: "bool result \<Rightarrow> data result" where
  "bool_data r = bindE r (\<lambda>b. Inr (DatBool b))"

definition py_add :: "py_ops \<Rightarrow> val \<Rightarrow> val \<Rightarrow> val result" where
  "py_add ops = on_data2 (data_add ops)"

definition py_sub :: "py_ops \<Rightarrow> val \<Rightarrow> val \<Rightarrow> val result" where
  "py_sub ops = on_data2 (data_sub ops)"

definition py_mul :: "py_ops \<Rightarrow> val \<Rightarrow> val \<Rightarrow> val result" where
  "py_mul ops = on_data2 (data_mul ops)"

definition py_div_ii :: "py_ops \<Rightarrow> val \<Rightarrow> val \<Rightarrow> val result" where
  "py_div_ii ops = on_data2 (data_floordiv ops)"

definition py_div_ff :: "py_ops \<Rightarrow> val \<Rightarrow> val \<Rightarrow> val result" where
  "py_div_ff ops = on_data2 (data_truediv ops)"

text \<open>\<open>div\<close>: a \<open>bool\<close> is an instance of \<open>int\<close>.\<close>

definition py_div :: "py_ops \<Rightarrow> val \<Rightarrow> val \<Rightarrow> val result" where
  "py_div ops = on_data2 (\<lambda>a b.
     case a of
       DatInt _ \<Rightarrow> data_floordiv ops a b
     | DatBool _ \<Rightarrow> data_floordiv ops a b
     | _ \<Rightarrow> data_truediv ops a b)"

definition py_eq :: "val \<Rightarrow> val \<Rightarrow> val result" where
  "py_eq = on_data2 (no_nd (\<lambda>a b. Inr (DatBool (data_eq a b))))"

definition py_lt :: "val \<Rightarrow> val \<Rightarrow> val result" where
  "py_lt = on_data2 (no_nd (\<lambda>a b. bool_data (data_lt a b)))"

definition py_gt :: "val \<Rightarrow> val \<Rightarrow> val result" where
  "py_gt = on_data2 (no_nd (\<lambda>a b. bool_data (data_lt b a)))"

definition py_lte :: "val \<Rightarrow> val \<Rightarrow> val result" where
  "py_lte = on_data2 (no_nd (\<lambda>a b. bool_data (bindE (data_lt a b) (\<lambda>r. Inr (r \<or> data_eq a b)))))"

definition py_gte :: "val \<Rightarrow> val \<Rightarrow> val result" where
  "py_gte = on_data2 (no_nd (\<lambda>a b. bool_data (bindE (data_lt b a) (\<lambda>r. Inr (r \<or> data_eq a b)))))"

text \<open>The truth value of a Python object; that of an array of several elements is an error.\<close>

fun truthy :: "val \<Rightarrow> bool result" where
  "truthy (VInt i) = Inr (i \<noteq> 0)"
| "truthy (VFloat f) = Inr (f \<noteq> Fin 0 \<and> f \<noteq> NegZero)"
| "truthy (VBool b) = Inr b"
| "truthy (VStr s) = Inr (s \<noteq> [])"
| "truthy (VTuple vs) = Inr (vs \<noteq> [])"
| "truthy (VList vs) = Inr (vs \<noteq> [])"
| "truthy (VNd sh ds) = Inl ValueError"
| "truthy (VFun f) = Inr True"

definition py_or :: "val \<Rightarrow> val \<Rightarrow> val result" where
  "py_or a b = bindE (truthy a) (\<lambda>t. Inr (if t then a else b))"

definition py_and :: "val \<Rightarrow> val \<Rightarrow> val result" where
  "py_and a b = bindE (truthy a) (\<lambda>t. Inr (if t then b else a))"

fun float_neg :: "pyfloat \<Rightarrow> pyfloat" where
  "float_neg (Fin r) = (if r = 0 then NegZero else Fin (- r))"
| "float_neg NegZero = Fin 0"
| "float_neg PosInf = NegInf"
| "float_neg NegInf = PosInf"
| "float_neg NaN = NaN"

fun float_abs :: "pyfloat \<Rightarrow> pyfloat" where
  "float_abs (Fin r) = Fin (abs r)"
| "float_abs NegZero = Fin 0"
| "float_abs NegInf = PosInf"
| "float_abs f = f"

definition on_number :: "(int \<Rightarrow> data result) \<Rightarrow> (pyfloat \<Rightarrow> data result) \<Rightarrow> data \<Rightarrow> data result" where
  "on_number fi ff d =
     (if is_nd d then Inl NotImplementedError
      else (case as_number d of
          Some (Inl i) \<Rightarrow> fi i
        | Some (Inr f) \<Rightarrow> ff f
        | None \<Rightarrow> Inl TypeError))"

definition py_abs :: "val \<Rightarrow> val result" where
  "py_abs = on_data (on_number (\<lambda>i. Inr (DatInt (abs i))) (\<lambda>f. Inr (DatFloat (float_abs f))))"

definition py_neg :: "val \<Rightarrow> val result" where
  "py_neg = on_data (on_number (\<lambda>i. Inr (DatInt (- i))) (\<lambda>f. Inr (DatFloat (float_neg f))))"

definition py_max :: "val \<Rightarrow> val \<Rightarrow> val result" where
  "py_max = on_data2 (no_nd (\<lambda>a b. bindE (data_lt a b) (\<lambda>r. Inr (if r then b else a))))"

definition py_pow :: "py_ops \<Rightarrow> val \<Rightarrow> val \<Rightarrow> val result" where
  "py_pow ops = on_data2 (data_pow ops)"

definition py_log :: "py_ops \<Rightarrow> val \<Rightarrow> val result" where
  "py_log ops = on_data (on_number
     (\<lambda>i. bindE (f_of_int ops i) (\<lambda>f. Inr (DatFloat (f_log ops f))))
     (\<lambda>f. Inr (DatFloat (f_log ops f))))"

definition py_to_float_i :: "py_ops \<Rightarrow> val \<Rightarrow> val result" where
  "py_to_float_i ops = on_data (\<lambda>d.
     case d of
       DatStr s \<Rightarrow> bindE (f_of_str ops s) (\<lambda>f. Inr (DatFloat f))
     | _ \<Rightarrow> on_number (\<lambda>i. bindE (f_of_int ops i) (\<lambda>f. Inr (DatFloat f))) (\<lambda>f. Inr (DatFloat f)) d)"

text \<open>Calling a value, and \<open>range\<close> of a value.\<close>

definition call_fun :: "val \<Rightarrow> val \<Rightarrow> val result" where
  "call_fun g v =
     (case g of
        VFun f \<Rightarrow> (case to_data v of Some d \<Rightarrow> f d | None \<Rightarrow> Inl NotImplementedError)
      | _ \<Rightarrow> Inl TypeError)"

fun int_of :: "val \<Rightarrow> int result" where
  "int_of (VInt i) = Inr i"
| "int_of (VBool b) = Inr (if b then 1 else 0)"
| "int_of _ = Inl TypeError"

definition py_range :: "int \<Rightarrow> int list" where
  "py_range n = map int [0..<nat n]"

text \<open>\<open>ndgrid_inds\<close> of \<open>src/python/ksc/utils.py\<close>: the product of the ranges, the last index fastest.\<close>

fun ndgrid_inds :: "int list \<Rightarrow> int list list" where
  "ndgrid_inds [] = [[]]"
| "ndgrid_inds (n # sz) = concat (map (\<lambda>i. map (\<lambda>is. i # is) (ndgrid_inds sz)) (py_range n))"

fun scalar_data :: "val \<Rightarrow> data result" where
  "scalar_data (VInt i) = Inr (DatInt i)"
| "scalar_data (VFloat f) = Inr (DatFloat f)"
| "scalar_data (VBool b) = Inr (DatBool b)"
| "scalar_data _ = Inl ValueError"

definition py_build :: "val \<Rightarrow> val \<Rightarrow> val result" where
  "py_build sz f =
     (case sz of
        VInt n \<Rightarrow> bindE (mapE (\<lambda>i. call_fun f (VInt i)) (py_range n)) (\<lambda>vs. Inr (VList vs))
      | VBool b \<Rightarrow> bindE (mapE (\<lambda>i. call_fun f (VInt i)) (py_range (if b then 1 else 0))) (\<lambda>vs. Inr (VList vs))
      | VTuple szs \<Rightarrow>
          bindE (mapE int_of szs) (\<lambda>dims.
          bindE (mapE (\<lambda>ind. call_fun f (VTuple (map VInt ind))) (ndgrid_inds dims)) (\<lambda>vs.
          bindE (mapE scalar_data vs) (\<lambda>ds.
          if list_ex (\<lambda>d. d < 0) dims then Inl NotImplementedError else Inr (VNd dims ds))))
      | _ \<Rightarrow> Inl AssertionError)"

definition foldE :: "('s \<Rightarrow> 'a \<Rightarrow> 's result) \<Rightarrow> 's result \<Rightarrow> 'a list \<Rightarrow> 's result" where
  "foldE f = foldl (\<lambda>r x. bindE r (\<lambda>s. f s x))"

definition py_sumbuild :: "py_ops \<Rightarrow> val \<Rightarrow> val \<Rightarrow> val result" where
  "py_sumbuild ops n f =
     bindE (int_of n) (\<lambda>m.
     foldE (\<lambda>s i. bindE (call_fun f (VInt i)) (\<lambda>v. py_add ops s v)) (Inr (VInt 0)) (py_range m))"

text \<open>Indexing an array: each index selects a block of the remaining dimensions.\<close>

fun nd_index :: "int list \<Rightarrow> data list \<Rightarrow> int list \<Rightarrow> val result" where
  "nd_index sh ds [] =
     (case sh of [] \<Rightarrow> (case ds of [d] \<Rightarrow> Inr (of_data d) | _ \<Rightarrow> Inl ValueError) | _ \<Rightarrow> Inr (VNd sh ds))"
| "nd_index [] ds (i # is) = Inl IndexError"
| "nd_index (n # sh) ds (i # is) =
     (let j = (if i < 0 then n + i else i); block = nat (prod_list sh)
      in if 0 \<le> j \<and> j < n then nd_index sh (take block (drop (nat j * block) ds)) is else Inl IndexError)"

definition py_item :: "val \<Rightarrow> val \<Rightarrow> val result" where
  "py_item v i =
     (case v of
        VList vs \<Rightarrow> bindE (int_of i) (\<lambda>k. py_index vs k)
      | VTuple vs \<Rightarrow> bindE (int_of i) (\<lambda>k. py_index vs k)
      | VStr s \<Rightarrow> bindE (int_of i) (\<lambda>k. bindE (py_index s k) (\<lambda>c. Inr (VStr [c])))
      | VNd sh ds \<Rightarrow>
          (case i of
             VTuple is \<Rightarrow> bindE (mapE int_of is) (\<lambda>ks. nd_index sh ds ks)
           | VInt k \<Rightarrow> nd_index sh ds [k]
           | _ \<Rightarrow> Inl NotImplementedError)
      | _ \<Rightarrow> Inl TypeError)"

text \<open>\<open>index(i, v)\<close> and \<open>get_tuple_element(i, tup)\<close>\<close>

definition py_index_of :: "val \<Rightarrow> val \<Rightarrow> val result" where
  "py_index_of i v = py_item v i"

definition get_tuple_element :: "int \<Rightarrow> val \<Rightarrow> val result" where
  "get_tuple_element i tup = py_item tup (VInt i)"

definition make_tuple :: "val list \<Rightarrow> val" where
  "make_tuple vs = VTuple vs"

definition py_size :: "val \<Rightarrow> val result" where
  "py_size v =
     (case v of
        VList vs \<Rightarrow> Inr (VInt (int (length vs)))
      | VNd sh ds \<Rightarrow> Inr (case sh of [n] \<Rightarrow> VInt n | _ \<Rightarrow> VTuple (map VInt sh))
      | _ \<Rightarrow> Inl AttributeError)"

definition py_fold :: "val \<Rightarrow> val \<Rightarrow> val \<Rightarrow> val result" where
  "py_fold f s0 xs =
     (case xs of
        VList vs \<Rightarrow> foldE (\<lambda>s x. call_fun f (VTuple [s, x])) (Inr s0) vs
      | VTuple vs \<Rightarrow> foldE (\<lambda>s x. call_fun f (VTuple [s, x])) (Inr s0) vs
      | VStr s \<Rightarrow> foldE (\<lambda>s x. call_fun f (VTuple [s, x])) (Inr s0) (map (\<lambda>c. VStr [c]) s)
      | VNd _ _ \<Rightarrow> Inl NotImplementedError
      | _ \<Rightarrow> Inl TypeError)"

text \<open>
  \<open>let(tupled, var, body)\<close>, \<open>if_then_else\<close> and \<open>assert_\<close>. The branches of a conditional are
  thunks, the arguments of \<open>assert_\<close> are computed before the assertion. \<open>body(*var)\<close> takes the
  elements of a tuple, a list or a string.
\<close>

definition let_one :: "val \<Rightarrow> (val \<Rightarrow> val result) \<Rightarrow> val result" where
  "let_one var body = body var"

definition let_tupled :: "nat \<Rightarrow> val \<Rightarrow> ((nat \<Rightarrow> val result) \<Rightarrow> val result) \<Rightarrow> val result" where
  "let_tupled n var body =
     (let call = (\<lambda>vs. if length vs = n then body (\<lambda>i. if i < n then Inr (vs ! i) else Inl IndexError)
                       else Inl TypeError)
      in case var of
           VTuple vs \<Rightarrow> call vs
         | VList vs \<Rightarrow> call vs
         | VStr s \<Rightarrow> call (map (\<lambda>c. VStr [c]) s)
         | VNd _ _ \<Rightarrow> Inl NotImplementedError
         | _ \<Rightarrow> Inl TypeError)"

definition if_then_else :: "val \<Rightarrow> val result \<Rightarrow> val result \<Rightarrow> val result" where
  "if_then_else cond then_branch else_branch =
     bindE (truthy cond) (\<lambda>b. if b then then_branch else else_branch)"

definition assert_py :: "val \<Rightarrow> val \<Rightarrow> val result" where
  "assert_py cond body = bindE (truthy cond) (\<lambda>b. bindE (assertE b) (\<lambda>_. Inr body))"

text \<open>The functions the module exports, by name; a wrong number of arguments is a \<open>TypeError\<close>.\<close>

definition call1 :: "(val \<Rightarrow> val result) \<Rightarrow> val list \<Rightarrow> val result" where
  "call1 f vs = (case vs of [a] \<Rightarrow> f a | _ \<Rightarrow> Inl TypeError)"

definition call2 :: "(val \<Rightarrow> val \<Rightarrow> val result) \<Rightarrow> val list \<Rightarrow> val result" where
  "call2 f vs = (case vs of [a, b] \<Rightarrow> f a b | _ \<Rightarrow> Inl TypeError)"

definition call3 :: "(val \<Rightarrow> val \<Rightarrow> val \<Rightarrow> val result) \<Rightarrow> val list \<Rightarrow> val result" where
  "call3 f vs = (case vs of [a, b, c] \<Rightarrow> f a b c | _ \<Rightarrow> Inl TypeError)"

definition built_ins :: "py_ops \<Rightarrow> (string, val list \<Rightarrow> val result) dict" where
  "built_ins ops =
     [(''build'', call2 py_build), (''sumbuild'', call2 (py_sumbuild ops)), (''size'', call1 py_size),
      (''index'', call2 py_index_of), (''fold'', call3 py_fold),
      (''add'', call2 (py_add ops)), (''sub'', call2 (py_sub ops)), (''mul'', call2 (py_mul ops)),
      (''div_ii'', call2 (py_div_ii ops)), (''div_ff'', call2 (py_div_ff ops)),
      (''div'', call2 (py_div ops)), (''eq'', call2 py_eq), (''lt'', call2 py_lt), (''gt'', call2 py_gt),
      (''lte'', call2 py_lte), (''gte'', call2 py_gte), (''or_'', call2 py_or), (''and_'', call2 py_and),
      (''abs_'', call1 py_abs), (''max_'', call2 py_max), (''neg'', call1 py_neg),
      (''pow'', call2 (py_pow ops)), (''log'', call1 (py_log ops)),
      (''to_float_i'', call1 (py_to_float_i ops))]"

section \<open>Names of calls\<close>

text \<open>\<open>specs.specialized_functions\<close> and the list \<open>_built_ins\<close> of the backend.\<close>

definition specialized_functions :: "(string, string) dict" where
  "specialized_functions =
     [(''to_float@i'', ''to_float_i''), (''div@ii'', ''div_ii''), (''div@ff'', ''div_ff''),
      (''div@vfvf'', ''div_ff''), (''div@vvfvvf'', ''div_ff''), (''div@vvvfvvvf'', ''div_ff''),
      (''div@vvvvfvvvvf'', ''div_ff'')]"

definition built_in_names :: "string list" where
  "built_in_names =
     [''build'', ''sumbuild'', ''size'', ''index'', ''fold'', ''make_tuple'', ''get_tuple_element'',
      ''let'', ''if_then_else'', ''assert_'', ''add'', ''sub'', ''mul'', ''div_ii'', ''div_ff'', ''div'',
      ''eq'', ''lt'', ''gt'', ''lte'', ''gte'', ''or_'', ''and_'', ''abs_'', ''max_'', ''neg'', ''pow'']"

text \<open>\<open>Translator.normalize_def_name\<close>, of a string and of a structured name.\<close>

definition normalize_name :: "string \<Rightarrow> string" where
  "normalize_name name =
     (case map_of specialized_functions name of
        Some s \<Rightarrow> s
      | None \<Rightarrow>
          if name \<in> set built_in_names \<or> starts_with ''get$'' name then name
          else if name \<in> set [''or'', ''and'', ''max'', ''abs'', ''assert''] then name @ ''_''
          else replace_char (CHR ''$'') ''_'' name)"

fun normalize_def_name :: "sname \<Rightarrow> string result" where
  "normalize_def_name (SName s) = Inr (normalize_name s)"
| "normalize_def_name (SDerived d sn) = bindE (normalize_def_name sn) (\<lambda>n. Inr (d @ ''_'' @ n))"
| "normalize_def_name (STyped s t) = Inl AttributeError"

text \<open>\<open>int(name.split("$")[1]) - 1\<close>\<close>

definition tuple_index :: "string \<Rightarrow> int result" where
  "tuple_index name =
     (let ds = takeWhile (\<lambda>c. c \<noteq> CHR ''$'') (drop 4 name)
      in if ds \<noteq> [] \<and> list_all is_digit ds then Inr (int (str_nat ds) - 1) else Inl ValueError)"

text \<open>
  What the code generated for a call does; \<open>user\<close> are the functions defined by the program. Only
  an identifier can be the name of a function.
\<close>

definition ident_char :: "char \<Rightarrow> bool" where
  "ident_char c \<longleftrightarrow>
     (let n = (of_char c :: nat) in is_digit c \<or> n = 95 \<or> 65 \<le> n \<and> n \<le> 90 \<or> 97 \<le> n \<and> n \<le> 122)"

definition call_name ::
    "py_ops \<Rightarrow> (string \<Rightarrow> (val list \<Rightarrow> val result) option) \<Rightarrow> sname \<Rightarrow> val result list \<Rightarrow> val result" where
  "call_name ops user f rs =
     bindE (mangled f) (\<lambda>name.
     if starts_with ''get$'' name then
       bindE (tuple_index name) (\<lambda>i.
       case rs of [] \<Rightarrow> Inl IndexError | r # _ \<Rightarrow> bindE r (get_tuple_element i))
     else
       bindE (mapE id rs) (\<lambda>vs.
       if name = ''tuple'' then Inr (make_tuple vs)
       else case (if list_all ident_char (normalize_name name) then user (normalize_name name) else None) of
          Some g \<Rightarrow> g vs
        | None \<Rightarrow>
            (case map_of (built_ins ops) (normalize_name name) of
               Some g \<Rightarrow> g vs
             | None \<Rightarrow> Inl NameError)))"

section \<open>The interpretation\<close>

definition backend_algebra ::
    "py_ops \<Rightarrow> (string \<Rightarrow> (val list \<Rightarrow> val result) option) \<Rightarrow> val result algebra" where
  "backend_algebra ops user =
     \<lparr>a_const = (\<lambda>c. Inr (of_const c)),
      a_call = call_name ops user,
      a_lam = (\<lambda>s k. Inr (VFun (\<lambda>d. k (Inr (of_data d))))),
      a_let = (\<lambda>r k. bindE r (\<lambda>v. let_one v (\<lambda>u. k (Inr u)))),
      a_lets = (\<lambda>n r k. bindE r (\<lambda>v. let_tupled n v k)),
      a_if = (\<lambda>c t e. bindE c (\<lambda>v. if_then_else v t e)),
      a_assert = (\<lambda>c b. bindE c (\<lambda>v. bindE b (\<lambda>w. assert_py v w)))\<rparr>"

text \<open>
  A program: its functions by their Python name, each with its arguments and body. Calls nest to a
  depth of at most \<open>n\<close>, Python's recursion limit.
\<close>

type_synonym py_program = "(string, string list \<times> expr) dict"

fun program_algebra :: "py_ops \<Rightarrow> py_program \<Rightarrow> nat \<Rightarrow> val result algebra" where
  "program_algebra ops prog 0 =
     backend_algebra ops (\<lambda>f. map_option (\<lambda>_ _. Inl RecursionError) (map_of prog f))"
| "program_algebra ops prog (Suc n) =
     backend_algebra ops (\<lambda>f. map_option (\<lambda>(xs, body) vs.
       if length vs = length xs
       then eval (program_algebra ops prog n)
              (upds (\<lambda>_. Inl NameError) xs (\<lambda>i. if i < length vs then Inr (vs ! i) else Inl NameError)) body
       else Inl TypeError) (map_of prog f))"

section \<open>Monotonicity\<close>

lemma le_res_bindE:
  "le_res r s \<Longrightarrow> (\<And>u w. u \<le> w \<Longrightarrow> le_res (f u) (g w)) \<Longrightarrow> le_res (bindE r f) (bindE s g)"
  by (cases r) (auto simp: le_res_Inr)

lemma le_res_bindE_same: "(\<And>u. le_res (f u) (g u)) \<Longrightarrow> le_res (bindE r f) (bindE r g)"
  by (cases r) auto

lemma le_val_iff: "(v::val) \<le> w \<longleftrightarrow> le_val v w"
  by (simp add: less_eq_val_def)

lemma to_data_mono: "v \<le> w \<Longrightarrow> to_data v = Some d \<Longrightarrow> to_data w = Some d"
  by (auto simp: le_val_iff to_data_le)

lemma on_data_mono: "v \<le> w \<Longrightarrow> le_res (on_data g v) (on_data g w)"
  by (cases "to_data v") (auto simp: on_data_def dest: to_data_mono)

lemma on_data2_mono: "v \<le> w \<Longrightarrow> v' \<le> w' \<Longrightarrow> le_res (on_data2 g v v') (on_data2 g w w')"
  using to_data_mono [of v w] to_data_mono [of v' w']
  by (cases "to_data v"; cases "to_data v'") (auto simp: on_data2_def)

lemma truthy_mono: "v \<le> w \<Longrightarrow> truthy w = truthy v"
  by (cases v) (auto simp: le_val_iff)

lemma call_fun_mono: "f \<le> g \<Longrightarrow> v \<le> w \<Longrightarrow> le_res (call_fun f v) (call_fun g w)"
  by (cases f; cases "to_data v")
    (auto simp: le_val_iff call_fun_def le_res_def to_data_le)

lemma int_of_mono: "v \<le> w \<Longrightarrow> int_of v = Inr i \<Longrightarrow> int_of w = Inr i"
  by (cases v) (auto simp: le_val_iff)

lemma scalar_data_mono: "v \<le> w \<Longrightarrow> scalar_data v = Inr d \<Longrightarrow> scalar_data w = Inr d"
  by (cases v) (auto simp: le_val_iff)

lemma mapE_le:
  "list_all2 (\<lambda>x y. le_res (f x) (g y)) xs ys \<Longrightarrow> mapE f xs = Inr us \<Longrightarrow>
   \<exists>ws. mapE g ys = Inr ws \<and> list_all2 (\<le>) us ws"
proof (induction xs ys arbitrary: us rule: list_all2_induct)
  case (Cons x xs y ys)
  from Cons.prems obtain u us' where u: "f x = Inr u" "mapE f xs = Inr us'" "us = u # us'" by auto
  with Cons.hyps(1) obtain w where "g y = Inr w" "u \<le> w" by (auto simp: le_res_def)
  with Cons.IH [OF u(2)] u(3) show ?case by auto
qed simp

lemma mapE_same:
  "list_all2 (\<lambda>x y. \<forall>d. f x = Inr d \<longrightarrow> g y = Inr d) xs ys \<Longrightarrow> mapE f xs = Inr ds \<Longrightarrow> mapE g ys = Inr ds"
  by (induction xs ys arbitrary: ds rule: list_all2_induct) (auto simp: bindE_eq_Inr)

lemma le_val_eq: "(\<le>) = le_val"
  by (intro ext) (simp add: less_eq_val_def)

lemma list_all2_le_val: "list_all2 (\<le>) vs ws \<longleftrightarrow> list_all2 le_val vs ws"
  by (simp add: le_val_eq)

lemma py_index_mono: "list_all2 le_val vs ws \<Longrightarrow> le_res (py_index vs i) (py_index ws i)"
  by (auto simp: py_index_def Let_def le_val_iff list_all2_conv_all_nth)

lemma mapE_call_mono:
  "f \<le> g \<Longrightarrow> mapE (\<lambda>i. call_fun f (h i)) is = Inr us \<Longrightarrow>
   \<exists>ws. mapE (\<lambda>i. call_fun g (h i)) is = Inr ws \<and> list_all2 (\<le>) us ws"
  by (rule mapE_le) (auto simp: list_all2_same intro: call_fun_mono)

lemma mapE_int_of_mono: "list_all2 le_val vs ws \<Longrightarrow> mapE int_of vs = Inr is \<Longrightarrow> mapE int_of ws = Inr is"
  by (rule mapE_same) (auto elim!: list_all2_mono simp: le_val_iff intro: int_of_mono)

lemma mapE_scalar_mono: "list_all2 (\<le>) vs ws \<Longrightarrow> mapE scalar_data vs = Inr ds \<Longrightarrow> mapE scalar_data ws = Inr ds"
  by (rule mapE_same) (auto elim!: list_all2_mono intro: scalar_data_mono)

lemma build_list_mono:
  "f \<le> g \<Longrightarrow> le_res (bindE (mapE (\<lambda>i. call_fun f (h i)) is) (\<lambda>vs. Inr (VList vs)))
     (bindE (mapE (\<lambda>i. call_fun g (h i)) is) (\<lambda>vs. Inr (VList vs)))"
proof -
  assume le: "f \<le> g"
  show ?thesis
  proof (cases "mapE (\<lambda>i. call_fun f (h i)) is")
    case (Inr us)
    from mapE_call_mono [OF le this] obtain ws where
      "mapE (\<lambda>i. call_fun g (h i)) is = Inr ws" "list_all2 (\<le>) us ws" by blast
    with Inr show ?thesis by (simp add: le_val_iff le_val_eq)
  qed simp
qed

lemma py_build_mono: "sz \<le> sz' \<Longrightarrow> f \<le> g \<Longrightarrow> le_res (py_build sz f) (py_build sz' g)"
proof (cases sz)
  case (VTuple szs)
  assume le: "sz \<le> sz'" "f \<le> g"
  from le VTuple obtain szs' where sz': "sz' = VTuple szs'" "list_all2 le_val szs szs'"
    by (auto simp: le_val_iff)
  show ?thesis
    unfolding le_res_def
  proof (intro allI impI)
    fix u
    assume "py_build sz f = Inr u"
    then obtain dims vs ds where dims: "mapE int_of szs = Inr dims"
      and vs: "mapE (\<lambda>ind. call_fun f (VTuple (map VInt ind))) (ndgrid_inds dims) = Inr vs"
      and ds: "mapE scalar_data vs = Inr ds" and u: "\<not> list_ex (\<lambda>d. d < 0) dims" "u = VNd dims ds"
      by (auto simp: py_build_def VTuple split: if_splits)
    from mapE_call_mono [OF le(2) vs] obtain ws where
      ws: "mapE (\<lambda>ind. call_fun g (VTuple (map VInt ind))) (ndgrid_inds dims) = Inr ws" "list_all2 (\<le>) vs ws"
      by blast
    have "py_build sz' g = Inr u"
      using mapE_int_of_mono [OF sz'(2) dims] ws(1) mapE_scalar_mono [OF ws(2) ds] u
      by (simp add: py_build_def sz'(1))
    then show "\<exists>w. py_build sz' g = Inr w \<and> u \<le> w" by simp
  qed
qed (auto simp: le_val_iff py_build_def build_list_mono)

lemma foldE_Cons: "foldE f r (x # xs) = foldE f (bindE r (\<lambda>s. f s x)) xs"
  by (simp add: foldE_def)

lemma foldE_mono:
  "list_all2 R xs ys \<Longrightarrow> le_res r s \<Longrightarrow>
   (\<And>u w x y. u \<le> w \<Longrightarrow> R x y \<Longrightarrow> le_res (f u x) (g w y)) \<Longrightarrow>
   le_res (foldE f r xs) (foldE g s ys)"
proof (induction xs ys arbitrary: r s rule: list_all2_induct)
  case Nil
  then show ?case by (simp add: foldE_def)
next
  case (Cons x xs y ys)
  have "le_res (bindE r (\<lambda>u. f u x)) (bindE s (\<lambda>w. g w y))"
    by (rule le_res_bindE) (use Cons in auto)
  then show ?case unfolding foldE_Cons by (rule Cons.IH) (rule Cons.prems(2))
qed

lemma py_sumbuild_mono: "n \<le> m \<Longrightarrow> f \<le> g \<Longrightarrow> le_res (py_sumbuild ops n f) (py_sumbuild ops m g)"
proof (cases "int_of n")
  case (Inr k)
  assume le: "n \<le> m" "f \<le> g"
  have "le_res (foldE (\<lambda>s i. bindE (call_fun f (VInt i)) (\<lambda>v. py_add ops s v)) (Inr (VInt 0)) (py_range k))
    (foldE (\<lambda>s i. bindE (call_fun g (VInt i)) (\<lambda>v. py_add ops s v)) (Inr (VInt 0)) (py_range k))"
  proof (rule foldE_mono [where R = "(=)"])
    fix u w :: val and i j :: int
    assume "u \<le> w" "i = j"
    then show "le_res (bindE (call_fun f (VInt i)) (\<lambda>v. py_add ops u v))
        (bindE (call_fun g (VInt j)) (\<lambda>v. py_add ops w v))"
      by (intro le_res_bindE call_fun_mono) (auto simp: le(2) py_add_def on_data2_mono)
  qed (auto simp: list.rel_eq)
  with Inr int_of_mono [OF le(1) Inr] show ?thesis by (simp add: py_sumbuild_def)
qed (simp add: py_sumbuild_def)

lemma fold_list_mono:
  "list_all2 le_val vs ws \<Longrightarrow> f \<le> g \<Longrightarrow> s \<le> t \<Longrightarrow>
   le_res (foldE (\<lambda>s x. call_fun f (VTuple [s, x])) (Inr s) vs)
     (foldE (\<lambda>s x. call_fun g (VTuple [s, x])) (Inr t) ws)"
  by (rule foldE_mono [where R = le_val]) (auto intro!: call_fun_mono simp: le_val_iff)

lemma py_fold_mono: "f \<le> g \<Longrightarrow> s \<le> t \<Longrightarrow> xs \<le> ys \<Longrightarrow> le_res (py_fold f s xs) (py_fold g t ys)"
  by (cases xs) (auto simp: py_fold_def le_val_iff list_all2_same le_val_refl
      intro!: fold_list_mono)

lemma py_item_mono: "v \<le> w \<Longrightarrow> i \<le> j \<Longrightarrow> le_res (py_item v i) (py_item w j)"
proof -
  assume le: "v \<le> w" "i \<le> j"
  have k: "le_res (bindE (int_of i) h) (bindE (int_of j) h')" if "\<And>k. le_res (h k) (h' k)" for h h'
    using int_of_mono [OF le(2)] that by (cases "int_of i") auto
  show ?thesis
  proof (cases v)
    case (VList vs)
    with le(1) k py_index_mono show ?thesis by (auto simp: py_item_def le_val_iff)
  next
    case (VTuple vs)
    with le(1) k py_index_mono show ?thesis by (auto simp: py_item_def le_val_iff)
  next
    case (VStr s)
    with le(1) k show ?thesis by (auto simp: py_item_def le_val_iff)
  next
    case (VNd sh ds)
    with le show ?thesis
      by (cases i)
        (auto simp: py_item_def le_val_iff bindE_eq_Inr le_res_def mapE_int_of_mono le_val_refl)
  qed (use le in \<open>auto simp: py_item_def le_val_iff\<close>)
qed

lemma py_size_mono: "v \<le> w \<Longrightarrow> le_res (py_size v) (py_size w)"
  by (cases v) (auto simp: py_size_def le_val_iff dest: list_all2_lengthD)

lemma py_or_mono: "v \<le> w \<Longrightarrow> v' \<le> w' \<Longrightarrow> le_res (py_or v v') (py_or w w')"
  by (cases "truthy v") (auto simp: py_or_def truthy_mono)

lemma py_and_mono: "v \<le> w \<Longrightarrow> v' \<le> w' \<Longrightarrow> le_res (py_and v v') (py_and w w')"
  by (cases "truthy v") (auto simp: py_and_def truthy_mono)

definition mono_fun :: "(val list \<Rightarrow> val result) \<Rightarrow> bool" where
  "mono_fun g \<longleftrightarrow> (\<forall>vs ws. list_all2 (\<le>) vs ws \<longrightarrow> le_res (g vs) (g ws))"

lemma mono_call1: "(\<And>a a'. a \<le> a' \<Longrightarrow> le_res (f a) (f a')) \<Longrightarrow> mono_fun (call1 f)"
  by (auto simp: mono_fun_def call1_def list_all2_Cons1 split: list.splits)

lemma mono_call2:
  "(\<And>a a' b b'. a \<le> a' \<Longrightarrow> b \<le> b' \<Longrightarrow> le_res (f a b) (f a' b')) \<Longrightarrow> mono_fun (call2 f)"
  by (auto simp: mono_fun_def call2_def list_all2_Cons1 split: list.splits)

lemma mono_call3:
  "(\<And>a a' b b' c c'. a \<le> a' \<Longrightarrow> b \<le> b' \<Longrightarrow> c \<le> c' \<Longrightarrow> le_res (f a b c) (f a' b' c')) \<Longrightarrow>
   mono_fun (call3 f)"
  by (auto simp: mono_fun_def call3_def list_all2_Cons1 split: list.splits)

lemmas op_defs = py_add_def py_sub_def py_mul_def py_div_ii_def py_div_ff_def py_div_def py_eq_def
  py_lt_def py_gt_def py_lte_def py_gte_def py_abs_def py_neg_def py_max_def py_pow_def py_log_def
  py_to_float_i_def py_index_of_def

lemmas op_monos = on_data_mono on_data2_mono py_build_mono py_sumbuild_mono py_fold_mono
  py_item_mono py_size_mono py_or_mono py_and_mono

lemma built_ins_mono: "map_of (built_ins ops) name = Some g \<Longrightarrow> mono_fun g"
proof -
  have "list_all (\<lambda>(n, g). mono_fun g) (built_ins ops)"
    by (simp add: built_ins_def op_defs mono_call1 mono_call2 mono_call3 op_monos)
  then show "map_of (built_ins ops) name = Some g \<Longrightarrow> mono_fun g"
    by (auto simp: list_all_iff dest: map_of_SomeD)
qed

definition mono_user :: "(string \<Rightarrow> (val list \<Rightarrow> val result) option) \<Rightarrow> bool" where
  "mono_user user \<longleftrightarrow> (\<forall>f g. user f = Some g \<longrightarrow> mono_fun g)"

lemma get_tuple_element_mono: "v \<le> w \<Longrightarrow> le_res (get_tuple_element i v) (get_tuple_element i w)"
  by (simp add: get_tuple_element_def py_item_mono)

lemma call_name_mono:
  assumes user: "mono_user user" and le: "list_all2 le_res rs ss"
  shows "le_res (call_name ops user f rs) (call_name ops user f ss)"
  unfolding call_name_def
proof (rule le_res_bindE_same)
  fix name
  have named: "le_res (case (if list_all ident_char (normalize_name name) then user (normalize_name name) else None) of Some g \<Rightarrow> g vs
        | None \<Rightarrow> (case map_of (built_ins ops) (normalize_name name) of Some g \<Rightarrow> g vs | None \<Rightarrow> Inl NameError))
      (case (if list_all ident_char (normalize_name name) then user (normalize_name name) else None) of Some g \<Rightarrow> g ws
        | None \<Rightarrow> (case map_of (built_ins ops) (normalize_name name) of Some g \<Rightarrow> g ws | None \<Rightarrow> Inl NameError))"
    if "list_all2 (\<le>) vs ws" for vs ws
    using user built_ins_mono that
    by (auto simp: mono_user_def mono_fun_def split: option.splits if_splits)
  show "le_res (if starts_with ''get$'' name then
       bindE (tuple_index name) (\<lambda>i.
       case rs of [] \<Rightarrow> Inl IndexError | r # _ \<Rightarrow> bindE r (get_tuple_element i))
     else
       bindE (mapE id rs) (\<lambda>vs.
       if name = ''tuple'' then Inr (make_tuple vs)
       else case (if list_all ident_char (normalize_name name) then user (normalize_name name) else None) of Some g \<Rightarrow> g vs
        | None \<Rightarrow> (case map_of (built_ins ops) (normalize_name name) of Some g \<Rightarrow> g vs | None \<Rightarrow> Inl NameError)))
     (if starts_with ''get$'' name then
       bindE (tuple_index name) (\<lambda>i.
       case ss of [] \<Rightarrow> Inl IndexError | r # _ \<Rightarrow> bindE r (get_tuple_element i))
     else
       bindE (mapE id ss) (\<lambda>vs.
       if name = ''tuple'' then Inr (make_tuple vs)
       else case (if list_all ident_char (normalize_name name) then user (normalize_name name) else None) of Some g \<Rightarrow> g vs
        | None \<Rightarrow> (case map_of (built_ins ops) (normalize_name name) of Some g \<Rightarrow> g vs | None \<Rightarrow> Inl NameError)))"
  proof (cases "starts_with ''get$'' name")
    case True
    then show ?thesis
      using le by (cases rs) (auto simp: list_all2_Cons1 intro!: le_res_bindE_same le_res_bindE get_tuple_element_mono)
  next
    case False
    show ?thesis
    proof (cases "mapE id rs")
      case (Inr vs)
      from mapE_le [OF _ Inr, of id ss] le obtain ws where
        "mapE id ss = Inr ws" "list_all2 (\<le>) vs ws" by auto
      with Inr False named show ?thesis
        by (auto simp: make_tuple_def le_val_iff le_val_eq)
    qed (simp add: False)
  qed
qed

lemma let_tupled_mono:
  assumes "v \<le> w" and k: "\<And>vs ws. (\<And>i. le_res (vs i) (ws i)) \<Longrightarrow> le_res (h vs) (h' ws)"
  shows "le_res (let_tupled n v h) (let_tupled n w h')"
proof -
  have call: "le_res
      (if length vs = n then h (\<lambda>i. if i < n then Inr (vs ! i) else Inl IndexError) else Inl TypeError)
      (if length ws = n then h' (\<lambda>i. if i < n then Inr (ws ! i) else Inl IndexError) else Inl TypeError)"
    if "list_all2 le_val vs ws" for vs ws
    using that list_all2_lengthD [OF that]
    by (auto intro!: k simp: list_all2_conv_all_nth le_val_iff)
  show ?thesis
  proof (cases v)
    case (VTuple vs)
    with assms(1) obtain ws where "w = VTuple ws" "list_all2 le_val vs ws"
      by (auto simp: le_val_iff)
    with VTuple call show ?thesis by (simp add: let_tupled_def)
  next
    case (VList vs)
    with assms(1) obtain ws where "w = VList ws" "list_all2 le_val vs ws"
      by (auto simp: le_val_iff)
    with VList call show ?thesis by (simp add: let_tupled_def)
  next
    case (VStr s)
    with assms(1) have "w = VStr s" by (auto simp: le_val_iff)
    moreover have "list_all2 le_val (map (\<lambda>c. VStr [c]) s) (map (\<lambda>c. VStr [c]) s)"
      by (simp add: list_all2_same)
    note call [OF this]
    ultimately show ?thesis using VStr by (simp add: let_tupled_def)
  qed (use assms(1) in \<open>auto simp: let_tupled_def le_val_iff\<close>)
qed

lemma if_then_else_mono:
  "v \<le> w \<Longrightarrow> le_res t t' \<Longrightarrow> le_res e e' \<Longrightarrow> le_res (if_then_else v t e) (if_then_else w t' e')"
  by (cases "truthy v") (auto simp: if_then_else_def truthy_mono)

lemma assert_py_mono: "v \<le> w \<Longrightarrow> b \<le> b' \<Longrightarrow> le_res (assert_py v b) (assert_py w b')"
  by (cases "truthy v") (auto simp: assert_py_def truthy_mono intro!: le_res_bindE_same)

lemma backend_mono: "mono_user user \<Longrightarrow> mono_algebra (backend_algebra ops user) le_res"
proof
  assume user: "mono_user user"
  fix v w u r r' c c' t t' e e' b b' :: "val result" and vs ws :: "val result list" and f :: sname
    and k k' :: "val result \<Rightarrow> val result" and h h' :: "(nat \<Rightarrow> val result) \<Rightarrow> val result"
    and s :: ty and n :: nat
  let ?A = "backend_algebra ops user"
  show "le_res v v" by simp
  show "le_res u v \<Longrightarrow> le_res v w \<Longrightarrow> le_res u w" by (rule le_res_trans)
  show "list_all2 le_res vs ws \<Longrightarrow> le_res (a_call ?A f vs) (a_call ?A f ws)"
    by (simp add: backend_algebra_def call_name_mono user)
  show "le_res (a_lam ?A s k) (a_lam ?A s k')" if k: "\<And>v w. le_res v w \<Longrightarrow> le_res (k v) (k' w)"
  proof -
    have "\<exists>w. k' (Inr (of_data d)) = Inr w \<and> le_val u w" if "k (Inr (of_data d)) = Inr u" for d u
      using k [OF le_res_refl, of "Inr (of_data d)"] that by (auto simp: le_res_def le_val_iff)
    then show ?thesis by (simp add: backend_algebra_def le_val_iff)
  qed
  show "le_res r r' \<Longrightarrow> (\<And>v w. le_res v w \<Longrightarrow> le_res (k v) (k' w)) \<Longrightarrow>
      le_res (a_let ?A r k) (a_let ?A r' k')"
    by (simp add: backend_algebra_def let_one_def le_res_bindE)
  show "le_res r r' \<Longrightarrow> (\<And>vs ws. (\<And>i. le_res (vs i) (ws i)) \<Longrightarrow> le_res (h vs) (h' ws)) \<Longrightarrow>
      le_res (a_lets ?A n r h) (a_lets ?A n r' h')"
    by (simp add: backend_algebra_def le_res_bindE let_tupled_mono)
  show "le_res c c' \<Longrightarrow> le_res t t' \<Longrightarrow> le_res e e' \<Longrightarrow> le_res (a_if ?A c t e) (a_if ?A c' t' e')"
    by (simp add: backend_algebra_def le_res_bindE if_then_else_mono)
  show "le_res c c' \<Longrightarrow> le_res t t' \<Longrightarrow> le_res (a_assert ?A c t) (a_assert ?A c' t')"
    by (auto simp: backend_algebra_def intro!: le_res_bindE assert_py_mono)
qed

lemma program_mono: "mono_algebra (program_algebra ops prog n) le_res"
proof (induction n)
  case 0
  show ?case
    unfolding program_algebra.simps by (rule backend_mono) (auto simp: mono_user_def mono_fun_def)
next
  case (Suc n)
  have "mono_fun (\<lambda>vs. if length vs = length xs
      then eval (program_algebra ops prog n)
        (upds (\<lambda>_. Inl NameError) xs (\<lambda>i. if i < length vs then Inr (vs ! i) else Inl NameError)) body
      else Inl TypeError)" for xs body
    unfolding mono_fun_def
  proof (intro allI impI)
    fix vs ws :: "val list"
    assume le: "list_all2 (\<le>) vs ws"
    then have len: "length vs = length ws" by (rule list_all2_lengthD)
    have "le_res
      (eval (program_algebra ops prog n)
         (upds (\<lambda>_. Inl NameError) xs (\<lambda>i. if i < length vs then Inr (vs ! i) else Inl NameError)) body)
      (eval (program_algebra ops prog n)
         (upds (\<lambda>_. Inl NameError) xs (\<lambda>i. if i < length ws then Inr (ws ! i) else Inl NameError)) body)"
      using le
      by (intro mono_algebra.eval_mono [OF Suc.IH] mono_algebra.le_env_upds [OF Suc.IH]
          mono_algebra.le_env_refl [OF Suc.IH]) (auto simp: list_all2_conv_all_nth)
    then show "le_res
      (if length vs = length xs then eval (program_algebra ops prog n)
         (upds (\<lambda>_. Inl NameError) xs (\<lambda>i. if i < length vs then Inr (vs ! i) else Inl NameError)) body
       else Inl TypeError)
      (if length ws = length xs then eval (program_algebra ops prog n)
         (upds (\<lambda>_. Inl NameError) xs (\<lambda>i. if i < length ws then Inr (ws ! i) else Inl NameError)) body
       else Inl TypeError)"
      unfolding len by (cases "length ws = length xs") simp_all
  qed
  then show ?case
    unfolding program_algebra.simps
    by (intro backend_mono) (auto simp: mono_user_def)
qed

section \<open>The depth of calls\<close>

lemma call_name_user:
  assumes "\<And>f. rel_option (\<lambda>g g'. \<forall>vs. le_res (g vs) (g' vs)) (user f) (user' f)"
  shows "le_res (call_name ops user f rs) (call_name ops user' f rs)"
proof -
  have "rel_option (\<lambda>g g'. \<forall>vs. le_res (g vs) (g' vs))
      (if list_all ident_char (normalize_name name) then user (normalize_name name) else None)
      (if list_all ident_char (normalize_name name) then user' (normalize_name name) else None)" for name
    using assms by simp
  note rel = this
  show ?thesis
    unfolding call_name_def
  proof (intro le_res_bindE_same, goal_cases)
    case (1 name)
    from rel [of name] show ?case
      by (cases rule: option.rel_cases) (auto intro!: le_res_bindE_same split: option.split)
  qed
qed

text \<open>With more calls allowed, every value found with fewer is found again.\<close>

lemma program_depth_Suc: "le_res (eval (program_algebra ops prog n) \<rho> e) (eval (program_algebra ops prog (Suc n)) \<rho> e)"
proof (induction n arbitrary: \<rho> e)
  case 0
  have A: "program_algebra ops prog (Suc 0) = (program_algebra ops prog 0)
      \<lparr>a_call := a_call (program_algebra ops prog (Suc 0))\<rparr>"
    by (simp add: backend_algebra_def)
  have "le_res (a_call (program_algebra ops prog 0) f vs) (a_call (program_algebra ops prog (Suc 0)) f vs)" for f vs
    by (auto simp: backend_algebra_def option.rel_map intro!: call_name_user option.rel_refl)
  from mono_algebra.eval_more_calls [OF program_mono this mono_algebra.le_env_refl [OF program_mono]]
  show ?case by (subst A)
next
  case (Suc n)
  have A: "program_algebra ops prog (Suc (Suc n)) = (program_algebra ops prog (Suc n))
      \<lparr>a_call := a_call (program_algebra ops prog (Suc (Suc n)))\<rparr>"
    by (simp add: backend_algebra_def)
  have "le_res (a_call (program_algebra ops prog (Suc n)) f vs)
      (a_call (program_algebra ops prog (Suc (Suc n))) f vs)" for f vs
  proof -
    have "rel_option (\<lambda>g g'. \<forall>vs. le_res (g vs) (g' vs))
      (map_option (\<lambda>(xs, body) vs. if length vs = length xs then eval (program_algebra ops prog n)
          (upds (\<lambda>_. Inl NameError) xs (\<lambda>i. if i < length vs then Inr (vs ! i) else Inl NameError)) body
        else Inl TypeError) (map_of prog h))
      (map_option (\<lambda>(xs, body) vs. if length vs = length xs then eval (program_algebra ops prog (Suc n))
          (upds (\<lambda>_. Inl NameError) xs (\<lambda>i. if i < length vs then Inr (vs ! i) else Inl NameError)) body
        else Inl TypeError) (map_of prog h))" for h
      unfolding option.rel_map by (rule option.rel_refl) (simp add: Suc.IH del: program_algebra.simps split: prod.split)
    then show ?thesis
      by (simp add: backend_algebra_def call_name_user del: program_algebra.simps(1))
  qed
  from mono_algebra.eval_more_calls [OF program_mono this mono_algebra.le_env_refl [OF program_mono]]
  show ?case by (subst A)
qed

lemma program_depth_mono: "le_res (eval (program_algebra ops prog n) \<rho> e) (eval (program_algebra ops prog (n + k)) \<rho> e)"
proof (induction k)
  case (Suc k)
  with program_depth_Suc show ?case by (metis add_Suc_right le_res_trans)
qed simp

end
