(* ===== verification/KsShape.thy ===== *)
theory KsShape
  imports KsBackend
begin

text \<open>
  Shapes, \<open>src/python/ksc/shape.py\<close>: the shape of a scalar is the empty tuple, that of a tuple the tuple
  of the shapes, that of a tensor its dimensions and the shape of its elements. The objects the code
  takes shapes of are Python data, among them \<open>None\<close>, which stands for a value that is not known.
  Nothing checks the dimensions of a \<open>TensorShape\<close>, which are such an object too. The attributes
  \<open>shape\<close>, \<open>dtype\<close> and \<open>data\<close> are those of arrays and of the values of \<open>AbstractBackend\<close>; numpy's
  scalars are Python numbers here.
\<close>

section \<open>Objects\<close>

datatype kdata =
    KNone | KInt int | KFloat pyfloat | KBool bool | KStr string
  | KTuple "kdata list" | KList "kdata list" | KNd "int list" "data list"

fun kdata_of :: "data \<Rightarrow> kdata" where
  "kdata_of (DatInt i) = KInt i"
| "kdata_of (DatFloat f) = KFloat f"
| "kdata_of (DatBool b) = KBool b"
| "kdata_of (DatStr s) = KStr s"
| "kdata_of (DatTuple ds) = KTuple (map kdata_of ds)"
| "kdata_of (DatList ds) = KList (map kdata_of ds)"
| "kdata_of (DatNd sh ds) = KNd sh ds"

fun known_data :: "kdata \<Rightarrow> data option" where
  "known_data KNone = None"
| "known_data (KInt i) = Some (DatInt i)"
| "known_data (KFloat f) = Some (DatFloat f)"
| "known_data (KBool b) = Some (DatBool b)"
| "known_data (KStr s) = Some (DatStr s)"
| "known_data (KTuple ds) = map_option DatTuple (those (map known_data ds))"
| "known_data (KList ds) = map_option DatList (those (map known_data ds))"
| "known_data (KNd sh ds) = Some (DatNd sh ds)"

fun kdata_of_const :: "const \<Rightarrow> kdata" where
  "kdata_of_const (CInt i) = KInt i"
| "kdata_of_const (CFloat f) = KFloat f"
| "kdata_of_const (CBool b) = KBool b"
| "kdata_of_const (CStr s) = KStr s"

text \<open>Python's \<open>==\<close>, on objects without arrays.\<close>

fun knum :: "kdata \<Rightarrow> const option" where
  "knum (KInt i) = Some (CInt i)"
| "knum (KBool b) = Some (CInt (if b then 1 else 0))"
| "knum (KFloat f) = Some (CFloat f)"
| "knum _ = None"

fun kdata_eq :: "kdata \<Rightarrow> kdata \<Rightarrow> bool" where
  "kdata_eq KNone KNone \<longleftrightarrow> True"
| "kdata_eq (KStr s) (KStr t) \<longleftrightarrow> s = t"
| "kdata_eq (KTuple xs) (KTuple ys) \<longleftrightarrow>
     length xs = length ys \<and> (\<forall>(x, y) \<in> set (zip xs ys). kdata_eq x y)"
| "kdata_eq (KList xs) (KList ys) \<longleftrightarrow>
     length xs = length ys \<and> (\<forall>(x, y) \<in> set (zip xs ys). kdata_eq x y)"
| "kdata_eq a b \<longleftrightarrow>
     (case (knum a, knum b) of (Some m, Some n) \<Rightarrow> const_eq m n | _ \<Rightarrow> False)"

section \<open>Shapes\<close>

text \<open>\<open>make_dims\<close>; a \<open>bool\<close> is an \<open>int\<close>.\<close>

definition make_dims :: "kdata \<Rightarrow> kdata list result" where
  "make_dims val =
     (case val of
        KInt i \<Rightarrow> Inr [KInt i]
      | KBool b \<Rightarrow> Inr [KBool b]
      | KTuple ds \<Rightarrow> Inr ds
      | _ \<Rightarrow> Inl NotImplementedError)"

datatype shape = ShTuple "shape list" | TensorShape kdata shape

abbreviation ScalarShape :: shape where
  "ScalarShape \<equiv> ShTuple []"

definition make_TensorShape :: "kdata \<Rightarrow> shape \<Rightarrow> shape result" where
  "make_TensorShape dims elem_shape =
     bindE (make_dims dims) (\<lambda>ds. Inr (TensorShape (KTuple ds) elem_shape))"

record ShapeType =
  st_shape :: shape
  st_type :: ty

fun shape_eq :: "shape \<Rightarrow> shape \<Rightarrow> bool" where
  "shape_eq (ShTuple xs) (ShTuple ys) \<longleftrightarrow>
     length xs = length ys \<and> (\<forall>(x, y) \<in> set (zip xs ys). shape_eq x y)"
| "shape_eq (TensorShape d e) (TensorShape d' e') \<longleftrightarrow> kdata_eq d d' \<and> shape_eq e e'"
| "shape_eq _ _ \<longleftrightarrow> False"

definition ShapeType_eq :: "ShapeType \<Rightarrow> ShapeType \<Rightarrow> bool" where
  "ShapeType_eq s t \<longleftrightarrow> shape_eq (st_shape s) (st_shape t) \<and> type_eq (st_type s) (st_type t)"

text \<open>
  \<open>Shape.from_ks_shape\<close>: the value of a \<open>shape$\<close> function as a shape. The comparison of an array with a
  tuple and taking an array apart are not modelled.
\<close>

definition unpack2 :: "kdata \<Rightarrow> (kdata \<times> kdata) result" where
  "unpack2 val =
     (case val of
        KTuple [a, b] \<Rightarrow> Inr (a, b)
      | KTuple _ \<Rightarrow> Inl ValueError
      | KList [a, b] \<Rightarrow> Inr (a, b)
      | KList _ \<Rightarrow> Inl ValueError
      | KStr [c, d] \<Rightarrow> Inr (KStr [c], KStr [d])
      | KStr _ \<Rightarrow> Inl ValueError
      | KNd _ _ \<Rightarrow> Inl Unmodelled
      | _ \<Rightarrow> Inl TypeError)"

function from_ks_shape :: "kdata \<Rightarrow> ty \<Rightarrow> shape result" where
  "from_ks_shape val t =
     (if is_scalar t then
        (case val of
           KTuple [] \<Rightarrow> Inr ScalarShape
         | KNd _ _ \<Rightarrow> Inl Unmodelled
         | _ \<Rightarrow> Inl AssertionError)
      else (case t of
          Tensor r u \<Rightarrow>
            bindE (unpack2 val) (\<lambda>(dims, el_shape).
            bindE (from_ks_shape el_shape u) (\<lambda>s. Inr (TensorShape dims s)))
        | Tuple ts \<Rightarrow>
            (case val of
               KTuple ds \<Rightarrow>
                 bindE (assertE (length ds = length ts)) (\<lambda>_.
                 bindE (mapE (\<lambda>(d, u). from_ks_shape d u) (zip ds ts)) (\<lambda>ss. Inr (ShTuple ss)))
             | _ \<Rightarrow> Inl AssertionError)
        | _ \<Rightarrow> Inl AssertionError))"
  by pat_completeness auto
termination
  by (relation "measure (\<lambda>(v, t). size t)")
    (auto dest!: set_zip_rightD simp: less_Suc_eq_le intro!: size_list_estimation')

declare from_ks_shape.simps [simp del]

text \<open>\<open>Shape.of_Index_of_Tensor_of_rank\<close>\<close>

definition of_Index_of_Tensor_of_rank :: "nat \<Rightarrow> shape" where
  "of_Index_of_Tensor_of_rank rank =
     (if rank = 1 then ScalarShape else ShTuple (replicate rank ScalarShape))"

text \<open>\<open>len\<close> of an object; that of an array is its first dimension.\<close>

definition kdata_len :: "kdata \<Rightarrow> int result" where
  "kdata_len d =
     (case d of
        KTuple ds \<Rightarrow> Inr (int (length ds))
      | KList ds \<Rightarrow> Inr (int (length ds))
      | KStr s \<Rightarrow> Inr (int (length s))
      | KNd (n # _) _ \<Rightarrow> Inr n
      | _ \<Rightarrow> Inl TypeError)"

text \<open>\<open>shape_type_matches\<close>: the elements of a tuple are compared as far as the shorter of the two goes.\<close>

fun shape_type_matches :: "shape \<Rightarrow> ty \<Rightarrow> bool result" where
  "shape_type_matches s (Tensor r u) =
     (case s of
        TensorShape dims elem_shape \<Rightarrow>
          bindE (kdata_len dims) (\<lambda>n. if n = r then shape_type_matches elem_shape u else Inr False)
      | _ \<Rightarrow> Inr False)"
| "shape_type_matches s (Tuple ts) =
     (case s of ShTuple ss \<Rightarrow> all2_py shape_type_matches ss ts | _ \<Rightarrow> Inr False)"
| "shape_type_matches s t = (if is_scalar t then Inr (s = ScalarShape) else Inl NotImplementedError)"

text \<open>
  \<open>shape_type_from_object\<close>, of data. The first element of an array is taken by \<open>flat[0].item()\<close>; a list
  has the shape of its first element, which all elements must have.
\<close>

fun shape_type_from_data :: "kdata \<Rightarrow> ShapeType result" where
  "shape_type_from_data (KNd sh ds) =
     (case ds of
        [] \<Rightarrow> Inl IndexError
      | d # _ \<Rightarrow>
          bindE (case d of
              DatBool _ \<Rightarrow> Inr Bool
            | DatInt _ \<Rightarrow> Inr Integer
            | DatFloat _ \<Rightarrow> Inr Float
            | DatStr _ \<Rightarrow> Inl ValueError
            | _ \<Rightarrow> Inl Unmodelled) (\<lambda>t.
          Inr \<lparr>st_shape = TensorShape (KTuple (map KInt sh)) ScalarShape,
               st_type = Tensor (int (length sh)) t\<rparr>))"
| "shape_type_from_data (KList ds) =
     bindE (case ds of [] \<Rightarrow> Inl IndexError | d # _ \<Rightarrow> shape_type_from_data d) (\<lambda>el.
     bindE (all2_py (\<lambda>e _. bindE (shape_type_from_data e) (\<lambda>s. Inr (ShapeType_eq s el))) ds ds) (\<lambda>b.
     bindE (assertE b) (\<lambda>_.
     bindE (make_TensorShape (KInt (int (length ds))) (st_shape el)) (\<lambda>sh.
     Inr \<lparr>st_shape = sh, st_type = Tensor 1 (st_type el)\<rparr>))))"
| "shape_type_from_data (KTuple ds) =
     bindE (mapE shape_type_from_data ds) (\<lambda>els.
     Inr \<lparr>st_shape = ShTuple (map st_shape els), st_type = Tuple (map st_type els)\<rparr>)"
| "shape_type_from_data (KBool b) = Inr \<lparr>st_shape = ScalarShape, st_type = Bool\<rparr>"
| "shape_type_from_data (KInt i) = Inr \<lparr>st_shape = ScalarShape, st_type = Integer\<rparr>"
| "shape_type_from_data (KFloat f) = Inr \<lparr>st_shape = ScalarShape, st_type = Float\<rparr>"
| "shape_type_from_data (KStr s) = Inl ValueError"
| "shape_type_from_data KNone = Inl ValueError"

section \<open>Shapes of a type\<close>

text \<open>
  The shapes the documentation of \<open>make_edef\<close> describes: as many integers as the tensor has
  dimensions, a shape for every component of a tuple.
\<close>

fun shape_of_type :: "shape \<Rightarrow> ty \<Rightarrow> bool" where
  "shape_of_type (TensorShape dims s) (Tensor r u) \<longleftrightarrow>
     (\<exists>is. dims = KTuple (map KInt is) \<and> int (length is) = r) \<and> shape_of_type s u"
| "shape_of_type (ShTuple ss) (Tuple ts) \<longleftrightarrow> list_all2 shape_of_type ss ts"
| "shape_of_type s t \<longleftrightarrow> is_scalar t \<and> s = ScalarShape"

text \<open>The data of a type, where \<open>None\<close> is a value that is not known.\<close>

fun scalar_type :: "data \<Rightarrow> ty \<Rightarrow> bool" where
  "scalar_type (DatInt i) t \<longleftrightarrow> t = Integer"
| "scalar_type (DatFloat f) t \<longleftrightarrow> t = Float"
| "scalar_type (DatBool b) t \<longleftrightarrow> t = Bool"
| "scalar_type _ t \<longleftrightarrow> False"

fun data_of_type :: "kdata \<Rightarrow> ty \<Rightarrow> bool" where
  "data_of_type KNone t \<longleftrightarrow> True"
| "data_of_type (KInt i) t \<longleftrightarrow> t = Integer"
| "data_of_type (KFloat f) t \<longleftrightarrow> t = Float"
| "data_of_type (KBool b) t \<longleftrightarrow> t = Bool"
| "data_of_type (KStr s) t \<longleftrightarrow> t = String"
| "data_of_type (KTuple ds) t \<longleftrightarrow> (\<exists>ts. t = Tuple ts \<and> list_all2 data_of_type ds ts)"
| "data_of_type (KList ds) t \<longleftrightarrow> (\<exists>u. t = Tensor 1 u \<and> (\<forall>d \<in> set ds. data_of_type d u))"
| "data_of_type (KNd sh ds) t \<longleftrightarrow> (\<exists>u. t = Tensor (int (length sh)) u \<and> (ds \<noteq> [] \<longrightarrow> scalar_type (hd ds) u))"

lemma shape_of_type_scalar: "is_scalar t \<Longrightarrow> shape_of_type s t \<longleftrightarrow> s = ScalarShape"
  by (cases t; cases s) auto

lemma shape_of_type_matches: "shape_of_type s t \<Longrightarrow> shape_type_matches s t = Inr True"
proof (induction s t rule: shape_of_type.induct)
  case (2 ss ts)
  then have "list_all2 shape_of_type ss ts" by simp
  then have "all2_py shape_type_matches ss ts = Inr True"
    using "2.IH"
  proof (induction ss ts rule: list_all2_induct)
    case (Cons s ss t ts)
    then have "shape_type_matches s t = Inr True" by simp
    moreover have "all2_py shape_type_matches ss ts = Inr True" using Cons by (meson list.set_intros(2))
    ultimately show ?case by simp
  qed simp
  then show ?case by simp
qed (auto simp: kdata_len_def)

lemma ShapeType_eq_type: "ShapeType_eq s t \<Longrightarrow> st_type s = st_type t"
  by (simp add: ShapeType_eq_def)

lemma all2_py_same_True: "all2_py (\<lambda>x _. f x) xs xs = Inr True \<longleftrightarrow> (\<forall>x \<in> set xs. f x = Inr True)"
  by (induction xs) (auto simp: bindE_eq_Inr split: if_splits)

lemma shape_type_from_data_ok:
  "shape_type_from_data d = Inr st \<Longrightarrow> shape_of_type (st_shape st) (st_type st) \<and> data_of_type d (st_type st)"
proof (induction d arbitrary: st)
  case (KTuple ds)
  then obtain els where els: "mapE shape_type_from_data ds = Inr els"
    "st = \<lparr>st_shape = ShTuple (map st_shape els), st_type = Tuple (map st_type els)\<rparr>" by auto
  from els(1) have "list_all2 (\<lambda>d el. shape_type_from_data d = Inr el) ds els" by (simp add: mapE_Inr_iff)
  then have "list_all2 (\<lambda>d el. shape_of_type (st_shape el) (st_type el) \<and> data_of_type d (st_type el)) ds els"
    using KTuple.IH unfolding list_all2_conv_all_nth by (meson nth_mem)
  then have "list_all (\<lambda>el. shape_of_type (st_shape el) (st_type el)) els"
    "list_all2 data_of_type ds (map st_type els)"
    by (auto simp: list_all2_conv_all_nth list_all_length)
  with els(2) show ?case by (auto simp: list_all2_conv_all_nth list_all_length)
next
  case (KList ds)
  then obtain d ds' el where d: "ds = d # ds'" "shape_type_from_data d = Inr el"
    "all2_py (\<lambda>e _. bindE (shape_type_from_data e) (\<lambda>s. Inr (ShapeType_eq s el))) ds ds = Inr True"
    "st = \<lparr>st_shape = TensorShape (KTuple [KInt (int (length ds))]) (st_shape el), st_type = Tensor 1 (st_type el)\<rparr>"
    by (cases ds) (auto simp: make_TensorShape_def make_dims_def bindE_eq_Inr)
  have "data_of_type e (st_type el)" if "e \<in> set ds" for e
  proof -
    from d(3) that obtain s where "shape_type_from_data e = Inr s" "ShapeType_eq s el"
      unfolding all2_py_same_True by (auto simp: bindE_eq_Inr)
    with KList.IH [OF that] ShapeType_eq_type show ?thesis by metis
  qed
  moreover have "shape_of_type (st_shape el) (st_type el)" using KList.IH [OF _ d(2)] d(1) by simp
  moreover have "\<exists>is. KTuple [KInt (int (length ds))] = KTuple (map KInt is) \<and> int (length is) = 1"
    by (rule exI [of _ "[int (length ds)]"]) simp
  ultimately show ?case using d(4) by auto
qed (auto split: list.splits data.splits)


section \<open>Properties\<close>

text \<open>
  The value a \<open>shape$\<close> function of the documentation returns for a shape: the empty tuple for a scalar,
  a pair of the dimensions and the shape of the elements for a tensor, a tuple for a tuple.
\<close>

fun ks_shape_value :: "shape \<Rightarrow> kdata" where
  "ks_shape_value (ShTuple ss) = KTuple (map ks_shape_value ss)"
| "ks_shape_value (TensorShape dims s) = KTuple [dims, ks_shape_value s]"

text \<open>
  C34: \<open>from_ks_shape\<close> reads back the documented value of a shape, given the type whose shape it is.
\<close>

theorem from_ks_shape_roundtrip:
  assumes "shape_of_type s t"
  shows "from_ks_shape (ks_shape_value s) t = Inr s"
  using assms
proof (induction s t rule: shape_of_type.induct)
  case (1 dims s r u)
  then have "from_ks_shape (ks_shape_value s) u = Inr s" by simp
  then show ?case by (simp add: from_ks_shape.simps [of _ "Tensor r u"] unpack2_def)
next
  case (2 ss ts)
  then have len: "length ss = length ts" by (simp add: list_all2_lengthD)
  have "mapE (\<lambda>(d, u). from_ks_shape d u) (zip (map ks_shape_value ss) ts) =
      Inr (map fst (zip ss ts))"
    unfolding zip_map1 mapE_map
  proof (rule mapE_total, clarify)
    fix s t
    assume st: "(s, t) \<in> set (zip ss ts)"
    then have "shape_of_type s t" using 2 by (auto simp: list_all2_iff)
    with 2 st show "((\<lambda>(d, u). from_ks_shape d u) \<circ> (\<lambda>(x, y). (ks_shape_value x, y))) (s, t) = Inr (fst (s, t))"
      by (auto dest: set_zip_leftD set_zip_rightD)
  qed
  with len show ?case by (simp add: from_ks_shape.simps [of _ "Tuple ts"])
qed (auto simp: from_ks_shape.simps)

theorem from_ks_shape_roundtrip_witness:
  "from_ks_shape (KTuple [KTuple [KTuple [KInt 3, KInt 4], KTuple []], KTuple []]) (Tuple [Tensor 2 Float, Integer]) =
   Inr (ShTuple [TensorShape (KTuple [KInt 3, KInt 4]) ScalarShape, ScalarShape])"
proof -
  have "\<exists>is. [KInt 3, KInt 4] = map KInt is \<and> length is = 2" by (rule exI [of _ "[3, 4]"]) simp
  then show ?thesis
    using from_ks_shape_roundtrip
      [of "ShTuple [TensorShape (KTuple [KInt 3, KInt 4]) ScalarShape, ScalarShape]" "Tuple [Tensor 2 Float, Integer]"]
    by simp
qed

text \<open>
  C35: The shape found for an object fits the type found for it, so that the check of the constructor
  of abstract values accepts them, and the object is data of that type.
\<close>

theorem shape_type_from_data_fits:
  assumes "shape_type_from_data d = Inr st"
  shows "shape_type_matches (st_shape st) (st_type st) = Inr True \<and>
    shape_of_type (st_shape st) (st_type st) \<and> data_of_type d (st_type st)"
  using shape_type_from_data_ok [OF assms] shape_of_type_matches by blast

theorem shape_type_from_data_fits_witness:
  "shape_type_matches (ShTuple [TensorShape (KTuple [KInt 1]) ScalarShape, ScalarShape]) (Tuple [Tensor 1 Float, Bool]) = Inr True"
proof -
  have "shape_type_from_data (KTuple [KList [KFloat (Fin 2)], KBool True]) =
      Inr \<lparr>st_shape = ShTuple [TensorShape (KTuple [KInt 1]) ScalarShape, ScalarShape], st_type = Tuple [Tensor 1 Float, Bool]\<rparr>"
    by (simp add: make_TensorShape_def make_dims_def ShapeType_eq_def)
  from shape_type_from_data_fits [OF this] show ?thesis by simp
qed

text \<open>
  C40: The check itself is weaker: a tuple shape with fewer components than the type, the empty one
  among them, passes it.
\<close>

theorem shape_type_matches_prefix:
  assumes "list_all2 shape_of_type ss ts"
  shows "shape_type_matches (ShTuple (take n ss)) (Tuple ts) = Inr True \<and>
    shape_type_matches (ShTuple ss) (Tuple (take n ts)) = Inr True"
proof -
  have "list_all2 shape_of_type (take n ss) (take n ts)" using assms by (rule list_all2_takeI)
  then have m: "shape_type_matches (ShTuple (take n ss)) (Tuple (take n ts)) = Inr True"
    by (intro shape_of_type_matches) simp
  have zip_stops: "all2_py f xs (ys @ zs) = all2_py f xs ys" if "length xs = length ys" for f :: "shape \<Rightarrow> ty \<Rightarrow> bool result" and xs ys zs
    using that by (induction xs ys rule: list_induct2) (simp_all cong: if_cong)
  have zip_stops': "all2_py f (xs @ zs) ys = all2_py f xs ys" if "length xs = length ys" for f :: "shape \<Rightarrow> ty \<Rightarrow> bool result" and xs ys zs
    using that by (induction xs ys rule: list_induct2) (cases zs, simp_all cong: if_cong)
  have len: "length (take n ss) = length (take n ts)" using assms by (simp add: list_all2_lengthD)
  show ?thesis
    using m zip_stops [OF len, of _ "drop n ts"] zip_stops' [OF len, of _ "drop n ss"] by simp
qed

theorem shape_type_matches_prefix_witness:
  "shape_type_matches (ShTuple []) (Tuple [Float, Float]) = Inr True"
  using shape_type_matches_prefix [of "[ScalarShape, ScalarShape]" "[Float, Float]" 0] by simp

end
