(* ===== verification/AbstractBackend.thy ===== *)
theory AbstractBackend
  imports KsShape
begin

text \<open>
  The abstract backend, \<open>src/python/ksc/backends/abstract.py\<close>, with the values and the execution contexts
  of \<open>src/python/ksc/abstract_value.py\<close> and the cost of a program, \<open>src/python/ksc/cost.py\<close>. Code that
  \<open>translate.py\<close> generates for this backend runs on values of which the shape and the type are known
  and the data may be, and the cost of what it does is added up in the innermost execution context. The
  global list of contexts is state, the innermost first; it is passed on by exceptions too. A dictionary
  of costs is a function from the label a value carries, its \<open>context\<close>. Numpy's integers are Python's.
\<close>

section \<open>Abstract values\<close>

text \<open>\<open>None\<close>, the string \<open>"concrete"\<close>, and whatever else a user takes for a label.\<close>

datatype label = NoContext | Concrete | InState nat

record aval =
  av_shape :: shape
  av_type :: ty
  av_data :: kdata
  av_context :: label

definition mk_aval :: "shape \<Rightarrow> ty \<Rightarrow> kdata \<Rightarrow> label \<Rightarrow> aval result" where
  "mk_aval s t d c =
     bindE (shape_type_matches s t) (\<lambda>b. bindE (assertE b) (\<lambda>_.
     Inr \<lparr>av_shape = s, av_type = t, av_data = d, av_context = c\<rparr>))"

text \<open>\<open>_cleanup_value\<close>: the data of a tensor is not kept.\<close>

fun cleanup_value :: "kdata \<Rightarrow> kdata result" where
  "cleanup_value (KTuple ds) =
     bindE (shape_type_from_data (KTuple ds)) (\<lambda>_. bindE (mapE cleanup_value ds) (\<lambda>ds'. Inr (KTuple ds')))"
| "cleanup_value d =
     bindE (shape_type_from_data d) (\<lambda>st. Inr (if is_tensor (st_type st) then KNone else d))"

definition from_data :: "kdata \<Rightarrow> label \<Rightarrow> aval result" where
  "from_data d c =
     bindE (shape_type_from_data d) (\<lambda>st. bindE (cleanup_value d) (\<lambda>d'. mk_aval (st_shape st) (st_type st) d' c))"

section \<open>Execution contexts\<close>

record cost_config =
  let_cost :: data
  assumed_vector_size :: data
  build_malloc_cost :: data
  index_cost :: data
  size_cost :: data
  select_cost :: data
  if_selection_cost :: data
  if_epsilon :: data

text \<open>\<open>0.1\<close> and \<open>0.0001\<close> are the floats next to these numbers.\<close>

definition get_default_cost_config :: cost_config where
  "get_default_cost_config =
     \<lparr>let_cost = DatFloat (Fin (3602879701896397 / 36028797018963968)),
      assumed_vector_size = DatInt 100,
      build_malloc_cost = DatInt 100,
      index_cost = DatInt 1,
      size_cost = DatInt 1,
      select_cost = DatInt 0,
      if_selection_cost = DatInt 1,
      if_epsilon = DatFloat (Fin (7378697629483821 / 73786976294838206464))\<rparr>"

record execution_context =
  costs :: "label \<Rightarrow> data"
  config :: cost_config

definition new_context :: "cost_config option \<Rightarrow> execution_context" where
  "new_context c =
     \<lparr>costs = (\<lambda>_. DatFloat (Fin 0)),
      config = (case c of None \<Rightarrow> get_default_cost_config | Some c \<Rightarrow> c)\<rparr>"

type_synonym contexts = "execution_context list"
type_synonym 'a exec = "contexts \<Rightarrow> 'a result \<times> contexts"

definition retS :: "'a \<Rightarrow> 'a exec" where
  "retS v = (\<lambda>st. (Inr v, st))"

definition liftS :: "'a result \<Rightarrow> 'a exec" where
  "liftS r = (\<lambda>st. (r, st))"

definition bindS :: "'a exec \<Rightarrow> ('a \<Rightarrow> 'b exec) \<Rightarrow> 'b exec" where
  "bindS m k = (\<lambda>st. case m st of (Inl e, st') \<Rightarrow> (Inl e, st') | (Inr v, st') \<Rightarrow> k v st')"

abbreviation raiseS :: "py_error \<Rightarrow> 'a exec" where
  "raiseS e \<equiv> liftS (Inl e)"

fun mapS :: "('a \<Rightarrow> 'b exec) \<Rightarrow> 'a list \<Rightarrow> 'b list exec" where
  "mapS f [] = retS []"
| "mapS f (x # xs) = bindS (f x) (\<lambda>y. bindS (mapS f xs) (\<lambda>ys. retS (y # ys)))"

lemma mapS_cong [fundef_cong]:
  "xs = ys \<Longrightarrow> (\<And>x. x \<in> set ys \<Longrightarrow> f x = g x) \<Longrightarrow> mapS f xs = mapS g ys"
proof (induction xs arbitrary: ys)
  case (Cons x xs)
  then have "f x = g x" "mapS f xs = mapS g xs" by auto
  with Cons.prems(1) show ?case by (metis mapS.simps(2))
qed simp

definition current_execution_context :: "execution_context exec" where
  "current_execution_context = (\<lambda>st. (case st of [] \<Rightarrow> Inl ValueError | c # _ \<Rightarrow> Inr c, st))"

text \<open>
  \<open>with c as ctx: m\<close>: the context is removed whether \<open>m\<close> raises or not. The result is that of \<open>m\<close> and
  the context as \<open>m\<close> leaves it.
\<close>

definition with_context :: "execution_context \<Rightarrow> 'a exec \<Rightarrow> ('a \<times> execution_context) exec" where
  "with_context c m = (\<lambda>st.
     case m (c # st) of
       (_, []) \<Rightarrow> (Inl IndexError, [])
     | (Inl e, _ # st') \<Rightarrow> (Inl e, st')
     | (Inr v, c' # st') \<Rightarrow> (Inr (v, c'), st'))"

text \<open>
  \<open>accumulate_cost\<close>: whatever the addition raises becomes a \<open>ValueError\<close>. Adding an array, which gives an
  array, is not modelled.
\<close>

definition accumulate_cost :: "py_ops \<Rightarrow> label \<Rightarrow> kdata \<Rightarrow> unit exec" where
  "accumulate_cost ops state cost = (\<lambda>st.
     case st of
       [] \<Rightarrow> (Inl ValueError, [])
     | c # cs \<Rightarrow>
         (case known_data cost of
            None \<Rightarrow> (Inl ValueError, st)
          | Some d \<Rightarrow>
              if is_nd d then (Inl Unmodelled, st)
              else (case data_add ops (costs c state) d of
                  Inl _ \<Rightarrow> (Inl ValueError, st)
                | Inr s \<Rightarrow> (Inr (), c\<lparr>costs := (costs c)(state := s)\<rparr> # cs))))"

definition charge :: "py_ops \<Rightarrow> label \<Rightarrow> data result \<Rightarrow> unit exec" where
  "charge ops state cost = bindS (liftS cost) (\<lambda>d. accumulate_cost ops state (kdata_of d))"

section \<open>Objects\<close>

text \<open>
  What generated code passes around: plain data, abstract values, and the functions \<open>build\<close> and
  \<open>sumbuild\<close> call, with data or abstract values.
\<close>

datatype arg = ArgRaw kdata | ArgAbs aval

datatype obj =
    Raw kdata
  | Abs aval
  | Fun "arg \<Rightarrow> execution_context list \<Rightarrow> (py_error + obj) \<times> execution_context list"

fun obj_of_arg :: "arg \<Rightarrow> obj" where
  "obj_of_arg (ArgRaw d) = Raw d"
| "obj_of_arg (ArgAbs a) = Abs a"

text \<open>The data of a function is the function itself; what becomes of it is not modelled.\<close>

fun get_data :: "obj \<Rightarrow> kdata result" where
  "get_data (Raw d) = Inr d"
| "get_data (Abs a) = Inr (av_data a)"
| "get_data (Fun f) = Inl Unmodelled"

text \<open>The attribute \<open>shape_type\<close>, which only abstract values have.\<close>

fun shape_type_of :: "obj \<Rightarrow> ShapeType result" where
  "shape_type_of (Abs a) = Inr \<lparr>st_shape = av_shape a, st_type = av_type a\<rparr>"
| "shape_type_of _ = Inl AttributeError"

fun in_context :: "label \<Rightarrow> obj \<Rightarrow> aval result" where
  "in_context c (Raw d) = from_data d c"
| "in_context c (Abs a) = mk_aval (av_shape a) (av_type a) (av_data a) c"
| "in_context c (Fun f) = Inl ValueError"

fun abstract_like :: "obj \<Rightarrow> aval result" where
  "abstract_like (Raw d) =
     bindE (shape_type_from_data d) (\<lambda>st. mk_aval (st_shape st) (st_type st) KNone NoContext)"
| "abstract_like (Abs a) = mk_aval (av_shape a) (av_type a) KNone (av_context a)"
| "abstract_like (Fun f) = Inl ValueError"

text \<open>
  \<open>check_args_and_get_context\<close>: the one label the arguments carry, next to none and \<open>concrete\<close>; it is
  \<open>concrete\<close> when no argument is an abstract value.
\<close>

fun merge_contexts :: "label \<Rightarrow> label \<Rightarrow> obj list \<Rightarrow> label result" where
  "merge_contexts concrete ctx [] = Inr ctx"
| "merge_contexts concrete ctx (Abs a # args) =
     (if av_context a = NoContext then merge_contexts concrete ctx args
      else let ctx' = (if ctx = NoContext \<or> ctx = concrete then av_context a else ctx)
           in bindE (assertE (av_context a = concrete \<or> av_context a = ctx')) (\<lambda>_.
              merge_contexts concrete ctx' args))"
| "merge_contexts concrete ctx (_ # args) = merge_contexts concrete ctx args"

fun is_abs :: "obj \<Rightarrow> bool" where
  "is_abs (Abs a) \<longleftrightarrow> True"
| "is_abs _ \<longleftrightarrow> False"

definition check_args_and_get_context :: "label \<Rightarrow> obj list \<Rightarrow> label result" where
  "check_args_and_get_context concrete args =
     (if list_all (\<lambda>a. \<not> is_abs a) args then Inr concrete else merge_contexts concrete NoContext args)"

section \<open>The functions of backends/abstract.py\<close>

definition call_obj :: "obj \<Rightarrow> arg \<Rightarrow> obj exec" where
  "call_obj f a = (case f of Fun g \<Rightarrow> g a | _ \<Rightarrow> raiseS TypeError)"

definition py_max_data :: "data \<Rightarrow> data \<Rightarrow> data result" where
  "py_max_data a b = bindE (data_lt a b) (\<lambda>r. Inr (if r then b else a))"

definition py_min_data :: "data \<Rightarrow> data \<Rightarrow> data result" where
  "py_min_data a b = bindE (data_lt b a) (\<lambda>r. Inr (if r then b else a))"

text \<open>\<open>index\<close> and \<open>size\<close>; \<open>dims\<close> is checked to have a length only.\<close>

definition av_index :: "py_ops \<Rightarrow> obj \<Rightarrow> obj \<Rightarrow> obj exec" where
  "av_index ops i v =
     bindS (liftS (shape_type_of v)) (\<lambda>st.
     bindS (liftS (assertE (is_tensor (st_type st)))) (\<lambda>_.
     bindS current_execution_context (\<lambda>ctx.
     case v of
       Abs a \<Rightarrow>
         bindS (charge ops (av_context a) (Inr (index_cost (config ctx)))) (\<lambda>_.
         liftS (case av_shape a of
             TensorShape dims elem_shape \<Rightarrow>
               bindE (tensor_elem_type (av_type a)) (\<lambda>t.
               bindE (mk_aval elem_shape t KNone (av_context a)) (\<lambda>r. Inr (Abs r)))
           | ShTuple _ \<Rightarrow> Inl AttributeError))
     | _ \<Rightarrow> raiseS AttributeError)))"

fun first_item :: "kdata \<Rightarrow> kdata result" where
  "first_item (KTuple ds) = py_index ds 0"
| "first_item (KList ds) = py_index ds 0"
| "first_item (KStr s) = bindE (py_index s 0) (\<lambda>c. Inr (KStr [c]))"
| "first_item (KNd sh ds) = Inl Unmodelled"
| "first_item _ = Inl TypeError"

definition av_size :: "py_ops \<Rightarrow> obj \<Rightarrow> obj exec" where
  "av_size ops v =
     bindS (liftS (shape_type_of v)) (\<lambda>st.
     bindS (liftS (assertE (is_tensor (st_type st)))) (\<lambda>_.
     bindS current_execution_context (\<lambda>ctx.
     case v of
       Abs a \<Rightarrow>
         bindS (charge ops (av_context a) (Inr (size_cost (config ctx)))) (\<lambda>_.
         liftS (case av_shape a of
             TensorShape dims elem_shape \<Rightarrow>
               bindE (kdata_len dims) (\<lambda>n.
               bindE (if n = 1 then first_item dims else Inr dims) (\<lambda>d.
               bindE (from_data d (av_context a)) (\<lambda>r. Inr (Abs r))))
           | ShTuple _ \<Rightarrow> Inl AttributeError))
     | _ \<Rightarrow> raiseS AttributeError)))"

text \<open>
  \<open>_compute_branch_cost\<close> and \<open>_compute_build_inner_cost\<close>: a new context with the default costs, of which the
  costs without a label are taken. \<open>numpy.prod\<close> of no dimensions is the float 1.
\<close>

definition compute_branch_cost :: "obj exec \<Rightarrow> (obj \<times> data) exec" where
  "compute_branch_cost f = bindS (with_context (new_context None) f) (\<lambda>(out, ctx). retS (out, costs ctx NoContext))"

definition numpy_prod :: "kdata list \<Rightarrow> data result" where
  "numpy_prod dims =
     (if dims = [] then Inr (DatFloat (Fin 1))
      else bindE (mapE (\<lambda>d. case d of
          KInt i \<Rightarrow> Inr i
        | KBool b \<Rightarrow> Inr (if b then 1 else 0)
        | KNone \<Rightarrow> Inl TypeError
        | _ \<Rightarrow> Inl Unmodelled) dims) (\<lambda>is. Inr (DatInt (prod_list is))))"

definition compute_build_inner_cost :: "obj \<Rightarrow> obj \<Rightarrow> (kdata list \<times> data \<times> obj \<times> data) exec" where
  "compute_build_inner_cost n f =
     bindS (liftS (get_data n)) (\<lambda>d.
     bindS (if d = KNone then bindS current_execution_context (\<lambda>ctx. retS (kdata_of (assumed_vector_size (config ctx))))
            else retS d) (\<lambda>d.
     bindS (liftS (make_dims d)) (\<lambda>dims.
     bindS (liftS (numpy_prod dims)) (\<lambda>nelem.
     bindS (liftS (mk_aval (of_Index_of_Tensor_of_rank (length dims)) (SizeType_from_rank (int (length dims))) KNone NoContext)) (\<lambda>i.
     bindS (compute_branch_cost (call_obj f (ArgAbs i))) (\<lambda>(el, cost).
     retS (dims, nelem, el, cost)))))))"

definition av_build :: "py_ops \<Rightarrow> obj \<Rightarrow> obj \<Rightarrow> obj exec" where
  "av_build ops sz f =
     bindS (liftS (check_args_and_get_context NoContext [sz])) (\<lambda>ctx.
     bindS (compute_build_inner_cost sz f) (\<lambda>(dims, nelem, el, inner_cost).
     bindS current_execution_context (\<lambda>exec_ctx.
     bindS (charge ops ctx
         (bindE (data_mul ops nelem inner_cost) (\<lambda>p. data_add ops (build_malloc_cost (config exec_ctx)) p))) (\<lambda>_.
     bindS (liftS (shape_type_of el)) (\<lambda>st.
     liftS (bindE (mk_aval (TensorShape (KTuple dims) (st_shape st)) (Tensor (int (length dims)) (st_type st)) KNone ctx)
       (\<lambda>r. Inr (Abs r))))))))"

text \<open>\<open>Type.num_elements\<close>, which is \<open>None\<close> for the type \<open>Any\<close>\<close>

fun num_elements :: "py_ops \<Rightarrow> data \<Rightarrow> ty \<Rightarrow> data option result" where
  "num_elements ops sz (Tuple ts) =
     bindE (mapE (num_elements ops sz) ts) (\<lambda>ns.
     bindE (foldE (\<lambda>s n. case n of None \<Rightarrow> Inl TypeError | Some d \<Rightarrow> data_add ops s d) (Inr (DatInt 0)) ns) (\<lambda>s.
     Inr (Some s)))"
| "num_elements ops sz (Tensor r t) =
     bindE (data_pow ops sz (DatInt r)) (\<lambda>p.
     bindE (num_elements ops sz t) (\<lambda>n.
     case n of None \<Rightarrow> Inl TypeError | Some d \<Rightarrow> bindE (data_mul ops p d) (\<lambda>q. Inr (Some q))))"
| "num_elements ops sz t = Inr (if is_scalar t \<or> is_lam_or_LM t then Some (DatInt 1) else None)"

definition av_sumbuild :: "py_ops \<Rightarrow> obj \<Rightarrow> obj \<Rightarrow> obj exec" where
  "av_sumbuild ops sz f =
     bindS (liftS (check_args_and_get_context NoContext [sz])) (\<lambda>ctx.
     bindS (compute_build_inner_cost sz f) (\<lambda>(dims, nelem, el, inner_cost).
     bindS (liftS (shape_type_of el)) (\<lambda>elst.
     bindS current_execution_context (\<lambda>exec_ctx.
     bindS (charge ops ctx
         (bindE (data_mul ops nelem inner_cost) (\<lambda>p.
          bindE (data_sub ops nelem (DatInt 1)) (\<lambda>m.
          bindE (num_elements ops (assumed_vector_size (config exec_ctx)) (st_type elst)) (\<lambda>n.
          case n of None \<Rightarrow> Inl TypeError
          | Some k \<Rightarrow> bindE (data_mul ops m k) (\<lambda>q. data_add ops p q)))))) (\<lambda>_.
     liftS (bindE (mk_aval (st_shape elst) (st_type elst) KNone ctx) (\<lambda>r. Inr (Abs r))))))))"

definition av_fold :: "obj \<Rightarrow> obj \<Rightarrow> obj \<Rightarrow> obj exec" where
  "av_fold f s0 xs = raiseS NotImplementedError"

definition av_make_tuple :: "py_ops \<Rightarrow> obj list \<Rightarrow> obj exec" where
  "av_make_tuple ops args =
     bindS (liftS (check_args_and_get_context Concrete args)) (\<lambda>ctx.
     bindS (liftS (mapE shape_type_of args)) (\<lambda>sts.
     bindS (liftS (mapE get_data args)) (\<lambda>child_data.
     bindS current_execution_context (\<lambda>exec_ctx.
     bindS (charge ops ctx (data_mul ops (let_cost (config exec_ctx)) (DatInt (int (length args))))) (\<lambda>_.
     liftS (bindE (mk_aval (ShTuple (map st_shape sts)) (Tuple (map st_type sts)) (KTuple child_data) ctx)
       (\<lambda>r. Inr (Abs r))))))))"

text \<open>The children of a type, and the components of a shape, by a Python index.\<close>

definition child_shape :: "shape \<Rightarrow> int \<Rightarrow> shape result" where
  "child_shape s i = (case s of ShTuple ss \<Rightarrow> py_index ss i | TensorShape _ _ \<Rightarrow> Inl TypeError)"

definition child_type :: "ty \<Rightarrow> int \<Rightarrow> ty result" where
  "child_type t i =
     (case t of
        Tuple ts \<Rightarrow> py_index ts i
      | _ \<Rightarrow> if is_tensor t \<or> is_lam_or_LM t then Inl Unmodelled else Inl IndexError)"

definition av_get_tuple_element :: "py_ops \<Rightarrow> int \<Rightarrow> obj \<Rightarrow> obj exec" where
  "av_get_tuple_element ops i tup =
     bindS (liftS (shape_type_of tup)) (\<lambda>st.
     bindS (liftS (child_shape (st_shape st) i)) (\<lambda>el_shape.
     bindS (liftS (child_type (st_type st) i)) (\<lambda>el_type.
     case tup of
       Abs a \<Rightarrow>
         bindS (liftS (case av_data a of KTuple ds \<Rightarrow> py_index ds i | _ \<Rightarrow> Inr KNone)) (\<lambda>el_data.
         bindS current_execution_context (\<lambda>exec_ctx.
         bindS (charge ops (av_context a) (Inr (select_cost (config exec_ctx)))) (\<lambda>_.
         liftS (bindE (mk_aval el_shape el_type el_data (av_context a)) (\<lambda>r. Inr (Abs r))))))
     | _ \<Rightarrow> raiseS AttributeError)))"

text \<open>
  \<open>let\<close>: \<open>body(*var)\<close> takes the elements of a tuple, a list or a string; an abstract value cannot be
  iterated over.
\<close>

definition charge_let :: "py_ops \<Rightarrow> obj \<Rightarrow> unit exec" where
  "charge_let ops var =
     bindS (liftS (check_args_and_get_context Concrete [var])) (\<lambda>ctx.
     bindS current_execution_context (\<lambda>exec_ctx.
     charge ops ctx (Inr (let_cost (config exec_ctx)))))"

definition av_let_one :: "py_ops \<Rightarrow> obj \<Rightarrow> (obj \<Rightarrow> obj exec) \<Rightarrow> obj exec" where
  "av_let_one ops var body = bindS (charge_let ops var) (\<lambda>_. body var)"

fun elements :: "obj \<Rightarrow> kdata list result" where
  "elements (Raw (KTuple ds)) = Inr ds"
| "elements (Raw (KList ds)) = Inr ds"
| "elements (Raw (KStr s)) = Inr (map (\<lambda>c. KStr [c]) s)"
| "elements (Raw (KNd sh ds)) = Inl Unmodelled"
| "elements _ = Inl TypeError"

definition av_let_tupled :: "py_ops \<Rightarrow> nat \<Rightarrow> obj \<Rightarrow> ((nat \<Rightarrow> obj result) \<Rightarrow> obj exec) \<Rightarrow> obj exec" where
  "av_let_tupled ops n var body =
     bindS (charge_let ops var) (\<lambda>_.
     bindS (liftS (elements var)) (\<lambda>ds.
     if length ds = n then body (\<lambda>i. if i < n then Inr (Raw (ds ! i)) else Inl IndexError)
     else raiseS TypeError))"

text \<open>The truth value of data.\<close>

fun kdata_truthy :: "kdata \<Rightarrow> bool result" where
  "kdata_truthy KNone = Inr False"
| "kdata_truthy (KInt i) = Inr (i \<noteq> 0)"
| "kdata_truthy (KFloat f) = Inr (f \<noteq> Fin 0 \<and> f \<noteq> NegZero)"
| "kdata_truthy (KBool b) = Inr b"
| "kdata_truthy (KStr s) = Inr (s \<noteq> [])"
| "kdata_truthy (KTuple ds) = Inr (ds \<noteq> [])"
| "kdata_truthy (KList ds) = Inr (ds \<noteq> [])"
| "kdata_truthy (KNd sh ds) = (if length ds \<le> 1 then Inl Unmodelled else Inl ValueError)"

definition av_if_then_else :: "py_ops \<Rightarrow> obj \<Rightarrow> obj exec \<Rightarrow> obj exec \<Rightarrow> obj exec" where
  "av_if_then_else ops cond then_branch else_branch =
     bindS (liftS (check_args_and_get_context Concrete [cond])) (\<lambda>ctx.
     bindS (liftS (get_data cond)) (\<lambda>c.
     bindS current_execution_context (\<lambda>exec_ctx.
     bindS (charge ops ctx (Inr (if_selection_cost (config exec_ctx)))) (\<lambda>_.
     if c = KNone then
       bindS (compute_branch_cost then_branch) (\<lambda>(out1, then_cost).
       bindS (compute_branch_cost else_branch) (\<lambda>(out2, else_cost).
       bindS (liftS (abstract_like out1)) (\<lambda>a1.
       bindS (liftS (abstract_like out2)) (\<lambda>a2.
       bindS (liftS (assertE (ShapeType_eq \<lparr>st_shape = av_shape a1, st_type = av_type a1\<rparr>
                                           \<lparr>st_shape = av_shape a2, st_type = av_type a2\<rparr>))) (\<lambda>_.
       bindS (liftS (assertE (av_context a1 = av_context a2))) (\<lambda>_.
       bindS (charge ops ctx
           (bindE (py_max_data then_cost else_cost) (\<lambda>hi.
            bindE (py_min_data then_cost else_cost) (\<lambda>lo.
            bindE (data_mul ops (if_epsilon (config exec_ctx)) lo) (\<lambda>e. data_add ops hi e))))) (\<lambda>_.
       retS (Abs a1))))))))
     else bindS (liftS (kdata_truthy c)) (\<lambda>b. if b then then_branch else else_branch)))))"

text \<open>\<open>assert_\<close>: an object without a truth value of its own, as an abstract value is, counts as true.\<close>

definition av_assert :: "obj \<Rightarrow> obj \<Rightarrow> obj exec" where
  "av_assert cond body =
     bindS (liftS (case cond of Raw d \<Rightarrow> kdata_truthy d | _ \<Rightarrow> Inr True)) (\<lambda>b.
     bindS (liftS (assertE b)) (\<lambda>_. retS body))"

section \<open>Execution\<close>

text \<open>
  The functions by name. \<open>let\<close> and \<open>if_then_else\<close> called by their names, with thunks of a program, are
  not modelled; neither is an index that is not a number.
\<close>

definition call1S :: "(obj \<Rightarrow> obj exec) \<Rightarrow> obj list \<Rightarrow> obj exec" where
  "call1S f vs = (case vs of [a] \<Rightarrow> f a | _ \<Rightarrow> raiseS TypeError)"

definition call2S :: "(obj \<Rightarrow> obj \<Rightarrow> obj exec) \<Rightarrow> obj list \<Rightarrow> obj exec" where
  "call2S f vs = (case vs of [a, b] \<Rightarrow> f a b | _ \<Rightarrow> raiseS TypeError)"

definition call3S :: "(obj \<Rightarrow> obj \<Rightarrow> obj \<Rightarrow> obj exec) \<Rightarrow> obj list \<Rightarrow> obj exec" where
  "call3S f vs = (case vs of [a, b, c] \<Rightarrow> f a b c | _ \<Rightarrow> raiseS TypeError)"

definition abstract_built_ins :: "py_ops \<Rightarrow> (string, obj list \<Rightarrow> obj exec) dict" where
  "abstract_built_ins ops =
     [(''build'', call2S (av_build ops)), (''sumbuild'', call2S (av_sumbuild ops)),
      (''size'', call1S (av_size ops)), (''index'', call2S (av_index ops)),
      (''fold'', call3S av_fold), (''make_tuple'', av_make_tuple ops),
      (''get_tuple_element'', call2S (\<lambda>i t. case i of
         Raw (KInt k) \<Rightarrow> av_get_tuple_element ops k t | _ \<Rightarrow> raiseS Unmodelled)),
      (''let'', \<lambda>_. raiseS Unmodelled), (''if_then_else'', \<lambda>_. raiseS Unmodelled),
      (''assert_'', call2S av_assert)]"

type_synonym fun_env = "string \<Rightarrow> (obj list \<Rightarrow> obj exec) option"

text \<open>
  A name of generated code: a function of the program, or one imported from the backend. Functions and
  variables have different names.
\<close>

definition function_named :: "py_ops \<Rightarrow> fun_env \<Rightarrow> string \<Rightarrow> (obj list \<Rightarrow> obj exec) result" where
  "function_named ops F name =
     (if list_all ident_char name then
        (case F name of
           Some g \<Rightarrow> Inr g
         | None \<Rightarrow> (case map_of (abstract_built_ins ops) name of Some g \<Rightarrow> Inr g | None \<Rightarrow> Inl NameError))
      else Inl NameError)"

text \<open>The code \<open>Translator.handle_body\<close> generates, run; it refuses an \<open>Assert\<close>.\<close>

fun aeval :: "py_ops \<Rightarrow> fun_env \<Rightarrow> (string \<Rightarrow> obj result) \<Rightarrow> expr \<Rightarrow> obj exec" where
  "aeval ops F \<rho> (Const c) = retS (Raw (kdata_of_const c))"
| "aeval ops F \<rho> (Var v) = liftS (\<rho> (var_name v))"
| "aeval ops F \<rho> (Call f as _) =
     bindS (liftS (mangled f)) (\<lambda>name.
     if starts_with ''get$'' name then
       bindS (liftS (tuple_index name)) (\<lambda>i.
       case as of [] \<Rightarrow> raiseS IndexError | a # _ \<Rightarrow> bindS (aeval ops F \<rho> a) (av_get_tuple_element ops i))
     else
       bindS (if name = ''tuple'' then retS (av_make_tuple ops)
              else liftS (function_named ops F (normalize_name name))) (\<lambda>g.
       bindS (mapS (aeval ops F \<rho>) as) g))"
| "aeval ops F \<rho> (Lam x s b _) = retS (Fun (\<lambda>a. aeval ops F (\<rho>(x := Inr (obj_of_arg a))) b))"
| "aeval ops F \<rho> (LetE (One x) r b _) =
     bindS (aeval ops F \<rho> r) (\<lambda>v. av_let_one ops v (\<lambda>u. aeval ops F (\<rho>(var_name x := Inr u)) b))"
| "aeval ops F \<rho> (LetE (Many xs) r b _) =
     bindS (aeval ops F \<rho> r) (\<lambda>v.
     av_let_tupled ops (length xs) v (\<lambda>vs. aeval ops F (upds \<rho> (map var_name xs) vs) b))"
| "aeval ops F \<rho> (IfE c t f _) =
     bindS (aeval ops F \<rho> c) (\<lambda>v. av_if_then_else ops v (aeval ops F \<rho> t) (aeval ops F \<rho> f))"
| "aeval ops F \<rho> (Assert c b _) = raiseS AssertionError"

section \<open>Declared functions\<close>

text \<open>
  \<open>_get_edef\<close>. Called with concrete values, the function is the one of that name in the module, which
  imports it from \<open>common.py\<close>; the other names of the module are not modelled.
\<close>

definition imported_names :: "string list" where
  "imported_names =
     [''add'', ''sub'', ''mul'', ''div'', ''div_ii'', ''div_ff'', ''eq'', ''lt'', ''gt'', ''lte'', ''gte'',
      ''or_'', ''and_'', ''abs_'', ''max_'', ''neg'', ''pow'', ''to_float_i'']"

definition other_globals :: "string list" where
  "other_globals =
     [''wraps'', ''numpy'', ''ksc'', ''AbstractValue'', ''ExecutionContext'', ''current_execution_context'',
      ''Type'', ''SizeType'', ''ShapeType'', ''Shape'', ''TensorShape'', ''make_dims'', ''common'',
      ''_built_ins'', ''check_args_and_get_context'', ''_get_data'', ''_get_edef'', ''index'', ''size'',
      ''_compute_branch_cost'', ''_compute_build_inner_cost'', ''build'', ''sumbuild'', ''fold'',
      ''make_tuple'', ''get_tuple_element'', ''let'', ''if_then_else'', ''assert_'']"

definition concrete_call :: "py_ops \<Rightarrow> string \<Rightarrow> kdata list \<Rightarrow> kdata result" where
  "concrete_call ops name ds =
     (if name \<in> set imported_names then
        (case (map_of (built_ins ops) name, those (map known_data ds)) of
           (Some g, Some xs) \<Rightarrow>
             bindE (g (map of_data xs)) (\<lambda>v. case to_data v of Some d \<Rightarrow> Inr (kdata_of d) | None \<Rightarrow> Inl Unmodelled)
         | _ \<Rightarrow> Inl Unmodelled)
      else if name \<in> set other_globals \<or> starts_with ''__'' name then Inl Unmodelled
      else Inl KeyError)"

definition shape_and_cost ::
    "(obj list \<Rightarrow> obj exec) \<Rightarrow> (obj list \<Rightarrow> obj exec) \<Rightarrow> ty \<Rightarrow> aval list \<Rightarrow> (shape \<times> kdata) exec" where
  "shape_and_cost shape_def cost_def t as =
     bindS (shape_def (map Abs as)) (\<lambda>s.
     bindS (liftS (bindE (get_data s) (\<lambda>ks_shape. from_ks_shape ks_shape t))) (\<lambda>shape.
     bindS (cost_def (map Abs as)) (\<lambda>c.
     bindS (liftS (get_data c)) (\<lambda>cost. retS (shape, cost)))))"

definition get_edef ::
    "py_ops \<Rightarrow> string \<Rightarrow> (obj list \<Rightarrow> obj exec) \<Rightarrow> (obj list \<Rightarrow> obj exec) \<Rightarrow> ty \<Rightarrow> obj list \<Rightarrow> obj exec" where
  "get_edef ops py_name_for_concrete shape_def cost_def t args =
     bindS (liftS (check_args_and_get_context Concrete args)) (\<lambda>ctx.
     if ctx = Concrete then
       liftS (bindE (bindE (mapE get_data args) (\<lambda>ds.
              bindE (concrete_call ops py_name_for_concrete ds) (\<lambda>d. from_data d ctx))) (\<lambda>r. Inr (Abs r)))
     else
       bindS (liftS (mapE (in_context Concrete) args)) (\<lambda>as.
       bindS (with_context (new_context None) (shape_and_cost shape_def cost_def t as)) (\<lambda>((shape, cost), _).
       bindS (accumulate_cost ops ctx cost) (\<lambda>_.
       liftS (bindE (mk_aval shape t KNone ctx) (\<lambda>r. Inr (Abs r)))))))"

section \<open>Modules\<close>

text \<open>
  A generated module: its functions by their Python name, the dictionary \<open>defs\<close> of mangled names, and
  the declared functions by their Python name, with the mangled name and the type. The functions of
  costs and shapes are looked up when the module is imported. Calls nest to a depth of at most \<open>n\<close>.
\<close>

record abs_module =
  mod_functions :: "(string, string list \<times> expr) dict"
  mod_defs :: "(string, string) dict"
  mod_edefs :: "(string, string \<times> ty) dict"

definition run_def :: "py_ops \<Rightarrow> fun_env \<Rightarrow> string list \<times> expr \<Rightarrow> obj list \<Rightarrow> obj exec" where
  "run_def ops F = (\<lambda>(xs, body) vs.
     if length vs = length xs
     then aeval ops F (upds (\<lambda>_. Inl NameError) xs (\<lambda>i. if i < length vs then Inr (vs ! i) else Inl NameError)) body
     else raiseS TypeError)"

definition def_function :: "abs_module \<Rightarrow> string \<Rightarrow> (string list \<times> expr) option" where
  "def_function m mangled_name =
     Option.bind (map_of (mod_defs m) mangled_name) (map_of (mod_functions m))"

definition run_defs_entry :: "py_ops \<Rightarrow> fun_env \<Rightarrow> abs_module \<Rightarrow> string \<Rightarrow> obj list \<Rightarrow> obj exec" where
  "run_defs_entry ops F m mangled_name vs =
     (case def_function m mangled_name of None \<Rightarrow> raiseS KeyError | Some d \<Rightarrow> run_def ops F d vs)"

definition run_edef :: "py_ops \<Rightarrow> fun_env \<Rightarrow> abs_module \<Rightarrow> string \<Rightarrow> string \<times> ty \<Rightarrow> obj list \<Rightarrow> obj exec" where
  "run_edef ops F m py_name = (\<lambda>(name, t).
     get_edef ops py_name (run_defs_entry ops F m (''shape$'' @ name)) (run_defs_entry ops F m (''cost$'' @ name)) t)"

fun module_functions :: "py_ops \<Rightarrow> abs_module \<Rightarrow> nat \<Rightarrow> fun_env" where
  "module_functions ops m 0 f =
     (if map_of (mod_edefs m) f = None \<and> map_of (mod_functions m) f = None then None
      else Some (\<lambda>_. raiseS RecursionError))"
| "module_functions ops m (Suc n) f =
     (case map_of (mod_edefs m) f of
        Some e \<Rightarrow> Some (run_edef ops (module_functions ops m n) m f e)
      | None \<Rightarrow> map_option (run_def ops (module_functions ops m n)) (map_of (mod_functions m) f))"

definition import_module :: "abs_module \<Rightarrow> unit result" where
  "import_module m =
     raise_unless KeyError (list_all (\<lambda>(_, name, _).
       def_function m (''shape$'' @ name) \<noteq> None \<and> def_function m (''cost$'' @ name) \<noteq> None) (mod_edefs m))"

text \<open>
  \<open>compute_cost\<close>: the costs the call leaves in the context, which is a new one unless it is given; by
  default that without a label is returned.
\<close>

definition compute_costs ::
    "py_ops \<Rightarrow> nat \<Rightarrow> abs_module \<Rightarrow> string \<Rightarrow> obj list \<Rightarrow> execution_context option \<Rightarrow> (label \<Rightarrow> data) exec" where
  "compute_costs ops n m def_name args exec_context =
     bindS (liftS (import_module m)) (\<lambda>_.
     bindS (with_context (case exec_context of None \<Rightarrow> new_context None | Some c \<Rightarrow> c)
         (case map_of (mod_defs m) def_name of
            Some _ \<Rightarrow> run_defs_entry ops (module_functions ops m n) m def_name args
          | None \<Rightarrow>
              (case module_functions ops m (Suc n) def_name of
                 Some f \<Rightarrow> f args
               | None \<Rightarrow>
                   (case map_of (abstract_built_ins ops) def_name of Some f \<Rightarrow> f args | None \<Rightarrow> raiseS KeyError)))) (\<lambda>(_, ctx).
     retS (costs ctx)))"

definition compute_cost ::
    "py_ops \<Rightarrow> nat \<Rightarrow> abs_module \<Rightarrow> string \<Rightarrow> obj list \<Rightarrow> execution_context option \<Rightarrow> data exec" where
  "compute_cost ops n m def_name args exec_context =
     bindS (compute_costs ops n m def_name args exec_context) (\<lambda>cs. retS (cs NoContext))"

text \<open>\<open>shape_from_type\<close>: the shape of a value of which the type is known only.\<close>

fun shape_from_type :: "int \<Rightarrow> ty \<Rightarrow> kdata list" where
  "shape_from_type sz (Tuple ts) = map (\<lambda>t. KTuple (shape_from_type sz t)) ts"
| "shape_from_type sz (Tensor r t) = KInt sz # shape_from_type sz t"
| "shape_from_type sz t = []"

end
