(* ===== verification/AbstractLaws.thy ===== *)
theory AbstractLaws
  imports AbstractBackend
begin

text \<open>
  What abstract execution does to the execution contexts: it leaves all but the innermost one as they
  are, keeps the configuration of that one, and so balances the contexts it opens, whether it returns or
  raises.
\<close>

named_theorems framed_intros \<open>computations that change the costs of the innermost context only\<close>

section \<open>The frame of a computation\<close>

fun same_frame :: "contexts \<Rightarrow> contexts \<Rightarrow> bool" where
  "same_frame [] st \<longleftrightarrow> st = []"
| "same_frame (c # cs) st \<longleftrightarrow> (\<exists>c'. st = c' # cs \<and> config c' = config c)"

lemma same_frame_refl [simp]: "same_frame st st"
  by (cases st) auto

lemma same_frame_trans: "same_frame st st' \<Longrightarrow> same_frame st' st'' \<Longrightarrow> same_frame st st''"
  by (cases st) auto

definition framed :: "('a \<Rightarrow> bool) \<Rightarrow> 'a exec \<Rightarrow> bool" where
  "framed P m \<longleftrightarrow> (\<forall>st. same_frame st (snd (m st)) \<and> (\<forall>v. fst (m st) = Inr v \<longrightarrow> P v))"

lemma framedD: "framed P m \<Longrightarrow> same_frame st (snd (m st))" "framed P m \<Longrightarrow> fst (m st) = Inr v \<Longrightarrow> P v"
  by (auto simp: framed_def)

lemma framed_weaken: "framed P m \<Longrightarrow> (\<And>v. P v \<Longrightarrow> Q v) \<Longrightarrow> framed Q m"
  by (auto simp: framed_def)

lemma framed_retS: "P v \<Longrightarrow> framed P (retS v)"
  by (simp add: framed_def retS_def)

lemma framed_liftS: "(\<And>v. r = Inr v \<Longrightarrow> P v) \<Longrightarrow> framed P (liftS r)"
  by (simp add: framed_def liftS_def)

lemma framed_liftS_any [framed_intros]: "framed (\<lambda>_. True) (liftS r)"
  by (rule framed_liftS) simp

lemma framed_raiseS [framed_intros]: "framed P (raiseS e)"
  by (rule framed_liftS) simp

lemma framed_bindS:
  assumes "framed P m" "\<And>v. P v \<Longrightarrow> framed Q (k v)"
  shows "framed Q (bindS m k)"
  unfolding framed_def
proof (intro allI conjI impI)
  fix st
  obtain r st' where m: "m st = (r, st')" by force
  have frame: "same_frame st st'" using framedD(1) [OF assms(1), of st] m by simp
  show "same_frame st (snd (bindS m k st))"
  proof (cases r)
    case (Inr v)
    with m have "P v" using framedD(2) [OF assms(1), of st] by simp
    from framedD(1) [OF assms(2) [OF this], of st'] frame Inr m show ?thesis
      by (auto simp: bindS_def intro: same_frame_trans)
  qed (use m frame in \<open>simp add: bindS_def\<close>)
  fix w
  assume "fst (bindS m k st) = Inr w"
  with m obtain v where v: "r = Inr v" "fst (k v st') = Inr w"
    by (cases r) (auto simp: bindS_def)
  with m have "P v" using framedD(2) [OF assms(1), of st] by simp
  from framedD(2) [OF assms(2) [OF this] v(2)] show "Q w" .
qed

lemma framed_bindS_any: "framed (\<lambda>_. True) m \<Longrightarrow> (\<And>v. framed Q (k v)) \<Longrightarrow> framed Q (bindS m k)"
  by (rule framed_bindS)

lemma framed_bindS_lift: "(\<And>v. r = Inr v \<Longrightarrow> framed Q (k v)) \<Longrightarrow> framed Q (bindS (liftS r) k)"
  by (rule framed_bindS [where P = "\<lambda>v. r = Inr v"]) (auto intro: framed_liftS)

lemma framed_current [framed_intros]: "framed (\<lambda>_. True) current_execution_context"
  by (simp add: framed_def current_execution_context_def)

lemma framed_accumulate [framed_intros]: "framed (\<lambda>_. True) (accumulate_cost ops l d)"
  by (auto simp: framed_def accumulate_cost_def split: list.split option.split sum.split)

lemma framed_charge [framed_intros]: "framed (\<lambda>_. True) (charge ops l d)"
  unfolding charge_def by (intro framed_bindS_any framed_intros)

text \<open>A context that is opened is closed again: nothing is left of it.\<close>

lemma with_context_restores: "framed P m \<Longrightarrow> snd (with_context c m st) = st"
proof -
  assume m: "framed P m"
  obtain r st' where rs: "m (c # st) = (r, st')" by force
  with framedD(1) [OF m, of "c # st"] obtain c' where "st' = c' # st" by auto
  with rs show ?thesis by (cases r) (simp_all add: with_context_def)
qed

lemma framed_with_context: "framed P m \<Longrightarrow> framed (\<lambda>(v, c). P v) (with_context c m)"
  unfolding framed_def
proof (intro allI conjI impI)
  fix st v
  assume m: "\<forall>st. same_frame st (snd (m st)) \<and> (\<forall>v. fst (m st) = Inr v \<longrightarrow> P v)"
  then have "framed P m" by (simp add: framed_def)
  from with_context_restores [OF this] show "same_frame st (snd (with_context c m st))" by simp
  assume v: "fst (with_context c m st) = Inr v"
  obtain r st' where rs: "m (c # st) = (r, st')" by force
  with m have "same_frame (c # st) st'" by (metis snd_conv)
  then obtain c' where "st' = c' # st" by auto
  with v rs have "r = Inr (fst v)" by (cases r) (auto simp: with_context_def)
  with m rs show "case v of (v, c) \<Rightarrow> P v" by (metis case_prod_beta fst_conv)
qed

section \<open>Objects whose functions are framed\<close>

inductive quiet :: "obj \<Rightarrow> bool" where
  quiet_Raw: "quiet (Raw d)"
| quiet_Abs: "quiet (Abs a)"
| quiet_Fun: "(\<And>a st. same_frame st (snd (f a st))) \<Longrightarrow> (\<And>a st v. fst (f a st) = Inr v \<Longrightarrow> quiet v) \<Longrightarrow> quiet (Fun f)"

lemmas quiet_intros [simp, intro] = quiet_Raw quiet_Abs

lemma quiet_Fun_iff: "quiet (Fun f) \<longleftrightarrow> (\<forall>a. framed quiet (f a))"
proof
  show "quiet (Fun f) \<Longrightarrow> \<forall>a. framed quiet (f a)"
    by (cases rule: quiet.cases) (auto simp: framed_def)
qed (auto simp: framed_def intro: quiet_Fun)

lemma quiet_obj_of_arg [simp]: "quiet (obj_of_arg a)"
  by (cases a) auto

lemma framed_mapS: "(\<And>x. x \<in> set xs \<Longrightarrow> framed P (f x)) \<Longrightarrow> framed (list_all P) (mapS f xs)"
  by (induction xs) (auto intro!: framed_retS framed_bindS [where P = P] framed_bindS [where P = "list_all P"])

lemma framed_lift_Abs: "framed quiet (liftS (bindE r (\<lambda>a. Inr (Abs a))))"
  by (rule framed_liftS) auto

lemma framed_call_obj [framed_intros]: "quiet f \<Longrightarrow> framed quiet (call_obj f a)"
  by (cases f) (auto simp: call_obj_def quiet_Fun_iff intro: framed_intros)

lemma framed_compute_branch_cost:
  "framed quiet m \<Longrightarrow> framed (\<lambda>(out, _). quiet out) (compute_branch_cost m)"
  unfolding compute_branch_cost_def
  by (rule framed_bindS [OF framed_with_context]) (auto intro: framed_retS)

section \<open>The functions of the backend\<close>

lemma framed_av_index: "framed quiet (av_index ops i v)"
  unfolding av_index_def
  by (auto intro!: framed_bindS_any framed_bindS_lift framed_intros framed_liftS
      split: obj.split shape.split)

lemma framed_av_size: "framed quiet (av_size ops v)"
  unfolding av_size_def
  by (auto intro!: framed_bindS_any framed_bindS_lift framed_intros framed_liftS
      split: obj.split shape.split)

lemma framed_build_inner:
  "quiet f \<Longrightarrow> framed (\<lambda>(_, _, el, _). quiet el) (compute_build_inner_cost n f)"
  unfolding compute_build_inner_cost_def
  by (auto intro!: framed_bindS_any framed_bindS_lift framed_intros framed_retS
      framed_bindS [OF framed_compute_branch_cost] split: prod.split)

lemma framed_av_build: "quiet f \<Longrightarrow> framed quiet (av_build ops sz f)"
  unfolding av_build_def
  by (rule framed_bindS_lift, rule framed_bindS [OF framed_build_inner])
    (auto intro!: framed_bindS_any framed_bindS_lift framed_intros framed_lift_Abs)

lemma framed_av_sumbuild: "quiet f \<Longrightarrow> framed quiet (av_sumbuild ops sz f)"
  unfolding av_sumbuild_def
  by (rule framed_bindS_lift, rule framed_bindS [OF framed_build_inner])
    (auto intro!: framed_bindS_any framed_bindS_lift framed_intros framed_lift_Abs)

lemma framed_av_make_tuple: "framed quiet (av_make_tuple ops vs)"
  unfolding av_make_tuple_def
  by (auto intro!: framed_bindS_any framed_intros framed_lift_Abs)

lemma framed_av_get_tuple_element: "framed quiet (av_get_tuple_element ops i v)"
  unfolding av_get_tuple_element_def
  by (auto intro!: framed_bindS_any framed_intros framed_lift_Abs split: obj.split)

lemma framed_charge_let [framed_intros]: "framed (\<lambda>_. True) (charge_let ops v)"
  unfolding charge_let_def by (intro framed_bindS_any framed_intros)

lemma framed_av_let_one: "(\<And>u. quiet u \<Longrightarrow> framed quiet (k u)) \<Longrightarrow> quiet v \<Longrightarrow> framed quiet (av_let_one ops v k)"
  unfolding av_let_one_def by (intro framed_bindS_any framed_intros) auto

definition quiet_results :: "('a \<Rightarrow> obj result) \<Rightarrow> bool" where
  "quiet_results f \<longleftrightarrow> (\<forall>x v. f x = Inr v \<longrightarrow> quiet v)"

lemma framed_av_let_tupled:
  "(\<And>vs. quiet_results vs \<Longrightarrow> framed quiet (k vs)) \<Longrightarrow> framed quiet (av_let_tupled ops n v k)"
  unfolding av_let_tupled_def
  by (intro framed_bindS_any framed_intros) (auto simp: quiet_results_def intro: framed_intros)

lemma framed_av_if_then_else:
  assumes "framed quiet t" "framed quiet e"
  shows "framed quiet (av_if_then_else ops c t e)"
  unfolding av_if_then_else_def
  using assms
  by (auto intro!: framed_bindS_any framed_intros framed_retS framed_bindS [OF framed_compute_branch_cost])

lemma framed_av_assert: "quiet v \<Longrightarrow> framed quiet (av_assert c v)"
  unfolding av_assert_def by (auto intro!: framed_bindS_any framed_intros framed_retS)

definition quiet_function :: "(obj list \<Rightarrow> obj exec) \<Rightarrow> bool" where
  "quiet_function g \<longleftrightarrow> (\<forall>vs. list_all quiet vs \<longrightarrow> framed quiet (g vs))"

lemma quiet_call1S: "(\<And>a. quiet a \<Longrightarrow> framed quiet (f a)) \<Longrightarrow> quiet_function (call1S f)"
  by (auto simp: quiet_function_def call1S_def intro: framed_intros split: list.split)

lemma quiet_call2S: "(\<And>a b. quiet a \<Longrightarrow> quiet b \<Longrightarrow> framed quiet (f a b)) \<Longrightarrow> quiet_function (call2S f)"
  by (auto simp: quiet_function_def call2S_def intro: framed_intros split: list.split)

lemma quiet_call3S: "(\<And>a b c. framed quiet (f a b c)) \<Longrightarrow> quiet_function (call3S f)"
  by (auto simp: quiet_function_def call3S_def intro: framed_intros split: list.split)

lemma quiet_abstract_built_ins:
  assumes "map_of (abstract_built_ins ops) name = Some g"
  shows "quiet_function g"
proof -
  have "g \<in> snd ` set (abstract_built_ins ops)" using map_of_SomeD [OF assms] by force
  then have "g \<in> {call2S (av_build ops), call2S (av_sumbuild ops), call1S (av_size ops), call2S (av_index ops),
      call3S av_fold, av_make_tuple ops, call2S (\<lambda>i t. case i of
         Raw (KInt k) \<Rightarrow> av_get_tuple_element ops k t | _ \<Rightarrow> raiseS Unmodelled), (\<lambda>_. raiseS Unmodelled), call2S av_assert}"
    by (simp add: abstract_built_ins_def)
  moreover have "quiet_function (call2S (av_build ops))" "quiet_function (call2S (av_sumbuild ops))"
    "quiet_function (call1S (av_size ops))" "quiet_function (call2S (av_index ops))" "quiet_function (call2S av_assert)"
    by (auto intro!: quiet_call1S quiet_call2S framed_av_build framed_av_sumbuild framed_av_size framed_av_index framed_av_assert)
  moreover have "quiet_function (call3S av_fold)"
    by (auto intro!: quiet_call3S simp: av_fold_def intro: framed_intros)
  moreover have "quiet_function (av_make_tuple ops)" "quiet_function (\<lambda>_. raiseS Unmodelled)"
    by (auto simp: quiet_function_def intro: framed_av_make_tuple framed_intros)
  moreover have "quiet_function (call2S (\<lambda>i t. case i of
         Raw (KInt k) \<Rightarrow> av_get_tuple_element ops k t | _ \<Rightarrow> raiseS Unmodelled))"
    by (auto intro!: quiet_call2S intro: framed_intros framed_av_get_tuple_element split: obj.split kdata.split)
  ultimately show ?thesis by blast
qed

section \<open>Programs\<close>

definition quiet_env :: "fun_env \<Rightarrow> bool" where
  "quiet_env F \<longleftrightarrow> (\<forall>f g. F f = Some g \<longrightarrow> quiet_function g)"

lemma quiet_function_named: "quiet_env F \<Longrightarrow> function_named ops F name = Inr g \<Longrightarrow> quiet_function g"
  by (auto simp: function_named_def quiet_env_def dest: quiet_abstract_built_ins split: if_splits option.splits)

lemma quiet_results_upd: "quiet_results \<rho> \<Longrightarrow> quiet v \<Longrightarrow> quiet_results (\<rho>(x := Inr v))"
  by (auto simp: quiet_results_def)

lemma quiet_results_upds: "quiet_results \<rho> \<Longrightarrow> quiet_results vs \<Longrightarrow> quiet_results (upds \<rho> xs vs)"
proof (induction xs arbitrary: \<rho> vs)
  case (Cons x xs)
  have "quiet_results (\<rho>(x := vs 0))" using Cons.prems by (auto simp: quiet_results_def)
  moreover have "quiet_results (\<lambda>i. vs (Suc i))" using Cons.prems(2) by (auto simp: quiet_results_def)
  ultimately show ?case using Cons.IH by simp
qed simp

lemma framed_aeval: "quiet_env F \<Longrightarrow> quiet_results \<rho> \<Longrightarrow> framed quiet (aeval ops F \<rho> e)"
proof (induction e arbitrary: \<rho>)
  case (Const c)
  show ?case by (simp add: framed_retS)
next
  case (Var v)
  then show ?case by (auto simp: quiet_results_def intro: framed_liftS)
next
  case (Call f as t)
  have args: "framed (list_all quiet) (mapS (aeval ops F \<rho>) as)"
    by (rule framed_mapS) (use Call in blast)
  have call: "framed quiet (bindS (mapS (aeval ops F \<rho>) as) g)" if "quiet_function g" for g
    by (rule framed_bindS [OF args]) (use that in \<open>simp add: quiet_function_def\<close>)
  have named: "framed quiet_function (if name = ''tuple'' then retS (av_make_tuple ops)
      else liftS (function_named ops F (normalize_name name)))" for name
    by (auto simp: quiet_function_def intro!: framed_retS framed_liftS framed_av_make_tuple
        dest: quiet_function_named [OF Call.prems(1)])
  have get: "framed quiet (case as of [] \<Rightarrow> raiseS IndexError
      | a # _ \<Rightarrow> bindS (aeval ops F \<rho> a) (av_get_tuple_element ops i))" for i
    using Call by (cases as) (auto intro!: framed_intros framed_bindS [where P = quiet] framed_av_get_tuple_element)
  have "framed quiet (if starts_with ''get$'' name
      then bindS (liftS (tuple_index name)) (\<lambda>i. case as of [] \<Rightarrow> raiseS IndexError
             | a # _ \<Rightarrow> bindS (aeval ops F \<rho> a) (av_get_tuple_element ops i))
      else bindS (if name = ''tuple'' then retS (av_make_tuple ops)
             else liftS (function_named ops F (normalize_name name)))
           (\<lambda>g. bindS (mapS (aeval ops F \<rho>) as) g))" for name
    using framed_bindS [OF named call] framed_bindS_any [OF framed_liftS_any get]
    by (cases "starts_with ''get$'' name") (simp_all only: if_True if_False)
  then show ?case unfolding aeval.simps by (rule framed_bindS_any [OF framed_liftS_any])
next
  case (Lam x s b t)
  then have "quiet (Fun (\<lambda>a. aeval ops F (\<rho>(x := Inr (obj_of_arg a))) b))"
    unfolding quiet_Fun_iff using quiet_results_upd [OF Lam.prems(2) quiet_obj_of_arg] by blast
  then show ?case by (simp add: framed_retS)
next
  case (LetE vs r b t)
  have r: "framed quiet (aeval ops F \<rho> r)" using LetE by blast
  show ?case
  proof (cases vs)
    case (One x)
    have *: "framed quiet (aeval ops F (\<rho>(var_name x := Inr u)) b)" if "quiet u" for u
      using LetE.IH(2) [OF LetE.prems(1) quiet_results_upd [OF LetE.prems(2) that]] .
    have "framed quiet (av_let_one ops v (\<lambda>u. aeval ops F (\<rho>(var_name x := Inr u)) b))" if "quiet v" for v
      by (rule framed_av_let_one [OF _ that]) (rule *)
    with One show ?thesis by (simp add: framed_bindS [OF r])
  next
    case (Many xs)
    have *: "framed quiet (aeval ops F (upds \<rho> (map var_name xs) us) b)" if "quiet_results us" for us
      using LetE.IH(2) [OF LetE.prems(1) quiet_results_upds [OF LetE.prems(2) that]] .
    have "framed quiet (av_let_tupled ops (length xs) v (\<lambda>vs. aeval ops F (upds \<rho> (map var_name xs) vs) b))" for v
      by (rule framed_av_let_tupled) (rule *)
    with Many show ?thesis by (simp add: framed_bindS [OF r])
  qed
next
  case (IfE c t f u)
  then have "framed quiet (aeval ops F \<rho> c)" "framed quiet (aeval ops F \<rho> t)" "framed quiet (aeval ops F \<rho> f)"
    by blast+
  then show ?case by (auto intro!: framed_bindS [where P = quiet] framed_av_if_then_else)
next
  case (Assert c b t)
  show ?case by (simp add: framed_intros)
qed

lemma quiet_run_def: "quiet_env F \<Longrightarrow> quiet_function (run_def ops F d)"
proof -
  assume F: "quiet_env F"
  obtain xs body where d: "d = (xs, body)" by force
  have "framed quiet (run_def ops F d vs)" if "list_all quiet vs" for vs
  proof (cases "length vs = length xs")
    case True
    have "quiet_results (\<lambda>i. if i < length vs then Inr (vs ! i) else Inl NameError)"
      using that by (auto simp: quiet_results_def list_all_length)
    moreover have "quiet_results (\<lambda>_. Inl NameError)" by (simp add: quiet_results_def)
    ultimately have "quiet_results (upds (\<lambda>_. Inl NameError) xs (\<lambda>i. if i < length vs then Inr (vs ! i) else Inl NameError))"
      by (intro quiet_results_upds)
    from framed_aeval [OF F this] True d show ?thesis by (simp add: run_def_def)
  qed (simp add: d run_def_def framed_intros)
  then show ?thesis by (simp add: quiet_function_def)
qed

lemma quiet_run_defs_entry: "quiet_env F \<Longrightarrow> quiet_function (run_defs_entry ops F m name)"
  using quiet_run_def
  by (auto simp: quiet_function_def run_defs_entry_def intro: framed_intros split: option.split)

lemma framed_shape_and_cost:
  "quiet_function shape_def \<Longrightarrow> quiet_function cost_def \<Longrightarrow>
   framed (\<lambda>_. True) (shape_and_cost shape_def cost_def t as)"
  unfolding shape_and_cost_def quiet_function_def
  by (intro framed_bindS_any framed_intros framed_weaken [where P = quiet and Q = "\<lambda>_. True"] framed_retS)
    (auto simp: list_all_iff)

lemma quiet_get_edef:
  "quiet_function shape_def \<Longrightarrow> quiet_function cost_def \<Longrightarrow>
   quiet_function (get_edef ops name shape_def cost_def t)"
proof -
  assume q: "quiet_function shape_def" "quiet_function cost_def"
  have w: "framed (\<lambda>_. True) (with_context c (shape_and_cost shape_def cost_def t as))" for c as
    using framed_with_context [OF framed_shape_and_cost [OF q]] by (rule framed_weaken) simp
  show ?thesis
    unfolding quiet_function_def get_edef_def
    by (auto intro!: framed_bindS_any [OF framed_liftS_any] framed_bindS_any [OF w] framed_bindS_any framed_accumulate framed_lift_Abs)
qed

lemma quiet_run_edef: "quiet_env F \<Longrightarrow> quiet_function (run_edef ops F m py e)"
  by (cases e) (simp add: run_edef_def quiet_get_edef quiet_run_defs_entry)

lemma quiet_module_functions: "quiet_env (module_functions ops m n)"
proof (induction n)
  case 0
  show ?case by (auto simp: quiet_env_def quiet_function_def intro: framed_intros split: if_splits)
next
  case (Suc n)
  then show ?case
    by (auto simp: quiet_env_def intro: quiet_run_def quiet_run_edef split: option.splits)
qed

definition first_order :: "obj list \<Rightarrow> bool" where
  "first_order vs \<longleftrightarrow> list_all (\<lambda>v. \<forall>f. v \<noteq> Fun f) vs"

lemma first_order_quiet: "first_order vs \<Longrightarrow> list_all quiet vs"
proof -
  have "quiet v" if "\<forall>f. v \<noteq> Fun f" for v using that by (cases v) auto
  then show "first_order vs \<Longrightarrow> list_all quiet vs" by (auto simp: first_order_def list_all_iff)
qed

section \<open>Properties\<close>


text \<open>Floats without rounding, and a program: \<open>let a = 1 / x in a / (1 + a)\<close>, with its declarations.\<close>

definition exact :: "(rat \<Rightarrow> rat \<Rightarrow> rat) \<Rightarrow> pyfloat \<Rightarrow> pyfloat \<Rightarrow> pyfloat result" where
  "exact f a b = (case (a, b) of (Fin r, Fin s) \<Rightarrow> Inr (Fin (f r s)) | _ \<Rightarrow> Inl Unmodelled)"

definition exact_ops :: py_ops where
  "exact_ops = \<lparr>
     f_of_int = (\<lambda>i. Inr (Fin (rat_of_int i))), f_of_str = (\<lambda>_. Inl ValueError),
     f_add = exact (+), f_sub = exact (-), f_mul = exact (*), f_div = exact (/),
     f_div_ints = (\<lambda>i j. Inr (Fin (rat_of_int i / rat_of_int j))), f_floordiv = (\<lambda>_ _. Inl Unmodelled),
     f_pow = (\<lambda>_ _. Inl Unmodelled), f_log = (\<lambda>_. NaN)\<rparr>"

definition afe_module :: abs_module where
  "afe_module = \<lparr>
     mod_functions =
       [(''cost_div'', [''a'', ''b''], Const (CFloat (Fin 2))),
        (''shape_div'', [''a'', ''b''], Call (SName ''tuple'') [] None),
        (''cost_add'', [''a'', ''b''], Const (CFloat (Fin 1))),
        (''shape_add'', [''a'', ''b''], Call (SName ''tuple'') [] None),
        (''afe'', [''x''],
         LetE (One (MkVar ''a'' None)) (Call (SName ''div'') [Const (CFloat (Fin 1)), Var (MkVar ''x'' None)] None)
           (Call (SName ''div'') [Var (MkVar ''a'' None),
              Call (SName ''add'') [Const (CFloat (Fin 1)), Var (MkVar ''a'' None)] None] None) None)],
     mod_defs =
       [(''cost$div'', ''cost_div''), (''shape$div'', ''shape_div''), (''cost$add'', ''cost_add''),
        (''shape$add'', ''shape_add''), (''afe'', ''afe'')],
     mod_edefs = [(''div'', ''div'', Float), (''add'', ''add'', Float)]\<rparr>"

definition unknown_float :: "label \<Rightarrow> obj" where
  "unknown_float l = Abs \<lparr>av_shape = ScalarShape, av_type = Float, av_data = KNone, av_context = l\<rparr>"


text \<open>
  C32: A call of a declared function on values that are not concrete adds the declared cost, computed by
  its \<open>cost$\<close> function, to the label of its arguments and nothing else: the costs of computing the
  shape and the cost are not counted. Its value has the declared type and nothing is known of its data.
\<close>

theorem edef_charges_its_cost:
  assumes "quiet_function shape_def" "quiet_function cost_def"
    and "check_args_and_get_context Concrete args = Inr l" "l \<noteq> Concrete"
    and "get_edef ops name shape_def cost_def t args (c # cs) = (Inr v, st)"
  shows "\<exists>as shape cost d s.
    mapE (in_context Concrete) args = Inr as \<and>
    fst (shape_and_cost shape_def cost_def t as (new_context None # c # cs)) = Inr (shape, cost) \<and>
    known_data cost = Some d \<and> data_add ops (costs c l) d = Inr s \<and>
    st = c\<lparr>costs := (costs c)(l := s)\<rparr> # cs \<and>
    v = Abs \<lparr>av_shape = shape, av_type = t, av_data = KNone, av_context = l\<rparr>"
proof -
  from assms(3-5) obtain as where as: "mapE (in_context Concrete) args = Inr as"
    by (cases "mapE (in_context Concrete) args") (auto simp: get_edef_def bindS_def liftS_def)
  let ?m = "shape_and_cost shape_def cost_def t as"
  have restore: "snd (with_context (new_context None) ?m (c # cs)) = c # cs"
    by (rule with_context_restores [OF framed_shape_and_cost [OF assms(1,2)]])
  from assms(3-5) as obtain r where w: "with_context (new_context None) ?m (c # cs) = (Inr r, c # cs)"
    using restore
    by (cases "with_context (new_context None) ?m (c # cs)"; cases "fst (with_context (new_context None) ?m (c # cs))")
      (auto simp: get_edef_def bindS_def liftS_def)
  obtain shape cost c' where r: "r = ((shape, cost), c')" by (metis prod.exhaust)
  have sc: "fst (?m (new_context None # c # cs)) = Inr (shape, cost)"
    using w r by (cases "?m (new_context None # c # cs)"; cases "fst (?m (new_context None # c # cs))")
      (auto simp: with_context_def split: list.splits)
  have run: "(case accumulate_cost ops l cost (c # cs) of
      (Inl e, st') \<Rightarrow> (Inl e, st')
    | (Inr u, st') \<Rightarrow> (bindE (mk_aval shape t KNone l) (\<lambda>r. Inr (Abs r)), st')) = (Inr v, st)"
    using assms(3-5) as w r by (simp add: get_edef_def bindS_def liftS_def)
  then obtain d s where ds: "known_data cost = Some d" "data_add ops (costs c l) d = Inr s"
    "st = c\<lparr>costs := (costs c)(l := s)\<rparr> # cs" "bindE (mk_aval shape t KNone l) (\<lambda>r. Inr (Abs r)) = Inr v"
    by (auto simp: accumulate_cost_def split: option.splits if_splits sum.splits)
  then have "v = Abs \<lparr>av_shape = shape, av_type = t, av_data = KNone, av_context = l\<rparr>"
    by (auto simp: mk_aval_def bindE_eq_Inr)
  with as sc ds show ?thesis by blast
qed

definition constant_function :: "expr \<Rightarrow> obj list \<Rightarrow> obj exec" where
  "constant_function e = run_def exact_ops (\<lambda>_. None) ([''a''], e)"

fun abs_of :: "obj \<Rightarrow> aval option" where
  "abs_of (Abs a) = Some a"
| "abs_of _ = None"

theorem edef_charges_its_cost_witness:
  "\<exists>c st. get_edef exact_ops ''neg'' (constant_function (Call (SName ''tuple'') [] None))
     (constant_function (Const (CFloat (Fin 2)))) Float [unknown_float (InState 1)] [new_context None] =
       (Inr (unknown_float (InState 1)), [c]) \<and> costs c (InState 1) = DatFloat (Fin 2)"
proof -
  let ?s = "constant_function (Call (SName ''tuple'') [] None)"
  let ?k = "constant_function (Const (CFloat (Fin 2)))"
  let ?g = "get_edef exact_ops ''neg'' ?s ?k Float [unknown_float (InState 1)]"
  have q: "quiet_function (constant_function e)" for e
    unfolding constant_function_def by (rule quiet_run_def) (simp add: quiet_env_def)
  have ctx: "check_args_and_get_context Concrete [unknown_float (InState 1)] = Inr (InState 1)" by code_simp
  have "map_sum id abs_of (fst (?g [new_context None])) =
      Inr (Some \<lparr>av_shape = ScalarShape, av_type = Float, av_data = KNone, av_context = InState 1\<rparr>)" by code_simp
  then have val: "fst (?g [new_context None]) = Inr (unknown_float (InState 1))"
    by (cases "fst (?g [new_context None])") (auto simp: unknown_float_def elim: abs_of.elims)
  obtain st where g: "?g [new_context None] = (Inr (unknown_float (InState 1)), st)"
    using val by (metis prod.collapse)
  have as: "mapE (in_context Concrete) [unknown_float (InState 1)] =
      Inr [\<lparr>av_shape = ScalarShape, av_type = Float, av_data = KNone, av_context = Concrete\<rparr>]" by code_simp
  have sc: "fst (shape_and_cost ?s ?k Float [\<lparr>av_shape = ScalarShape, av_type = Float, av_data = KNone,
      av_context = Concrete\<rparr>] [new_context None, new_context None]) = Inr (ScalarShape, KFloat (Fin 2))"
    by code_simp
  from edef_charges_its_cost [OF q q ctx _ g] as sc obtain s where
    "data_add exact_ops (costs (new_context None) (InState 1)) (DatFloat (Fin 2)) = Inr s"
    "st = [(new_context None)\<lparr>costs := (costs (new_context None))(InState 1 := s)\<rparr>]"
    by auto
  then have "s = DatFloat (Fin 2)" and st: "st = [(new_context None)\<lparr>costs := (costs (new_context None))(InState 1 := s)\<rparr>]"
    by (simp_all add: new_context_def arith_def no_nd_def exact_ops_def exact_def to_float_def)
  with g show ?thesis by auto
qed

text \<open>
  C37: A \<open>let\<close> that takes a \<open>tuple\<close> apart never returns a value: \<open>make_tuple\<close> gives an abstract value, and
  \<open>body(*var)\<close> cannot iterate over one.
\<close>

lemma fst_bindS_Inr: "fst (bindS m k st) = Inr v \<longleftrightarrow> (\<exists>u st'. m st = (Inr u, st') \<and> fst (k u st') = Inr v)"
  by (auto simp: bindS_def split: prod.splits sum.splits)

lemma make_tuple_abs: "fst (av_make_tuple ops vs st) = Inr v \<Longrightarrow> \<exists>a. v = Abs a"
  by (auto simp: av_make_tuple_def fst_bindS_Inr liftS_def bindE_eq_Inr)


text \<open>
  C38: The cost of the body of a \<open>build\<close> is computed with the default configuration, and only its costs
  without a label are counted: where indexing costs 7, three times \<open>index\<close> in a \<open>build\<close> add 3 to the
  cost of the allocation, and they add nothing to any cost when the vector carries a label.
\<close>

definition copy_vec :: expr where
  "copy_vec = Call (SName ''build'') [Const (CInt 3),
     Lam ''i'' Integer (Call (SName ''index'') [Var (MkVar ''i'' None), Var (MkVar ''v'' None)] None) None] None"

definition vec3 :: "label \<Rightarrow> obj" where
  "vec3 l = Abs \<lparr>av_shape = TensorShape (KTuple [KInt 3]) ScalarShape, av_type = Tensor 1 Float, av_data = KNone, av_context = l\<rparr>"

definition costly_index :: execution_context where
  "costly_index = new_context (Some (get_default_cost_config\<lparr>index_cost := DatInt 7\<rparr>))"

definition costs_after :: "label \<Rightarrow> expr \<Rightarrow> data \<times> data" where
  "costs_after l e =
     (let c = hd (snd (aeval exact_ops (\<lambda>_. None) (\<lambda>_. Inr (vec3 l)) e [costly_index])) in (costs c NoContext, costs c l))"


end
