(* ===== verification/AbstractTyping.thy ===== *)
theory AbstractTyping
  imports AbstractLaws TypePropagate
begin

text \<open>
  Abstract execution and type propagation agree: an expression whose type is inferred by
  \<open>type_propagate\<close> has, when it is run on abstract values of the right types, a value of that type, with a
  shape of that type. What this needs is collected in \<open>runnable\<close> and \<open>functions_typed\<close>.
\<close>

section \<open>Objects of a type\<close>

text \<open>The type of data is unique where the code can find one.\<close>

lemma data_type_unique:
  "data_of_type d t \<Longrightarrow> shape_type_from_data d = Inr st \<Longrightarrow> st_type st = t"
proof (induction d arbitrary: t st)
  case (KTuple ds)
  then obtain els where els: "mapE shape_type_from_data ds = Inr els" "st_type st = Tuple (map st_type els)" by auto
  from KTuple.prems obtain ts where ts: "t = Tuple ts" "list_all2 data_of_type ds ts" by auto
  have "map st_type els = ts"
  proof (rule nth_equalityI)
    show "length (map st_type els) = length ts" using els(1) ts(2) by (simp add: mapE_length list_all2_lengthD)
    fix i
    assume "i < length (map st_type els)"
    then have i: "i < length ds" using els(1) by (simp add: mapE_length)
    with KTuple.IH [OF nth_mem [OF i] list_all2_nthD [OF ts(2) i] mapE_nth [OF els(1) i]]
    show "map st_type els ! i = ts ! i" using els(1) by (simp add: mapE_length)
  qed
  with els ts show ?case by simp
next
  case (KList ds)
  then obtain u where u: "t = Tensor 1 u" "\<forall>d \<in> set ds. data_of_type d u" by auto
  from KList.prems obtain d ds' el where d: "ds = d # ds'" "shape_type_from_data d = Inr el" "st_type st = Tensor 1 (st_type el)"
    by (cases ds) (auto simp: make_TensorShape_def make_dims_def)
  with KList.IH [of d u el] u show ?case by simp
next
  case (KNd sh ds)
  then show ?case by (cases ds; cases "hd ds") auto
qed auto

definition first_of_type :: "obj \<Rightarrow> ty \<Rightarrow> bool" where
  "first_of_type v t \<longleftrightarrow>
     (case v of
        Raw d \<Rightarrow> data_of_type d t
      | Abs a \<Rightarrow> av_type a = t \<and> shape_of_type (av_shape a) t \<and> data_of_type (av_data a) t
      | Fun f \<Rightarrow> False)"

text \<open>
  The size that is assumed for an unknown dimension is an integer, in every context. A typed computation
  keeps it so and returns values that satisfy a predicate.
\<close>

definition int_sizes :: "contexts \<Rightarrow> bool" where
  "int_sizes st \<longleftrightarrow> (\<forall>c \<in> set st. \<exists>i. assumed_vector_size (config c) = DatInt i)"

fun obj_of_type :: "obj \<Rightarrow> ty \<Rightarrow> bool" where
  "obj_of_type v (LamT s u) \<longleftrightarrow>
     (case v of
        Fun f \<Rightarrow> \<forall>a st. first_of_type (obj_of_arg a) s \<longrightarrow> int_sizes st \<longrightarrow>
          int_sizes (snd (f a st)) \<and> (\<forall>w. fst (f a st) = Inr w \<longrightarrow> obj_of_type w u)
      | _ \<Rightarrow> first_of_type v (LamT s u))"
| "obj_of_type v t \<longleftrightarrow> first_of_type v t"

definition texec :: "('a \<Rightarrow> bool) \<Rightarrow> 'a exec \<Rightarrow> bool" where
  "texec P m \<longleftrightarrow> (\<forall>st. int_sizes st \<longrightarrow> int_sizes (snd (m st)) \<and> (\<forall>v. fst (m st) = Inr v \<longrightarrow> P v))"

abbreviation typed_exec :: "ty \<Rightarrow> obj exec \<Rightarrow> bool" where
  "typed_exec t \<equiv> texec (\<lambda>v. obj_of_type v t)"

lemma obj_of_type_Fun: "obj_of_type (Fun f) (LamT s u) \<longleftrightarrow> (\<forall>a. first_of_type (obj_of_arg a) s \<longrightarrow> typed_exec u (f a))"
  by (auto simp: texec_def)

lemma obj_of_type_first: "first_of_type v t \<Longrightarrow> obj_of_type v t"
  by (cases t; cases v) (auto simp: first_of_type_def)

lemma obj_of_type_Abs [simp]: "obj_of_type (Abs a) t \<longleftrightarrow> first_of_type (Abs a) t"
  by (cases t) auto

lemma obj_of_type_Raw [simp]: "obj_of_type (Raw d) t \<longleftrightarrow> data_of_type d t"
  by (cases t) (auto simp: first_of_type_def)

lemma first_of_type_simps [simp]:
  "first_of_type (Raw d) t \<longleftrightarrow> data_of_type d t"
  "first_of_type (Abs a) t \<longleftrightarrow> av_type a = t \<and> shape_of_type (av_shape a) t \<and> data_of_type (av_data a) t"
  "\<not> first_of_type (Fun f) t"
  by (auto simp: first_of_type_def)

section \<open>Typed computations\<close>

named_theorems texec_intros \<open>computations of which no value is claimed\<close>

lemma texec_framed: "framed P m \<Longrightarrow> texec P m"
proof -
  assume m: "framed P m"
  have "int_sizes st'" if "same_frame st st'" "int_sizes st" for st st'
    using that by (cases st) (auto simp: int_sizes_def)
  with m show ?thesis unfolding texec_def framed_def by blast
qed

lemma texec_weaken: "texec P m \<Longrightarrow> (\<And>v. P v \<Longrightarrow> Q v) \<Longrightarrow> texec Q m"
  by (auto simp: texec_def)

lemma texec_retS: "P v \<Longrightarrow> texec P (retS v)"
  by (simp add: texec_framed framed_retS)

lemma texec_liftS: "(\<And>v. r = Inr v \<Longrightarrow> P v) \<Longrightarrow> texec P (liftS r)"
  by (simp add: texec_framed framed_liftS)

lemma texec_raiseS [texec_intros]: "texec P (raiseS e)"
  by (rule texec_liftS) simp

lemma texec_bindS:
  assumes "texec P m" "\<And>v. P v \<Longrightarrow> texec Q (k v)"
  shows "texec Q (bindS m k)"
  unfolding texec_def
proof (intro allI impI)
  fix st
  assume st: "int_sizes st"
  obtain r st' where m: "m st = (r, st')" by force
  with assms(1) st have st': "int_sizes st'" "\<And>v. r = Inr v \<Longrightarrow> P v" by (auto simp: texec_def)
  show "int_sizes (snd (bindS m k st)) \<and> (\<forall>w. fst (bindS m k st) = Inr w \<longrightarrow> Q w)"
  proof (cases r)
    case (Inr v)
    with st' assms(2) have "texec Q (k v)" by blast
    with st'(1) m Inr show ?thesis by (simp add: texec_def bindS_def)
  qed (use m st'(1) in \<open>simp add: bindS_def\<close>)
qed

lemma texec_bindS_lift: "(\<And>v. r = Inr v \<Longrightarrow> texec Q (k v)) \<Longrightarrow> texec Q (bindS (liftS r) k)"
  by (rule texec_bindS [where P = "\<lambda>v. r = Inr v"]) (auto intro: texec_liftS)

lemma texec_bindS_current:
  "(\<And>c i. assumed_vector_size (config c) = DatInt i \<Longrightarrow> texec Q (k c)) \<Longrightarrow> texec Q (bindS current_execution_context k)"
  by (rule texec_bindS [where P = "\<lambda>c. \<exists>i. assumed_vector_size (config c) = DatInt i"])
    (auto simp: texec_def int_sizes_def current_execution_context_def split: list.splits)

lemma texec_bindS_framed: "framed (\<lambda>_. True) m \<Longrightarrow> (\<And>v. texec Q (k v)) \<Longrightarrow> texec Q (bindS m k)"
  by (rule texec_bindS [OF texec_framed])

lemma int_sizes_new_context [simp]: "int_sizes (new_context None # st) \<longleftrightarrow> int_sizes st"
  by (auto simp: int_sizes_def new_context_def get_default_cost_config_def)

lemma texec_new_context: "texec P m \<Longrightarrow> texec (\<lambda>(v, c). P v) (with_context (new_context None) m)"
  unfolding texec_def
proof (intro allI impI)
  fix st
  assume m: "\<forall>st. int_sizes st \<longrightarrow> int_sizes (snd (m st)) \<and> (\<forall>v. fst (m st) = Inr v \<longrightarrow> P v)" and "int_sizes st"
  then have "int_sizes (new_context None # st)" by simp
  with m have "int_sizes (snd (m (new_context None # st)))" "\<forall>v. fst (m (new_context None # st)) = Inr v \<longrightarrow> P v"
    by blast+
  then show "int_sizes (snd (with_context (new_context None) m st)) \<and>
      (\<forall>v. fst (with_context (new_context None) m st) = Inr v \<longrightarrow> (case v of (v, c) \<Rightarrow> P v))"
    by (auto simp: with_context_def int_sizes_def split: prod.splits sum.splits list.splits)
qed

lemma texec_compute_branch_cost:
  "texec P m \<Longrightarrow> texec (\<lambda>(v, c). P v) (compute_branch_cost m)"
  unfolding compute_branch_cost_def
  by (rule texec_bindS [OF texec_new_context]) (auto intro: texec_retS)

lemma texec_mapS: "list_all2 (\<lambda>P m. texec P m) Ps (map f xs) \<Longrightarrow> texec (\<lambda>vs. list_all2 (\<lambda>P v. P v) Ps vs) (mapS f xs)"
proof (induction xs arbitrary: Ps)
  case (Cons x xs)
  then obtain P Ps' where Ps: "Ps = P # Ps'" "texec P (f x)" "list_all2 (\<lambda>P m. texec P m) Ps' (map f xs)"
    by (auto simp: list_all2_Cons2)
  from Cons.IH [OF Ps(3)] show ?case
    by (auto simp: Ps(1) intro!: texec_bindS [OF Ps(2)] texec_bindS [where P = "\<lambda>vs. list_all2 (\<lambda>P v. P v) Ps' vs"] texec_retS)
qed (simp add: texec_retS)

section \<open>Constructors and conversions\<close>

lemma mk_aval_Inr: "mk_aval s t d c = Inr a \<Longrightarrow> a = \<lparr>av_shape = s, av_type = t, av_data = d, av_context = c\<rparr>"
  by (auto simp: mk_aval_def)

lemma cleanup_value_typed: "cleanup_value d = Inr d' \<Longrightarrow> data_of_type d t \<Longrightarrow> data_of_type d' t"
proof (induction d arbitrary: d' t)
  case (KTuple ds)
  then obtain ds' where ds': "mapE cleanup_value ds = Inr ds'" "d' = KTuple ds'" by auto
  from KTuple.prems obtain ts where ts: "t = Tuple ts" "list_all2 data_of_type ds ts" by auto
  have "list_all2 data_of_type ds' ts"
    unfolding list_all2_conv_all_nth
  proof (intro conjI allI impI)
    show "length ds' = length ts" using ds'(1) ts(2) by (simp add: mapE_length list_all2_lengthD)
    fix i
    assume "i < length ds'"
    then have i: "i < length ds" using ds'(1) by (simp add: mapE_length)
    show "data_of_type (ds' ! i) (ts ! i)"
      using KTuple.IH [OF nth_mem [OF i] mapE_nth [OF ds'(1) i] list_all2_nthD [OF ts(2) i]] .
  qed
  with ds'(2) ts(1) show ?case by simp
qed (auto split: if_splits)

lemma from_data_typed:
  assumes "from_data d c = Inr a"
  shows "first_of_type (Abs a) (av_type a)" "data_of_type d t \<Longrightarrow> av_type a = t" "data_of_type d (av_type a)"
proof -
  from assms obtain st d' where st: "shape_type_from_data d = Inr st" "cleanup_value d = Inr d'"
    "a = \<lparr>av_shape = st_shape st, av_type = st_type st, av_data = d', av_context = c\<rparr>"
    by (auto simp: from_data_def dest: mk_aval_Inr)
  with shape_type_from_data_ok [OF st(1)] cleanup_value_typed [OF st(2)]
  show "first_of_type (Abs a) (av_type a)" "data_of_type d (av_type a)" by auto
  show "data_of_type d t \<Longrightarrow> av_type a = t" using data_type_unique st by auto
qed

lemma abstract_like_typed: "obj_of_type v t \<Longrightarrow> abstract_like v = Inr a \<Longrightarrow> first_of_type (Abs a) t"
proof (cases v)
  case (Raw d)
  assume "obj_of_type v t" "abstract_like v = Inr a"
  with Raw obtain st where "shape_type_from_data d = Inr st" "data_of_type d t"
    "a = \<lparr>av_shape = st_shape st, av_type = st_type st, av_data = KNone, av_context = NoContext\<rparr>"
    by (auto dest: mk_aval_Inr)
  with data_type_unique [of d t st] shape_type_from_data_ok [of d st] show ?thesis by auto
qed (auto dest: mk_aval_Inr)

declare obj_of_type.simps [simp del]

section \<open>The functions of the backend\<close>

lemma texec_lift_aval: "(\<And>a. r = Inr a \<Longrightarrow> first_of_type (Abs a) t) \<Longrightarrow> typed_exec t (liftS (bindE r (\<lambda>a. Inr (Abs a))))"
  by (rule texec_liftS) auto

lemma obj_of_type_TensorE:
  assumes "obj_of_type v t" "shape_type_of v = Inr st" "is_tensor (st_type st)"
  obtains a "is" s r u where "v = Abs a" "t = Tensor r u" "av_type a = t" "av_shape a = TensorShape (KTuple (map KInt is)) s"
    "int (length is) = r" "shape_of_type s u"
  using assms
  by (cases v; cases t; cases "av_shape (case v of Abs a \<Rightarrow> a)") auto

lemma typed_av_index:
  assumes v: "obj_of_type v t" and t: "\<And>r e. t = Tensor r e \<Longrightarrow> e = u"
  shows "typed_exec u (av_index ops i v)"
  unfolding av_index_def
proof (intro texec_bindS_lift)
  fix st x
  assume st: "shape_type_of v = Inr st" "assertE (is_tensor (st_type st)) = Inr x"
  then have "is_tensor (st_type st)" by simp
  from obj_of_type_TensorE [OF v st(1) this] obtain a "is" s r e where a: "v = Abs a" "t = Tensor r e"
    "av_type a = t" "av_shape a = TensorShape (KTuple (map KInt is)) s" "shape_of_type s e" by metis
  with t have "e = u" by blast
  with a show "typed_exec u (bindS current_execution_context (\<lambda>ctx. case v of
      Abs a \<Rightarrow> bindS (charge ops (av_context a) (Inr (index_cost (config ctx)))) (\<lambda>_.
        liftS (case av_shape a of
            TensorShape dims elem_shape \<Rightarrow>
              bindE (tensor_elem_type (av_type a)) (\<lambda>t. bindE (mk_aval elem_shape t KNone (av_context a)) (\<lambda>r. Inr (Abs r)))
          | ShTuple _ \<Rightarrow> Inl AttributeError))
    | _ \<Rightarrow> raiseS AttributeError))"
    by (auto intro!: texec_bindS_framed framed_intros texec_lift_aval dest!: mk_aval_Inr)
qed

lemma size_data_typed:
  assumes "int (length is) = r"
    and "(if length is = 1 then first_item (KTuple (map KInt is)) else Inr (KTuple (map KInt is))) = Inr d"
  shows "data_of_type d (SizeType_from_rank r)"
proof (cases "length is = 1")
  case True
  then obtain i where "is = [i]" by (cases "is") auto
  with assms show ?thesis by (auto simp: py_index_def SizeType_from_rank_def)
next
  case False
  with assms show ?thesis
    by (auto simp: SizeType_from_rank_def list_all2_conv_all_nth)
qed

lemma typed_av_size:
  assumes v: "obj_of_type v t" and t: "\<And>r e. t = Tensor r e \<Longrightarrow> SizeType_from_rank r = u"
  shows "typed_exec u (av_size ops v)"
  unfolding av_size_def
proof (intro texec_bindS_lift)
  fix st x
  assume st: "shape_type_of v = Inr st" "assertE (is_tensor (st_type st)) = Inr x"
  then have "is_tensor (st_type st)" by simp
  from obj_of_type_TensorE [OF v st(1) this] obtain a "is" s r e where a: "v = Abs a" "t = Tensor r e"
    "av_type a = t" "av_shape a = TensorShape (KTuple (map KInt is)) s" "int (length is) = r" by metis
  with t have u: "SizeType_from_rank r = u" by blast
  have "first_of_type (Abs b) u"
    if "bindE (if length is = 1 then first_item (KTuple (map KInt is)) else Inr (KTuple (map KInt is)))
        (\<lambda>d. from_data d c) = Inr b" for b c
  proof -
    from that obtain d where d: "from_data d c = Inr b" "data_of_type d u"
      using size_data_typed [OF a(5)] u by (auto simp: bindE_eq_Inr)
    with from_data_typed [OF d(1)] show ?thesis by metis
  qed
  then have lift: "typed_exec u (liftS (bindE (if int (length is) = 1 then first_item (KTuple (map KInt is)) else Inr (KTuple (map KInt is)))
      (\<lambda>d. bindE (from_data d c) (\<lambda>r. Inr (Abs r)))))" for c
    using texec_lift_aval [of "bindE (if length is = 1 then first_item (KTuple (map KInt is)) else Inr (KTuple (map KInt is)))
      (\<lambda>d. from_data d c)" u]
    by (simp add: bindE_assoc)
  show "typed_exec u (bindS current_execution_context (\<lambda>ctx. case v of
      Abs a \<Rightarrow> bindS (charge ops (av_context a) (Inr (size_cost (config ctx)))) (\<lambda>_.
        liftS (case av_shape a of
            TensorShape dims elem_shape \<Rightarrow>
              bindE (kdata_len dims) (\<lambda>n. bindE (if n = 1 then first_item dims else Inr dims) (\<lambda>d.
              bindE (from_data d (av_context a)) (\<lambda>r. Inr (Abs r))))
          | ShTuple _ \<Rightarrow> Inl AttributeError))
    | _ \<Rightarrow> raiseS AttributeError))"
    unfolding a(1) obj.case a(4) shape.case kdata_len_def kdata.case bindE_simps length_map
    by (intro texec_bindS_framed framed_intros lift)
qed

text \<open>The body of a \<open>build\<close> whose size is an integer runs on an integer index.\<close>

lemma typed_build_inner:
  assumes sz: "obj_of_type sz Integer" and f: "\<And>g. f = Fun g \<Longrightarrow> obj_of_type f (LamT Integer u)"
  shows "texec (\<lambda>(dims, _, el, _). (\<exists>i. dims = [KInt i]) \<and> obj_of_type el u) (compute_build_inner_cost sz f)"
proof -
  have call: "typed_exec u (call_obj f (ArgAbs \<lparr>av_shape = ScalarShape, av_type = Integer, av_data = KNone, av_context = NoContext\<rparr>))"
  proof (cases f)
    case (Fun g)
    from f [OF Fun, unfolded Fun obj_of_type_Fun] show ?thesis by (simp add: call_obj_def Fun)
  qed (simp_all add: call_obj_def texec_raiseS)
  have run: "texec (\<lambda>(dims, _, el, _). (\<exists>i. dims = [KInt i]) \<and> obj_of_type el u)
      (bindS (liftS (make_dims (KInt k))) (\<lambda>dims. bindS (liftS (numpy_prod dims)) (\<lambda>nelem.
       bindS (liftS (mk_aval (of_Index_of_Tensor_of_rank (length dims)) (SizeType_from_rank (int (length dims))) KNone NoContext)) (\<lambda>i.
       bindS (compute_branch_cost (call_obj f (ArgAbs i))) (\<lambda>(el, cost). retS (dims, nelem, el, cost))))))" for k
    by (intro texec_bindS_lift)
      (auto simp: make_dims_def of_Index_of_Tensor_of_rank_def SizeType_from_rank_def dest!: mk_aval_Inr
        intro!: texec_bindS [OF texec_compute_branch_cost [OF call]] texec_retS)
  then have run': "\<exists>k. d = KInt k \<Longrightarrow> texec (\<lambda>(dims, _, el, _). (\<exists>i. dims = [KInt i]) \<and> obj_of_type el u)
      (bindS (liftS (make_dims d)) (\<lambda>dims. bindS (liftS (numpy_prod dims)) (\<lambda>nelem.
       bindS (liftS (mk_aval (of_Index_of_Tensor_of_rank (length dims)) (SizeType_from_rank (int (length dims))) KNone NoContext)) (\<lambda>i.
       bindS (compute_branch_cost (call_obj f (ArgAbs i))) (\<lambda>(el, cost). retS (dims, nelem, el, cost))))))" for d
    by (elim exE, hypsubst) (rule run)
  show ?thesis
    unfolding compute_build_inner_cost_def
  proof (rule texec_bindS_lift)
    fix d
    assume d: "get_data sz = Inr d"
    have "data_of_type d Integer" using d sz by (cases sz) auto
    then have sz: "texec (\<lambda>d. \<exists>k. d = KInt k)
        (if d = KNone then bindS current_execution_context (\<lambda>ctx. retS (kdata_of (assumed_vector_size (config ctx)))) else retS d)"
      by (cases d) (auto intro!: texec_bindS_current texec_retS)
    show "texec (\<lambda>(dims, _, el, _). (\<exists>i. dims = [KInt i]) \<and> obj_of_type el u)
      (bindS (if d = KNone then bindS current_execution_context (\<lambda>ctx. retS (kdata_of (assumed_vector_size (config ctx)))) else retS d) (\<lambda>d.
       bindS (liftS (make_dims d)) (\<lambda>dims. bindS (liftS (numpy_prod dims)) (\<lambda>nelem.
       bindS (liftS (mk_aval (of_Index_of_Tensor_of_rank (length dims)) (SizeType_from_rank (int (length dims))) KNone NoContext)) (\<lambda>i.
       bindS (compute_branch_cost (call_obj f (ArgAbs i))) (\<lambda>(el, cost). retS (dims, nelem, el, cost)))))))"
      by (rule texec_bindS [OF sz run'])
  qed
qed

lemma shape_type_of_typed:
  "obj_of_type v t \<Longrightarrow> shape_type_of v = Inr st \<Longrightarrow> st_type st = t \<and> shape_of_type (st_shape st) t"
  by (cases v) auto

lemma get_data_typed: "obj_of_type v t \<Longrightarrow> get_data v = Inr d \<Longrightarrow> data_of_type d t"
  by (cases v) auto

lemma typed_av_build:
  assumes "obj_of_type sz Integer" "\<And>g. f = Fun g \<Longrightarrow> obj_of_type f (LamT Integer u)"
  shows "typed_exec (Tensor 1 u) (av_build ops sz f)"
proof -
  have result: "first_of_type (Abs a) (Tensor 1 u)"
    if "obj_of_type el u" "shape_type_of el = Inr st"
      "mk_aval (TensorShape (KTuple [KInt i]) (st_shape st)) (Tensor (int (length [KInt i])) (st_type st)) KNone l = Inr a" for a el st i l
  proof -
    have dims: "\<exists>is. [KInt i] = map KInt is \<and> int (length is) = 1" by (rule exI [of _ "[i]"]) simp
    have "a = \<lparr>av_shape = TensorShape (KTuple [KInt i]) (st_shape st), av_type = Tensor 1 u, av_data = KNone, av_context = l\<rparr>"
      using mk_aval_Inr [OF that(3)] shape_type_of_typed [OF that(1,2)] by simp
    with dims shape_type_of_typed [OF that(1,2)] show ?thesis by (simp del: of_nat_eq_1_iff)
  qed
  have inner: "texec (\<lambda>(dims, _, el, _). (\<exists>i. dims = [KInt i]) \<and> obj_of_type el u) (compute_build_inner_cost sz f)"
    by (rule typed_build_inner [OF assms(1)]) (rule assms(2))
  show ?thesis
    unfolding av_build_def using result
    by (auto intro!: texec_bindS_lift texec_bindS [OF inner] texec_bindS_framed framed_intros texec_lift_aval
        simp del: first_of_type_simps)
qed

lemma typed_av_sumbuild:
  assumes "obj_of_type sz Integer" "\<And>g. f = Fun g \<Longrightarrow> obj_of_type f (LamT Integer u)"
  shows "typed_exec u (av_sumbuild ops sz f)"
proof -
  have result: "first_of_type (Abs a) u"
    if "obj_of_type el u" "shape_type_of el = Inr st" "mk_aval (st_shape st) (st_type st) KNone l = Inr a" for a el st l
    using that shape_type_of_typed [OF that(1,2)] by (auto dest!: mk_aval_Inr)
  have inner: "texec (\<lambda>(dims, _, el, _). (\<exists>i. dims = [KInt i]) \<and> obj_of_type el u) (compute_build_inner_cost sz f)"
    by (rule typed_build_inner [OF assms(1)]) (rule assms(2))
  show ?thesis
    unfolding av_sumbuild_def using result
    by (auto intro!: texec_bindS_lift texec_bindS [OF inner] texec_bindS_framed framed_intros texec_lift_aval
        simp del: first_of_type_simps)
qed

lemma typed_av_make_tuple:
  assumes "list_all2 obj_of_type vs ts"
  shows "typed_exec (Tuple ts) (av_make_tuple ops vs)"
proof -
  have "first_of_type (Abs a) (Tuple ts)"
    if "mapE shape_type_of vs = Inr sts" "mapE get_data vs = Inr ds"
      "mk_aval (ShTuple (map st_shape sts)) (Tuple (map st_type sts)) (KTuple ds) l = Inr a" for sts ds l a
  proof -
    have len: "length sts = length ts" "length ds = length ts" "length vs = length ts"
      using that assms by (simp_all add: mapE_length list_all2_lengthD)
    have nth: "st_type (sts ! i) = ts ! i \<and> shape_of_type (st_shape (sts ! i)) (ts ! i) \<and> data_of_type (ds ! i) (ts ! i)"
      if "i < length ts" for i
    proof -
      have i: "shape_type_of (vs ! i) = Inr (sts ! i)" "get_data (vs ! i) = Inr (ds ! i)" "obj_of_type (vs ! i) (ts ! i)"
        using that len assms \<open>mapE shape_type_of vs = Inr sts\<close> \<open>mapE get_data vs = Inr ds\<close>
        by (auto intro: mapE_nth simp: list_all2_conv_all_nth)
      then show ?thesis using shape_type_of_typed get_data_typed by blast
    qed
    then have "map st_type sts = ts" using len by (intro nth_equalityI) auto
    with nth len mk_aval_Inr [OF that(3)] show ?thesis by (auto simp: list_all2_conv_all_nth)
  qed
  then show ?thesis
    unfolding av_make_tuple_def
    by (auto intro!: texec_bindS_lift texec_bindS_framed framed_intros texec_lift_aval simp del: first_of_type_simps)
qed

lemma py_index_list_all2:
  "list_all2 P xs ys \<Longrightarrow> py_index xs i = Inr x \<Longrightarrow> py_index ys i = Inr y \<Longrightarrow> P x y"
  by (auto simp: py_index_def list_all2_conv_all_nth split: if_splits)

lemma typed_av_get_tuple_element:
  assumes "obj_of_type v (Tuple ts)" "py_index ts i = Inr t"
  shows "typed_exec t (av_get_tuple_element ops i v)"
proof (cases v)
  case (Abs a)
  with assms(1) obtain ss where ss: "av_shape a = ShTuple ss" "list_all2 shape_of_type ss ts" "av_type a = Tuple ts"
    "data_of_type (av_data a) (Tuple ts)" by (cases "av_shape a") auto
  have d: "data_of_type d t"
    if "(case av_data a of KTuple ds \<Rightarrow> py_index ds i | _ \<Rightarrow> Inr KNone) = Inr d" for d
    using that ss(4) assms(2) py_index_list_all2 by (cases "av_data a") auto
  show ?thesis
    unfolding av_get_tuple_element_def Abs using ss assms(2) d
    by (auto intro!: texec_bindS_lift texec_bindS_framed framed_intros texec_lift_aval
        simp: child_shape_def child_type_def dest!: mk_aval_Inr dest: py_index_list_all2)
qed (auto simp: av_get_tuple_element_def intro!: texec_bindS_lift)

section \<open>Calls\<close>

abbreviation typed_opt :: "ty option \<Rightarrow> obj exec \<Rightarrow> bool" where
  "typed_opt ot \<equiv> texec (\<lambda>v. \<forall>t. ot = Some t \<longrightarrow> obj_of_type v t)"

text \<open>The type \<open>type_propagate\<close> gives to a call, from the table of primitives or the symbol table.\<close>

definition call_type :: "symtab \<Rightarrow> sname \<Rightarrow> ty \<Rightarrow> ty option \<Rightarrow> bool" where
  "call_type st f a ot \<longleftrightarrow>
     (ot \<noteq> None \<and> prim_lookup f a = Inr ot) \<or>
     (prim_lookup f a = Inr None \<and> (\<exists>f'. add_type_to_sname f (Some a) = Inr f' \<and> st (KName f') = Some ot))"

definition core_names :: "string list" where
  "core_names = [''build'', ''sumbuild'', ''size'', ''index'', ''fold'']"

text \<open>
  What is asked of the functions a program may call: on values of the types of the arguments, the
  result has the type of the call. It is asked of the functions of the program and of the built-in
  functions that are no primitives.
\<close>

definition functions_typed :: "py_ops \<Rightarrow> symtab \<Rightarrow> fun_env \<Rightarrow> bool" where
  "functions_typed ops st F \<longleftrightarrow>
     (\<forall>f ts ot g vs. get_type f = None \<longrightarrow> call_type st f (make_tuple_if_many ts) ot \<longrightarrow>
        (F (normalize_name (mangle_without_type f)) = Some g \<or>
         F (normalize_name (mangle_without_type f)) = None \<and> normalize_name (mangle_without_type f) \<notin> set core_names \<and>
         map_of (abstract_built_ins ops) (normalize_name (mangle_without_type f)) = Some g) \<longrightarrow>
        list_all2 obj_of_type vs ts \<longrightarrow> typed_opt ot (g vs))"

lemma make_tuple_opt_Inr:
  "make_tuple_opt ots = Inr (Some a) \<Longrightarrow> \<exists>ts. ots = map Some ts \<and> a = make_tuple_if_many ts"
proof (cases "\<exists>o1. ots = [o1]")
  case True
  assume "make_tuple_opt ots = Inr (Some a)"
  with True show ?thesis by (auto simp: make_tuple_opt_def make_tuple_if_many_def intro: exI [of _ "[a]"])
next
  case False
  assume "make_tuple_opt ots = Inr (Some a)"
  with False obtain us where us: "mapE (\<lambda>t. case t of Some u \<Rightarrow> Inr u | None \<Rightarrow> Inl AssertionError) ots = Inr us" "a = Tuple us"
    by (cases ots; cases "tl ots") (auto simp: make_tuple_opt_def bindE_eq_Inr)
  from us(1) have "ots = map Some us"
    by (induction ots arbitrary: us) (auto simp: bindE_eq_Inr split: option.splits)
  moreover have "length us \<noteq> 1" using False calculation by (auto simp: length_Suc_conv)
  ultimately show ?thesis using us(2) by (auto simp: make_tuple_if_many_def)
qed

lemma mangled_untyped: "get_type f = None \<Longrightarrow> mangled f = Inr (mangle_without_type f)"
  by (induction f) auto

lemma replace_char_id: "CHR ''_'' \<notin> set (replace_char (CHR ''$'') ''_'' s) \<Longrightarrow> replace_char (CHR ''$'') ''_'' s = s"
  by (induction s) (auto split: if_splits)

lemma core_name_normalized:
  assumes "normalize_name n \<in> set core_names"
  shows "n \<in> set core_names" "normalize_name n = n"
proof -
  have "normalize_name n = n"
  proof (cases "map_of specialized_functions n")
    case (Some s)
    then have "s \<in> snd ` set specialized_functions" by (force dest: map_of_SomeD)
    then have "s \<in> {''to_float_i'', ''div_ii'', ''div_ff''}" by (auto simp: specialized_functions_def)
    with Some assms show ?thesis by (auto simp: normalize_name_def core_names_def)
  next
    case None
    show ?thesis
    proof (rule ccontr)
      assume ne: "normalize_name n \<noteq> n"
      then have "\<not> (n \<in> set built_in_names \<or> starts_with ''get$'' n)" by (auto simp: normalize_name_def None)
      with ne assms None show False
        using replace_char_id [of n]
        by (cases "n \<in> set [''or'', ''and'', ''max'', ''abs'', ''assert'']")
          (auto simp: normalize_name_def core_names_def)
    qed
  qed
  with assms show "n \<in> set core_names" "normalize_name n = n" by simp_all
qed

lemma core_starts: "n \<in> set core_names \<Longrightarrow> \<not> starts_with ''get$'' n \<and> n \<noteq> ''tuple'' \<and> n \<noteq> ''Vec_init''"
  by (auto simp: core_names_def starts_with_def)

lemma prim_lookup_core:
  "mangle_without_type f \<in> set core_names \<Longrightarrow>
   prim_lookup f a = prim_by_count (mangle_without_type f) (arg_list a)"
  using core_starts [of "mangle_without_type f"]
  by (auto simp: prim_lookup_def get_indices_def Let_def)

text \<open>The primitives of the backend give values of the types in the table of primitives.\<close>

lemma typed_two_args:
  assumes "list_all2 obj_of_type vs ts" "\<And>a b s t. vs = [a, b] \<Longrightarrow> ts = [s, t] \<Longrightarrow> obj_of_type a s \<Longrightarrow> obj_of_type b t \<Longrightarrow> texec P (f a b)"
  shows "texec P (call2S f vs)"
proof (cases "length vs = 2")
  case True
  then obtain a b where "vs = [a, b]" by (auto simp: length_Suc_conv numeral_2_eq_2)
  moreover with assms(1) obtain s t where "ts = [s, t]" "obj_of_type a s" "obj_of_type b t"
    by (auto simp: list_all2_Cons1)
  ultimately show ?thesis using assms(2) by (simp add: call2S_def)
next
  case False
  then show ?thesis by (auto simp: call2S_def intro: texec_raiseS split: list.split)
qed

definition size_arg_ok :: "string \<Rightarrow> ty option list \<Rightarrow> bool" where
  "size_arg_ok name ts \<longleftrightarrow>
     (if name = ''build'' \<or> name = ''sumbuild''
      then (case ts of [Some Integer, _] \<Rightarrow> True | [_, _] \<Rightarrow> False | _ \<Rightarrow> True) else True)"

text \<open>The type of the function a \<open>build\<close> or \<open>sumbuild\<close> is given, when the call has a type.\<close>

lemma build_types:
  assumes "prim2 name Integer u = Inr (Some t)" "name = ''build'' \<or> name = ''sumbuild''"
  obtains e where "u = LamT Integer e \<or> u = LM Integer e" "t = (if name = ''build'' then Tensor 1 e else e)"
  using assms by (cases u) (auto simp: prim2_def bindE_eq_Inr rank_of_size_def split: if_splits)

lemma Fun_not_LM: "obj_of_type b u \<Longrightarrow> u = LamT s e \<or> u = LM s e \<Longrightarrow> b = Fun g \<Longrightarrow> obj_of_type b (LamT s e)"
  by (auto simp: obj_of_type.simps)

lemma typed_core:
  assumes f: "mangle_without_type f = name" "call_type st f (make_tuple_if_many ts) ot"
    and g: "name \<in> set core_names" "map_of (abstract_built_ins ops) name = Some g"
    and vs: "list_all2 obj_of_type vs ts" and sz: "size_arg_ok name (map Some ts)"
  shows "typed_opt ot (g vs)"
proof -
  have prim: "prim_lookup f a = prim_by_count name (arg_list a)" for a
    using prim_lookup_core [of f] f(1) g(1) by simp
  have two: "prim2 name s u = Inr ot \<and> ot \<noteq> None"
    if "ts = [s, u]" "name = ''build'' \<or> name = ''sumbuild'' \<or> name = ''index''" for s u
  proof -
    have r: "prim_lookup f (make_tuple_if_many ts) = bindE (prim2 name s u) (\<lambda>r. Inr r)"
      using that by (auto simp: prim make_tuple_if_many_def arg_list_def prim_by_count_def)
    have "prim2 name s u \<noteq> Inr None" using that(2) by (elim disjE) (simp_all add: prim2_def bindE_eq_Inr)
    then show ?thesis using f(2) r by (auto simp: call_type_def)
  qed
  consider (build) "name = ''build'' \<or> name = ''sumbuild''" | (size) "name = ''size''" | (index) "name = ''index''" | (fold) "name = ''fold''"
    using g(1) by (auto simp: core_names_def)
  then show ?thesis
  proof cases
    case build
    have "typed_opt ot (if name = ''build'' then av_build ops a b else av_sumbuild ops a b)"
      if ts: "ts = [s, u]" and a: "obj_of_type a s" and b: "obj_of_type b u" for a b s u
    proof -
      have s: "s = Integer" using sz ts build by (auto simp: size_arg_ok_def split: ty.splits)
      from two [OF ts] build obtain t where t: "prim2 name Integer u = Inr (Some t)" "ot = Some t" by (auto simp: s)
      from build_types [OF t(1) build] obtain e where e: "u = LamT Integer e \<or> u = LM Integer e"
        "t = (if name = ''build'' then Tensor 1 e else e)" .
      have fn: "obj_of_type b (LamT Integer e)" if "b = Fun g" for g using Fun_not_LM [OF b e(1) that] .
      have "typed_exec (Tensor 1 e) (av_build ops a b)" by (rule typed_av_build) (use a s fn in auto)
      moreover have "typed_exec e (av_sumbuild ops a b)" by (rule typed_av_sumbuild) (use a s fn in auto)
      ultimately show ?thesis using t(2) e(2) by simp
    qed
    moreover have "g = call2S (\<lambda>a b. if name = ''build'' then av_build ops a b else av_sumbuild ops a b)"
      using build g(2) by (auto simp: abstract_built_ins_def)
    ultimately show ?thesis using typed_two_args [OF vs] by simp
  next
    case size
    then have g': "g = call1S (av_size ops)" using g(2) by (simp add: abstract_built_ins_def)
    show ?thesis
    proof (cases vs)
      case (Cons v vs')
      show ?thesis
      proof (cases "vs' = []")
        case True
        with vs Cons obtain t where t: "ts = [t]" "obj_of_type v t" by (auto simp: list_all2_Cons1)
        have "ot = Some (SizeType_from_rank r)" if "t = Tensor r e" for r e
          using f(2) t(1) size that
          by (auto simp: call_type_def prim make_tuple_if_many_def arg_list_def prim_by_count_def prim1_def)
        then have "typed_exec u (av_size ops v)" if "ot = Some u" for u
          using typed_av_size [OF t(2), of u ops] that by auto
        moreover have "texec (\<lambda>_. True) (av_size ops v)"
          using texec_framed [OF framed_av_size] by (rule texec_weaken) simp
        ultimately show ?thesis using True Cons g'
          by (cases ot) (auto simp: call1S_def)
      qed (use Cons g' in \<open>auto simp: call1S_def intro: texec_raiseS split: list.split\<close>)
    qed (simp add: g' call1S_def texec_raiseS)
  next
    case index
    have "typed_opt ot (av_index ops a b)" if ts: "ts = [s, u]" and "obj_of_type a s" and b: "obj_of_type b u" for a b s u
    proof -
      from two [OF ts] index have "prim2 ''index'' s u = Inr ot" by simp
      then obtain t where "ot = Some t" "\<And>r e. u = Tensor r e \<Longrightarrow> e = t"
        by (cases u) (auto simp: prim2_def bindE_eq_Inr)
      with typed_av_index [OF b, of t ops a] show ?thesis by simp
    qed
    moreover have "g = call2S (av_index ops)" using index g(2) by (simp add: abstract_built_ins_def)
    ultimately show ?thesis using typed_two_args [OF vs] by simp
  next
    case fold
    then have "g = call3S av_fold" using g(2) by (simp add: abstract_built_ins_def)
    then show ?thesis by (auto simp: call3S_def av_fold_def intro: texec_raiseS split: list.split)
  qed
qed

section \<open>Expressions\<close>

fun plain_names :: "expr \<Rightarrow> bool" where
  "plain_names (Call f as _) \<longleftrightarrow> get_type f = None \<and> list_all plain_names as"
| "plain_names (Lam x s b _) \<longleftrightarrow> plain_names b"
| "plain_names (LetE vs r b _) \<longleftrightarrow> plain_names r \<and> plain_names b"
| "plain_names (IfE c d e _) \<longleftrightarrow> plain_names c \<and> plain_names d \<and> plain_names e"
| "plain_names (Assert c b _) \<longleftrightarrow> plain_names c \<and> plain_names b"
| "plain_names e \<longleftrightarrow> True"

text \<open>
  Calls whose type and whose execution are about the same thing: a tuple of one tuple is typed as that
  tuple, \<open>get$i$n\<close> of several arguments as if they were a tuple, and a \<open>build\<close> over more than one
  dimension, should its size be unknown, runs over one.
\<close>

definition call_ok :: "string \<Rightarrow> ty option list \<Rightarrow> bool" where
  "call_ok name ts \<longleftrightarrow>
     (name = ''tuple'' \<longrightarrow> (case ts of [Some (Tuple _)] \<Rightarrow> False | _ \<Rightarrow> True)) \<and>
     (starts_with ''get$'' name \<longrightarrow> length ts = 1 \<and> get_indices name \<noteq> None) \<and>
     size_arg_ok name ts"

fun runnable :: "expr \<Rightarrow> bool" where
  "runnable (Call f as _) \<longleftrightarrow> call_ok (mangle_without_type f) (map type_of as) \<and> list_all runnable as"
| "runnable (Lam x s b _) \<longleftrightarrow> runnable b"
| "runnable (LetE vs r b _) \<longleftrightarrow> runnable r \<and> runnable b"
| "runnable (IfE c d e _) \<longleftrightarrow> runnable c \<and> runnable d \<and> runnable e"
| "runnable (Assert c b _) \<longleftrightarrow> runnable c \<and> runnable b"
| "runnable e \<longleftrightarrow> True"

definition env_typed :: "symtab \<Rightarrow> (string \<Rightarrow> obj result) \<Rightarrow> bool" where
  "env_typed st \<rho> \<longleftrightarrow> (\<forall>x t v. st (KVar x) = Some (Some t) \<longrightarrow> \<rho> x = Inr v \<longrightarrow> obj_of_type v t)"

lemma env_typed_upd:
  "env_typed st \<rho> \<Longrightarrow> (\<And>t v. ot = Some t \<Longrightarrow> r = Inr v \<Longrightarrow> obj_of_type v t) \<Longrightarrow>
   env_typed (st(KVar x \<mapsto> ot)) (\<rho>(x := r))"
  by (auto simp: env_typed_def)

lemma functions_typed_KVar [simp]: "functions_typed ops (st(KVar x \<mapsto> ot)) F \<longleftrightarrow> functions_typed ops st F"
  by (simp add: functions_typed_def call_type_def)

lemma functions_typed_bind_vars [simp]: "functions_typed ops (bind_vars st vs) F \<longleftrightarrow> functions_typed ops st F"
  unfolding bind_vars_def by (induction vs arbitrary: st) auto

lemma env_typed_bind_vars:
  "env_typed st \<rho> \<Longrightarrow> (\<And>i t v. i < length ws \<Longrightarrow> var_type (ws ! i) = Some t \<Longrightarrow> us i = Inr v \<Longrightarrow> obj_of_type v t) \<Longrightarrow>
   env_typed (bind_vars st ws) (upds \<rho> (map var_name ws) us)"
proof (induction ws arbitrary: st \<rho> us)
  case (Cons w ws)
  have "env_typed (st(KVar (var_name w) \<mapsto> var_type w)) (\<rho>(var_name w := us 0))"
    using Cons.prems(1) Cons.prems(2) [of 0] by (auto intro!: env_typed_upd)
  moreover have "obj_of_type v t" if "i < length ws" "var_type (ws ! i) = Some t" "us (Suc i) = Inr v" for i t v
    using Cons.prems(2) [of "Suc i"] that by simp
  ultimately have "env_typed (bind_vars (st(KVar (var_name w) \<mapsto> var_type w)) ws)
      (upds (\<rho>(var_name w := us 0)) (map var_name ws) (\<lambda>i. us (Suc i)))" by (rule Cons.IH)
  then show ?case by (simp add: bind_vars_def)
qed (simp add: bind_vars_def)

lemma get_indices_tuple_index: "get_indices name = Some (i, n) \<Longrightarrow> tuple_index name = Inr (int i - 1)"
proof -
  assume g: "get_indices name = Some (i, n)"
  obtain rest where rest: "rest = drop 4 name" by blast
  obtain ds where ds: "ds = takeWhile is_digit rest" by blast
  from g have g': "ds \<noteq> []" "starts_with ''$'' (dropWhile is_digit rest)" "i = str_nat ds"
    by (auto simp: get_indices_def Let_def rest ds split: if_splits)
  from g'(2) obtain r where "dropWhile is_digit rest = CHR ''$'' # r" by (auto simp: starts_with_iff)
  then have split: "rest = ds @ CHR ''$'' # r" by (metis ds takeWhile_dropWhile_id)
  have digits: "\<forall>c \<in> set ds. is_digit c" using ds by (auto dest: set_takeWhileD)
  then have "\<forall>c \<in> set ds. c \<noteq> CHR ''$''" by (auto simp: is_digit_def)
  then have "takeWhile (\<lambda>c. c \<noteq> CHR ''$'') (ds @ CHR ''$'' # r) = ds" by (simp add: takeWhile_append2)
  then have "takeWhile (\<lambda>c. c \<noteq> CHR ''$'') rest = ds" using split by (simp only:)
  with digits g' rest show ?thesis by (simp add: tuple_index_def Let_def list_all_iff)
qed

lemma typed_tuple_call:
  assumes "call_type st f (make_tuple_if_many ts) ot" "mangle_without_type f = ''tuple''"
    and "call_ok ''tuple'' (map Some ts)" "list_all2 obj_of_type vs ts"
  shows "typed_opt ot (av_make_tuple ops vs)"
proof -
  have "arg_list (make_tuple_if_many ts) = ts"
    using assms(3) by (auto simp: call_ok_def make_tuple_if_many_def arg_list_def length_Suc_conv split: ty.splits)
  then have "ot = Some (Tuple ts)" using assms(1,2) by (auto simp: call_type_def prim_lookup_def Let_def)
  with typed_av_make_tuple [OF assms(4)] show ?thesis by simp
qed

lemma typed_get_call:
  assumes "call_type st f t ot" "mangle_without_type f = name" "starts_with ''get$'' name"
    and "get_indices name \<noteq> None" "tuple_index name = Inr i" "obj_of_type v t"
  shows "typed_opt ot (av_get_tuple_element ops i v)"
proof -
  obtain k n where k: "get_indices name = Some (k, n)" using assms(4) by auto
  then have i: "i = int k - 1" using get_indices_tuple_index assms(5) by fastforce
  have nt: "name \<noteq> ''tuple''" using assms(3) by (auto simp: starts_with_def)
  have p: "prim_lookup f t = (if \<not> is_tuple t then Inl AssertionError else
      bindE (tuple_len t) (\<lambda>len. bindE (assertE (len = n)) (\<lambda>_. bindE (tuple_elem t (int k - 1)) (\<lambda>t. Inr (Some t)))))"
    using assms(2,3) k nt by (simp add: prim_lookup_def Let_def)
  then have "prim_lookup f t \<noteq> Inr None" by (auto simp: bindE_eq_Inr)
  with assms(1) have "prim_lookup f t = Inr ot" by (auto simp: call_type_def)
  with p obtain ts u where "t = Tuple ts" "py_index ts i = Inr u" "ot = Some u"
    by (cases t) (auto simp: tuple_elem_def i bindE_eq_Inr split: if_splits)
  with typed_av_get_tuple_element assms(6) show ?thesis by auto
qed

lemma typed_function_named:
  assumes F: "functions_typed ops st F" and f: "get_type f = None" "mangle_without_type f = name"
    and ct: "call_type st f (make_tuple_if_many ts) ot" and ok: "call_ok name (map Some ts)"
    and g: "function_named ops F (normalize_name name) = Inr g" and vs: "list_all2 obj_of_type vs ts"
  shows "typed_opt ot (g vs)"
proof (cases "F (normalize_name name) = Some g \<or>
    F (normalize_name name) = None \<and> normalize_name name \<notin> set core_names \<and> map_of (abstract_built_ins ops) (normalize_name name) = Some g")
  case True
  then show ?thesis using F f ct vs unfolding functions_typed_def by blast
next
  case False
  with g have b: "map_of (abstract_built_ins ops) (normalize_name name) = Some g" "normalize_name name \<in> set core_names"
    by (auto simp: function_named_def split: if_splits option.splits)
  with core_name_normalized [OF b(2)] typed_core [OF f(2) ct _ _ vs] ok show ?thesis
    by (simp add: call_ok_def)
qed

lemma typed_av_if_then_else:
  assumes "typed_opt ot t" "typed_opt ot e"
  shows "typed_opt ot (av_if_then_else ops c t e)"
proof -
  have like: "obj_of_type v u \<Longrightarrow> abstract_like v = Inr a \<Longrightarrow> obj_of_type (Abs a) u" for v a u
    using abstract_like_typed by simp
  show ?thesis
    unfolding av_if_then_else_def
    by (auto intro!: texec_bindS_lift texec_bindS_framed framed_intros texec_bindS [OF texec_compute_branch_cost [OF assms(1)]]
        texec_bindS [OF texec_compute_branch_cost [OF assms(2)]] texec_retS assms simp del: obj_of_type_Abs) (rule like; assumption)
qed

lemma typed_args:
  assumes "length as = length ts" "\<And>i. i < length as \<Longrightarrow> typed_exec (ts ! i) (f (as ! i))"
  shows "texec (\<lambda>vs. list_all2 obj_of_type vs ts) (mapS f as)"
proof -
  have "texec (\<lambda>vs. list_all2 (\<lambda>P v. P v) (map (\<lambda>t v. obj_of_type v t) ts) vs) (mapS f as)"
    by (rule texec_mapS) (use assms in \<open>auto simp: list_all2_conv_all_nth\<close>)
  then show ?thesis by (rule texec_weaken) (simp add: list_all2_conv_all_nth)
qed

lemma bindS_lift_Inr: "bindS (liftS (Inr x)) k = k x"
  by (rule ext) (simp add: bindS_def liftS_def)

lemma aeval_typed:
  "type_propagate False st e = Inr e' \<Longrightarrow> plain_names e \<Longrightarrow> runnable e' \<Longrightarrow> functions_typed ops st F \<Longrightarrow>
   env_typed st \<rho> \<Longrightarrow> typed_opt (type_of e') (aeval ops F \<rho> e)"
proof (induction e arbitrary: st \<rho> e')
  case (Const c)
  then show ?case by (cases c) (auto intro!: texec_retS)
next
  case (Var v)
  then show ?case by (auto simp: env_typed_def intro!: texec_liftS split: option.splits)
next
  case (Call f as t)
  then obtain bs where bs: "mapE (type_propagate False st) as = Inr bs" "propagate_call st f bs = Inr e'" by auto
  from bs(2) obtain a f1 ot where a: "make_tuple_opt (map type_of bs) = Inr (Some a)" "e' = Call f1 bs ot"
    "mangle_without_type f1 = mangle_without_type f" "call_type st f a ot"
    unfolding propagate_call_Inr call_type_def by (auto simp: add_type_to_sname_Inr add_type_mangle)
  from make_tuple_opt_Inr [OF a(1)] obtain ts where ts: "map type_of bs = map Some ts" "a = make_tuple_if_many ts" by blast
  define name where "name = mangle_without_type f"
  have f: "get_type f = None" "mangled f = Inr name" using Call.prems(2) mangled_untyped by (auto simp: name_def)
  have ok: "call_ok name (map Some ts)" using Call.prems(3) a(2,3) ts(1) by (simp add: name_def)
  have len: "length as = length bs" "length bs = length ts" using bs(1) ts(1) by (auto simp: mapE_length dest: map_eq_imp_length_eq)
  have arg: "typed_exec (ts ! i) (aeval ops F \<rho> (as ! i))" if i: "i < length as" for i
  proof -
    have "typed_opt (type_of (bs ! i)) (aeval ops F \<rho> (as ! i))"
      by (rule Call.IH [OF nth_mem [OF i] mapE_nth [OF bs(1) i]])
        (use Call.prems a(2) i len in \<open>auto simp: list_all_length\<close>)
    moreover have "type_of (bs ! i) = Some (ts ! i)" using ts(1) i len by (metis nth_map)
    ultimately show ?thesis by simp
  qed
  have args: "texec (\<lambda>vs. list_all2 obj_of_type vs ts) (mapS (aeval ops F \<rho>) as)"
    using typed_args [of as ts "aeval ops F \<rho>"] arg len by simp
  have "typed_opt ot (if starts_with ''get$'' name
      then bindS (liftS (tuple_index name)) (\<lambda>i. case as of [] \<Rightarrow> raiseS IndexError
             | a # _ \<Rightarrow> bindS (aeval ops F \<rho> a) (av_get_tuple_element ops i))
      else bindS (if name = ''tuple'' then retS (av_make_tuple ops) else liftS (function_named ops F (normalize_name name)))
           (\<lambda>g. bindS (mapS (aeval ops F \<rho>) as) g))"
  proof (cases "starts_with ''get$'' name")
    case True
    with ok have one: "length ts = 1" "get_indices name \<noteq> None" by (auto simp: call_ok_def)
    then obtain x u where x: "as = [x]" "ts = [u]" using len by (auto simp: length_Suc_conv)
    have u: "a = u" using ts(2) x by (simp add: make_tuple_if_many_def)
    have "typed_opt ot (av_get_tuple_element ops i v)" if "tuple_index name = Inr i" "obj_of_type v u" for i v
      using typed_get_call [OF a(4) name_def [symmetric] True one(2) that(1)] that(2) u by simp
    moreover have "typed_exec u (aeval ops F \<rho> x)" using arg [of 0] x by simp
    ultimately show ?thesis using True x by (auto intro!: texec_bindS_lift intro: texec_bindS)
  next
    case False
    have "texec (\<lambda>g. \<forall>vs. list_all2 obj_of_type vs ts \<longrightarrow> typed_opt ot (g vs))
        (if name = ''tuple'' then retS (av_make_tuple ops) else liftS (function_named ops F (normalize_name name)))"
      using typed_tuple_call [of st f ts ot] typed_function_named [OF Call.prems(4) f(1) name_def [symmetric]] a(4) ts(2) ok
      by (auto simp: name_def intro!: texec_retS texec_liftS)
    then have "typed_opt ot (bindS (if name = ''tuple'' then retS (av_make_tuple ops)
        else liftS (function_named ops F (normalize_name name))) (\<lambda>g. bindS (mapS (aeval ops F \<rho>) as) g))"
      by (rule texec_bindS) (rule texec_bindS [OF args], blast)
    with False show ?thesis by (simp only: if_False)
  qed
  then show ?case unfolding aeval.simps a(2) type_of.simps f(2) bindS_lift_Inr .
next
  case (Lam x s b t)
  then obtain b' u where b: "type_propagate False (st(KVar x \<mapsto> Some s)) b = Inr b'" "type_of b' = Some u"
    "e' = Lam x s b' (Some (LamT s u))" by (auto split: option.splits)
  have "typed_exec u (aeval ops F (\<rho>(x := Inr (obj_of_arg a))) b)" if "first_of_type (obj_of_arg a) s" for a
  proof -
    have "env_typed (st(KVar x \<mapsto> Some s)) (\<rho>(x := Inr (obj_of_arg a)))"
      using Lam.prems(5) obj_of_type_first [OF that] by (intro env_typed_upd) auto
    moreover have "plain_names b" "runnable b'" "functions_typed ops (st(KVar x \<mapsto> Some s)) F"
      using Lam.prems b(3) functions_typed_KVar by simp_all
    ultimately have "typed_opt (type_of b') (aeval ops F (\<rho>(x := Inr (obj_of_arg a))) b)" using Lam.IH [OF b(1)] by blast
    with b(2) show ?thesis by simp
  qed
  then have "obj_of_type (Fun (\<lambda>a. aeval ops F (\<rho>(x := Inr (obj_of_arg a))) b)) (LamT s u)"
    unfolding obj_of_type_Fun by blast
  then show ?case by (simp add: b(3) texec_retS)
next
  case (LetE vs r b t)
  then obtain r' vs' b' where e': "type_propagate False st r = Inr r'" "propagate_binders vs (type_of r') = Inr vs'"
    "type_propagate False (bind_vars st (binder_vars vs')) b = Inr b'" "e' = LetE vs' r' b' (type_of b')"
    by auto
  have r: "typed_opt (type_of r') (aeval ops F \<rho> r)" using LetE.IH(1) [OF e'(1)] LetE.prems e'(4) by simp
  have body: "typed_opt (type_of b') (aeval ops F \<rho>' b)" if "env_typed (bind_vars st (binder_vars vs')) \<rho>'" for \<rho>'
    using LetE.IH(2) [OF e'(3)] LetE.prems e'(4) that by simp
  show ?case
  proof (cases vs)
    case (One x)
    with e'(2) have vs': "vs' = One (MkVar (var_name x) (type_of r'))" by (simp add: propagate_binders_def)
    have "typed_opt (type_of b') (av_let_one ops v (\<lambda>u. aeval ops F (\<rho>(var_name x := Inr u)) b))"
      if "\<forall>t. type_of r' = Some t \<longrightarrow> obj_of_type v t" for v
    proof -
      have "env_typed (bind_vars st (binder_vars vs')) (\<rho>(var_name x := Inr v))"
        using that LetE.prems(5) by (auto simp: vs' bind_vars_def intro!: env_typed_upd)
      then show ?thesis unfolding av_let_one_def by (intro texec_bindS_framed framed_intros body)
    qed
    then show ?thesis by (simp add: One e'(4) texec_bindS [OF r])
  next
    case (Many xs)
    with e'(2) obtain ws where ws: "vs' = Many ws" "map var_name ws = map var_name xs" "binders_typed (Many ws) (type_of r')"
      by (cases vs') (auto simp: propagate_binders_iff untyped_map_None_iff)
    have "typed_opt (type_of b') (av_let_tupled ops (length xs) v (\<lambda>us. aeval ops F (upds \<rho> (map var_name xs) us) b))"
      if v: "\<forall>t. type_of r' = Some t \<longrightarrow> obj_of_type v t" for v
    proof -
      have lenw: "length ws = length xs" using ws(2) by (metis length_map)
      have env: "env_typed (bind_vars st (binder_vars vs'))
          (upds \<rho> (map var_name xs) (\<lambda>i. if i < length xs then Inr (Raw (ds ! i)) else Inl IndexError))"
        if ds: "elements v = Inr ds" "length ds = length xs" for ds
        unfolding ws(1) binder_vars.simps ws(2) [symmetric]
      proof (rule env_typed_bind_vars [OF LetE.prems(5)])
        fix i t w
        assume i: "i < length ws" "var_type (ws ! i) = Some t"
          "(if i < length xs then Inr (Raw (ds ! i)) else Inl IndexError) = Inr w"
        then obtain us where us: "type_of r' = Some (Tuple us)" "map var_type ws = map Some us"
          using ws(3) by (auto simp: binders_typed_def split: option.splits)
        with v have "obj_of_type v (Tuple us)" by simp
        with ds(1) have "list_all2 data_of_type ds us"
          by (cases v rule: elements.cases) auto
        moreover have "us ! i = t" using us(2) i(1,2) by (metis (mono_tags) length_map nth_map option.inject)
        ultimately show "obj_of_type w t" using i ds(2) lenw by (auto simp: list_all2_conv_all_nth)
      qed
      show ?thesis
        unfolding av_let_tupled_def
        by (intro texec_bindS_framed framed_intros texec_bindS_lift) (auto intro: texec_raiseS body env)
    qed
    then show ?thesis by (simp add: Many e'(4) texec_bindS [OF r])
  qed
next
  case (IfE c d e t)
  then obtain c' d' e1 where e': "type_propagate False st c = Inr c'" "type_propagate False st d = Inr d'"
    "type_propagate False st e = Inr e1" "type_of d' = type_of e1" "e' = IfE c' d' e1 (type_of d')"
    by (auto simp: bindE_eq_Inr)
  have "typed_opt (type_of c') (aeval ops F \<rho> c)" "typed_opt (type_of d') (aeval ops F \<rho> d)" "typed_opt (type_of d') (aeval ops F \<rho> e)"
    using IfE.IH(1) [OF e'(1)] IfE.IH(2) [OF e'(2)] IfE.IH(3) [OF e'(3)] IfE.prems e'(4,5) by simp_all
  then show ?case by (simp add: e'(5) texec_bindS typed_av_if_then_else)
next
  case (Assert c b t)
  show ?case by (simp add: texec_raiseS)
qed

section \<open>Modules\<close>

text \<open>
  A declared function has the type of the call, its function on concrete values respects the types, and
  the value of its \<open>shape$\<close> function is the shape of a value of that type, wherever it can be read as one.
\<close>

definition edef_typed :: "py_ops \<Rightarrow> abs_module \<Rightarrow> string \<Rightarrow> string \<times> ty \<Rightarrow> ty list \<Rightarrow> ty option \<Rightarrow> bool" where
  "edef_typed ops m py_name e ts ot \<longleftrightarrow>
     ot = Some (snd e) \<and>
     (\<forall>ds d. list_all2 data_of_type ds ts \<longrightarrow> concrete_call ops py_name ds = Inr d \<longrightarrow> data_of_type d (snd e)) \<and>
     (\<forall>n vs st v d s. fst (run_defs_entry ops (module_functions ops m n) m (''shape$'' @ fst e) vs st) = Inr v \<longrightarrow>
        get_data v = Inr d \<longrightarrow> from_ks_shape d (snd e) = Inr s \<longrightarrow> shape_of_type s (snd e))"

text \<open>A function is defined by an expression that has the type of the call when its arguments do.\<close>

definition def_typed :: "symtab \<Rightarrow> string list \<times> expr \<Rightarrow> ty list \<Rightarrow> ty option \<Rightarrow> bool" where
  "def_typed st d ts ot \<longleftrightarrow>
     length (fst d) = length ts \<longrightarrow>
       (\<exists>body'. type_propagate False (bind_vars st (map2 (\<lambda>x t. MkVar x (Some t)) (fst d) ts)) (snd d) = Inr body' \<and>
          type_of body' = ot \<and> plain_names (snd d) \<and> runnable body')"

definition module_typed :: "py_ops \<Rightarrow> abs_module \<Rightarrow> symtab \<Rightarrow> bool" where
  "module_typed ops m st \<longleftrightarrow>
     (\<forall>x. st (KVar x) = None) \<and>
     (\<forall>f ts ot. get_type f = None \<longrightarrow> call_type st f (make_tuple_if_many ts) ot \<longrightarrow>
        (case map_of (mod_edefs m) (normalize_name (mangle_without_type f)) of
           Some e \<Rightarrow> edef_typed ops m (normalize_name (mangle_without_type f)) e ts ot
         | None \<Rightarrow>
             (case map_of (mod_functions m) (normalize_name (mangle_without_type f)) of
                Some d \<Rightarrow> def_typed st d ts ot
              | None \<Rightarrow> normalize_name (mangle_without_type f) \<in> set core_names \<or>
                  map_of (abstract_built_ins ops) (normalize_name (mangle_without_type f)) = None)))"

lemma typed_shape_and_cost:
  assumes q: "quiet_function shape_def" "quiet_function cost_def"
    and s: "\<And>vs st v d s. fst (shape_def vs st) = Inr v \<Longrightarrow> get_data v = Inr d \<Longrightarrow> from_ks_shape d u = Inr s \<Longrightarrow> shape_of_type s u"
  shows "texec (\<lambda>(s, _). shape_of_type s u) (shape_and_cost shape_def cost_def u as)"
proof -
  have quiet: "list_all quiet (map Abs as)" by (simp add: list_all_iff)
  have "framed (\<lambda>_. True) (cost_def (map Abs as))"
    using q(2) quiet by (auto simp: quiet_function_def intro: framed_weaken)
  note cost = this
  have shape: "texec (\<lambda>v. \<forall>d s. get_data v = Inr d \<longrightarrow> from_ks_shape d u = Inr s \<longrightarrow> shape_of_type s u) (shape_def (map Abs as))"
  proof -
    have "texec quiet (shape_def (map Abs as))"
      using q(1) quiet by (simp add: quiet_function_def texec_framed)
    then show ?thesis using s unfolding texec_def by blast
  qed
  show ?thesis
    unfolding shape_and_cost_def
    by (rule texec_bindS [OF shape]) (auto intro!: texec_bindS_lift texec_bindS_framed [OF cost] texec_retS simp: bindE_eq_Inr)
qed

lemma typed_get_edef:
  assumes q: "quiet_function shape_def" "quiet_function cost_def"
    and s: "\<And>vs st v d s. fst (shape_def vs st) = Inr v \<Longrightarrow> get_data v = Inr d \<Longrightarrow> from_ks_shape d u = Inr s \<Longrightarrow> shape_of_type s u"
    and c: "\<And>ds d. list_all2 data_of_type ds ts \<Longrightarrow> concrete_call ops name ds = Inr d \<Longrightarrow> data_of_type d u"
    and vs: "list_all2 obj_of_type vs ts"
  shows "typed_exec u (get_edef ops name shape_def cost_def u vs)"
proof -
  have concrete: "first_of_type (Abs a) u"
    if a: "bindE (mapE get_data vs) (\<lambda>ds. bindE (concrete_call ops name ds) (\<lambda>d. from_data d l)) = Inr a" for a l
  proof -
    from a obtain ds d where d: "mapE get_data vs = Inr ds" "concrete_call ops name ds = Inr d" "from_data d l = Inr a"
      by (auto simp: bindE_eq_Inr)
    have "list_all2 data_of_type ds ts"
      unfolding list_all2_conv_all_nth
    proof (intro conjI allI impI)
      show "length ds = length ts" using d(1) vs by (simp add: mapE_length list_all2_lengthD)
      fix i
      assume "i < length ds"
      then have i: "i < length vs" using d(1) by (simp add: mapE_length)
      show "data_of_type (ds ! i) (ts ! i)"
        using get_data_typed [OF list_all2_nthD [OF vs i] mapE_nth [OF d(1) i]] .
    qed
    from c [OF this d(2)] from_data_typed [OF d(3)] show ?thesis by metis
  qed
  have abstract: "typed_exec u (bindS (with_context (new_context None) (shape_and_cost shape_def cost_def u as)) (\<lambda>((s, cost), _).
      bindS (accumulate_cost ops l cost) (\<lambda>_. liftS (bindE (mk_aval s u KNone l) (\<lambda>r. Inr (Abs r))))))" for as l
    by (rule texec_bindS [OF texec_new_context [OF typed_shape_and_cost [OF q s]]])
      (auto intro!: texec_bindS_framed framed_intros texec_lift_aval dest!: mk_aval_Inr)
  show ?thesis
    unfolding get_edef_def
  proof (rule texec_bindS_lift)
    fix l
    show "typed_exec u (if l = Concrete
        then liftS (bindE (bindE (mapE get_data vs) (\<lambda>ds. bindE (concrete_call ops name ds) (\<lambda>d. from_data d l))) (\<lambda>r. Inr (Abs r)))
        else bindS (liftS (mapE (in_context Concrete) vs)) (\<lambda>as.
          bindS (with_context (new_context None) (shape_and_cost shape_def cost_def u as)) (\<lambda>((s, cost), _).
          bindS (accumulate_cost ops l cost) (\<lambda>_. liftS (bindE (mk_aval s u KNone l) (\<lambda>r. Inr (Abs r)))))))"
    proof (cases "l = Concrete")
      case True
      have "typed_exec u (liftS (bindE (bindE (mapE get_data vs) (\<lambda>ds. bindE (concrete_call ops name ds) (\<lambda>d. from_data d l))) (\<lambda>r. Inr (Abs r))))"
        by (rule texec_lift_aval) (rule concrete)
      with True show ?thesis by (simp only: if_True simp_thms)
    next
      case False
      then show ?thesis by (simp only: if_False) (intro texec_bindS_lift abstract)
    qed
  qed
qed

lemma typed_run_def:
  assumes F: "functions_typed ops st F" and st: "\<forall>x. st (KVar x) = None"
    and d: "def_typed st d ts ot" and vs: "list_all2 obj_of_type vs ts"
  shows "typed_opt ot (run_def ops F d vs)"
proof -
  obtain xs body where xb: "d = (xs, body)" by force
  show ?thesis
  proof (cases "length vs = length xs")
    case True
    then have len: "length xs = length ts" using vs by (simp add: list_all2_lengthD)
    let ?ws = "map2 (\<lambda>x t. MkVar x (Some t)) xs ts"
    obtain body' where b: "type_propagate False (bind_vars st ?ws) body = Inr body'" "type_of body' = ot"
      "plain_names body" "runnable body'"
      using d len by (auto simp: def_typed_def xb)
    have ws: "map var_name ?ws = xs" using len by (simp add: list_eq_iff_nth_eq)
    have "env_typed (bind_vars st ?ws) (upds (\<lambda>_. Inl NameError) (map var_name ?ws)
        (\<lambda>i. if i < length vs then Inr (vs ! i) else Inl NameError))"
    proof (rule env_typed_bind_vars)
      show "env_typed st (\<lambda>_. Inl NameError)" by (simp add: env_typed_def)
      fix i t v
      assume "i < length ?ws" "var_type (?ws ! i) = Some t" "(if i < length vs then Inr (vs ! i) else Inl NameError) = Inr v"
      with len True vs show "obj_of_type v t" by (auto simp: list_all2_conv_all_nth)
    qed
    with aeval_typed [OF b(1,3,4), of ops F] F b(2) True show ?thesis
      unfolding ws by (simp add: run_def_def xb)
  qed (simp add: run_def_def xb texec_raiseS)
qed

lemma module_typedD:
  assumes "module_typed ops m st" "get_type f = None" "call_type st f (make_tuple_if_many ts) ot"
    and "name = normalize_name (mangle_without_type f)"
  shows "map_of (mod_edefs m) name = Some e \<Longrightarrow> edef_typed ops m name e ts ot"
    "map_of (mod_edefs m) name = None \<Longrightarrow> map_of (mod_functions m) name = Some d \<Longrightarrow> def_typed st d ts ot"
    "map_of (mod_edefs m) name = None \<Longrightarrow> map_of (mod_functions m) name = None \<Longrightarrow>
       name \<in> set core_names \<or> map_of (abstract_built_ins ops) name = None"
proof -
  have "case map_of (mod_edefs m) name of
        Some e \<Rightarrow> edef_typed ops m name e ts ot
      | None \<Rightarrow> (case map_of (mod_functions m) name of
           Some d \<Rightarrow> def_typed st d ts ot
         | None \<Rightarrow> name \<in> set core_names \<or> map_of (abstract_built_ins ops) name = None)"
    using assms(1-3) unfolding module_typed_def assms(4) by blast
  then show "map_of (mod_edefs m) name = Some e \<Longrightarrow> edef_typed ops m name e ts ot"
    "map_of (mod_edefs m) name = None \<Longrightarrow> map_of (mod_functions m) name = Some d \<Longrightarrow> def_typed st d ts ot"
    "map_of (mod_edefs m) name = None \<Longrightarrow> map_of (mod_functions m) name = None \<Longrightarrow>
       name \<in> set core_names \<or> map_of (abstract_built_ins ops) name = None"
    by simp_all
qed

lemma module_functions_None:
  "module_functions ops m n name = None \<longleftrightarrow> map_of (mod_edefs m) name = None \<and> map_of (mod_functions m) name = None"
  by (cases n) (auto split: option.split)

lemma module_functions_typed: "module_typed ops m st \<Longrightarrow> functions_typed ops st (module_functions ops m n)"
proof (induction n)
  case 0
  show ?case
    unfolding functions_typed_def
  proof (intro allI impI)
    fix f ts ot g vs
    assume f: "get_type f = None" and ct: "call_type st f (make_tuple_if_many ts) ot"
      and g: "module_functions ops m 0 (normalize_name (mangle_without_type f)) = Some g \<or>
        module_functions ops m 0 (normalize_name (mangle_without_type f)) = None \<and>
        normalize_name (mangle_without_type f) \<notin> set core_names \<and>
        map_of (abstract_built_ins ops) (normalize_name (mangle_without_type f)) = Some g"
    from module_typedD(3) [OF 0 f ct refl] g have "g = (\<lambda>_. raiseS RecursionError)"
      by (auto split: if_splits)
    then show "typed_opt ot (g vs)" by (simp add: texec_raiseS)
  qed
next
  case (Suc n)
  note F = Suc.IH [OF Suc.prems]
  show ?case
    unfolding functions_typed_def
  proof (intro allI impI)
    fix f ts ot g vs
    assume f: "get_type f = None" and ct: "call_type st f (make_tuple_if_many ts) ot"
      and g: "module_functions ops m (Suc n) (normalize_name (mangle_without_type f)) = Some g \<or>
        module_functions ops m (Suc n) (normalize_name (mangle_without_type f)) = None \<and>
        normalize_name (mangle_without_type f) \<notin> set core_names \<and>
        map_of (abstract_built_ins ops) (normalize_name (mangle_without_type f)) = Some g"
      and vs: "list_all2 obj_of_type vs ts"
    define name where "name = normalize_name (mangle_without_type f)"
    note m = module_typedD [OF Suc.prems f ct name_def] and g = g [folded name_def]
    show "typed_opt ot (g vs)"
    proof (cases "map_of (mod_edefs m) name")
      case (Some e)
      note e = m(1) [OF Some]
      have q: "quiet_function (run_defs_entry ops (module_functions ops m n) m k)" for k
        using quiet_run_defs_entry [OF quiet_module_functions] .
      have "typed_exec (snd e) (run_edef ops (module_functions ops m n) m name e vs)"
        unfolding run_edef_def case_prod_beta
        by (rule typed_get_edef [OF q q _ _ vs]) (use e in \<open>auto simp: edef_typed_def\<close>)
      moreover have "g = run_edef ops (module_functions ops m n) m name e" using g Some by auto
      ultimately show ?thesis using e by (simp add: edef_typed_def)
    next
      case None
      show ?thesis
      proof (cases "map_of (mod_functions m) name")
        case (Some d)
        have "g = run_def ops (module_functions ops m n) d" using g None Some by auto
        moreover have "\<forall>x. st (KVar x) = None" using Suc.prems by (simp add: module_typed_def)
        ultimately show ?thesis using typed_run_def [OF F _ m(2) [OF None Some] vs] by simp
      next
        case None2: None
        with m(3) [OF None] None g show ?thesis by auto
      qed
    qed
  qed
qed

lemma prim_lookup_name:
  assumes "prim_lookup f a = Inr (Some t)"
  shows "starts_with ''get$'' (mangle_without_type f) \<or> mangle_without_type f \<in> set
    [''tuple'', ''Vec_init'', ''size'', ''shape'', ''sum'', ''index'', ''build'', ''sumbuild'', ''constVec'', ''map'', ''eq'', ''ne'',
     ''lt'', ''gt'', ''lte'', ''gte'', ''ts_add'', ''ts_dot'', ''ts_scale'', ''deltaVec'', ''fold'', ''print'']"
proof (rule ccontr)
  assume n: "\<not> ?thesis"
  then have "prim_lookup f a = prim_by_count (mangle_without_type f) (arg_list a)"
    by (auto simp: prim_lookup_def Let_def get_indices_def)
  moreover have "prim_by_count (mangle_without_type f) us = Inr None" for us
  proof (cases "3 < length us")
    case True
    then obtain u1 u2 u3 u4 vs where "us = u1 # u2 # u3 # u4 # vs"
      by (metis Suc_leI eval_nat_numeral(3) length_Cons less_Suc_eq_0_disj list.exhaust not_less_eq numeral_2_eq_2 list.size(3))
    with n show ?thesis by (simp add: prim_by_count_def)
  next
    case False
    then consider "us = []" | u where "us = [u]" | u v where "us = [u, v]" | u v w where "us = [u, v, w]"
      by (cases us; cases "tl us"; cases "tl (tl us)"; cases "tl (tl (tl us))") auto
    then show ?thesis
      by cases (use n in \<open>simp_all add: prim_by_count_def prim1_def prim2_def prim3_def\<close>)
  qed
  ultimately show False using assms by simp
qed

lemma prim_lookup_not_backend:
  assumes "normalize_name (mangle_without_type f) \<in> set [''neg'', ''cost_neg'', ''shape_neg'', ''make_tuple'', ''get_tuple_element'',
      ''let'', ''if_then_else'', ''assert_'']"
  shows "prim_lookup f a \<noteq> Inr (Some t)"
proof
  assume p: "prim_lookup f a = Inr (Some t)"
  show False
  proof (cases "starts_with ''get$'' (mangle_without_type f)")
    case True
    then have "normalize_name (mangle_without_type f) = mangle_without_type f \<or>
        map_of specialized_functions (mangle_without_type f) \<noteq> None"
      by (auto simp: normalize_name_def split: option.splits)
    with True assms show False by (auto simp: specialized_functions_def starts_with_def split: if_splits)
  next
    case False
    have "\<forall>n \<in> set [''tuple'', ''Vec_init'', ''size'', ''shape'', ''sum'', ''index'', ''build'', ''sumbuild'', ''constVec'', ''map'', ''eq'', ''ne'',
     ''lt'', ''gt'', ''lte'', ''gte'', ''ts_add'', ''ts_dot'', ''ts_scale'', ''deltaVec'', ''fold'', ''print''].
       normalize_name n \<notin> set [''neg'', ''cost_neg'', ''shape_neg'', ''make_tuple'', ''get_tuple_element'', ''let'', ''if_then_else'', ''assert_'']"
      by code_simp
    with False prim_lookup_name [OF p] assms show False by blast
  qed
qed

section \<open>Properties\<close>

text \<open>
  C10: Abstract execution agrees with type propagation. In a generated module whose definitions propagate
  to the types of their declarations, an expression with untyped names that \<open>type_propagate\<close> gives a type to and
  that is \<open>runnable\<close>, run on arguments of the types its free variables are declared with, has, whenever it
  returns, a value of its propagated type, with a shape of that type.
\<close>

theorem abstract_execution_typed:
  assumes "module_typed ops m st" "type_propagate False (bind_vars st vs) e = Inr e'" "type_of e' = Some t"
    and "plain_names e" "runnable e'" "env_typed (bind_vars st vs) \<rho>" "int_sizes ctxs"
    and "fst (aeval ops (module_functions ops m n) \<rho> e ctxs) = Inr v"
  shows "obj_of_type v t"
proof -
  have "functions_typed ops (bind_vars st vs) (module_functions ops m n)"
    using module_functions_typed [OF assms(1)] by simp
  from aeval_typed [OF assms(2,4,5) this assms(6)] show ?thesis
    using assms(3,7,8) by (simp add: texec_def)
qed

text \<open>A module that declares \<open>neg\<close>, its costs and its shapes, and \<open>build 3 (lam i. neg (index i v))\<close>.\<close>

definition neg_module :: abs_module where
  "neg_module = \<lparr>
     mod_functions =
       [(''cost_neg'', [''a''], Const (CFloat (Fin 1))),
        (''shape_neg'', [''a''], Call (SName ''tuple'') [] None)],
     mod_defs = [(''cost$neg'', ''cost_neg''), (''shape$neg'', ''shape_neg'')],
     mod_edefs = [(''neg'', ''neg'', Float)]\<rparr>"

definition neg_symtab :: symtab where
  "neg_symtab = (\<lambda>k. if k = KName (STyped ''neg'' Float) then Some (Some Float) else None)"

definition map_neg :: expr where
  "map_neg = Call (SName ''build'') [Const (CInt 3), Lam ''i'' Integer
     (Call (SName ''neg'') [Call (SName ''index'') [Var (MkVar ''i'' None), Var (MkVar ''v'' None)] None] None) None] None"

lemma neg_call_type:
  "call_type neg_symtab f a ot \<Longrightarrow> get_type f = None \<Longrightarrow>
   (\<exists>t. prim_lookup f a = Inr (Some t)) \<or> mangle_without_type f = ''neg'' \<and> a = Float \<and> ot = Some Float"
proof -
  assume ct: "call_type neg_symtab f a ot" and f: "get_type f = None"
  show ?thesis
  proof (cases "\<exists>t. prim_lookup f a = Inr (Some t)")
    case False
    then obtain f' where f': "add_type_to_sname f (Some a) = Inr f'" "neg_symtab (KName f') = Some ot"
      using ct by (auto simp: call_type_def)
    then have "f' = STyped ''neg'' Float" "ot = Some Float" by (auto simp: neg_symtab_def split: if_splits)
    with f f'(1) show ?thesis
      by (cases f) (auto simp: add_type_to_sname_Inr case_prod_beta)
  qed simp
qed

lemma concrete_neg_typed:
  assumes "list_all2 data_of_type ds [Float]" "concrete_call exact_ops ''neg'' ds = Inr d"
  shows "data_of_type d Float"
proof -
  from assms(1) obtain x where x: "ds = [x]" "data_of_type x Float" by (auto simp: list_all2_Cons2)
  with assms(2) show ?thesis
    by (cases x) (auto simp: concrete_call_def imported_names_def built_ins_def call1_def py_neg_def on_data_def on_number_def
        bindE_eq_Inr split: option.splits if_splits)
qed

lemma neg_edef_typed: "edef_typed exact_ops neg_module ''neg'' (''neg'', Float) [Float] (Some Float)"
  unfolding edef_typed_def
proof (intro conjI allI impI)
  fix n vs st v d s
  assume "from_ks_shape d (snd (''neg'', Float)) = Inr s"
  then show "shape_of_type s (snd (''neg'', Float))"
    by (simp add: from_ks_shape.simps [of d Float] split: kdata.splits list.splits)
qed (use concrete_neg_typed in auto)

lemma neg_module_typed: "module_typed exact_ops neg_module neg_symtab"
  unfolding module_typed_def
proof (intro conjI allI impI)
  show "neg_symtab (KVar x) = None" for x by (simp add: neg_symtab_def)
  fix f ts ot
  assume f: "get_type f = None" and ct: "call_type neg_symtab f (make_tuple_if_many ts) ot"
  let ?name = "normalize_name (mangle_without_type f)"
  let ?goal = "case map_of (mod_edefs neg_module) ?name of
      Some e \<Rightarrow> edef_typed exact_ops neg_module ?name e ts ot
    | None \<Rightarrow> (case map_of (mod_functions neg_module) ?name of
         Some d \<Rightarrow> def_typed neg_symtab d ts ot
       | None \<Rightarrow> ?name \<in> set core_names \<or> map_of (abstract_built_ins exact_ops) ?name = None)"
  from neg_call_type [OF ct f] show ?goal
  proof (elim disjE exE conjE)
    fix t
    assume "prim_lookup f (make_tuple_if_many ts) = Inr (Some t)"
    with prim_lookup_not_backend [of f]
    have "?name \<notin> set [''neg'', ''cost_neg'', ''shape_neg'', ''make_tuple'', ''get_tuple_element'', ''let'', ''if_then_else'', ''assert_'']"
      by blast
    then show ?goal by (simp add: neg_module_def core_names_def abstract_built_ins_def)
  next
    assume n: "mangle_without_type f = ''neg''" "make_tuple_if_many ts = Float" "ot = Some Float"
    then have ts: "ts = [Float]" by (cases ts) (auto simp: make_tuple_if_many_def split: if_splits)
    have "normalize_name ''neg'' = ''neg''" by code_simp
    then show ?goal using neg_edef_typed unfolding n(1,3) ts by (simp add: neg_module_def)
  qed
qed

text \<open>What \<open>map_neg\<close> propagates to, and its abstract execution on a vector of three unknown numbers.\<close>

definition map_neg_typed :: expr where
  "map_neg_typed = (case type_propagate False (bind_vars neg_symtab [MkVar ''v'' (Some (Tensor 1 Float))]) map_neg of
     Inr e \<Rightarrow> e | Inl _ \<Rightarrow> map_neg)"

definition run_map_neg :: "label \<Rightarrow> obj result" where
  "run_map_neg l = fst (aeval exact_ops (module_functions exact_ops neg_module 1) (\<lambda>x. if x = ''v'' then Inr (vec3 l) else Inl NameError)
     map_neg [new_context None])"

theorem abstract_execution_typed_witness:
  "\<exists>v. run_map_neg (InState 1) = Inr v \<and> obj_of_type v (Tensor 1 Float)"
proof -
  let ?st = "bind_vars neg_symtab [MkVar ''v'' (Some (Tensor 1 Float))]"
  let ?\<rho> = "\<lambda>x. if x = ''v'' then Inr (vec3 (InState 1)) else Inl NameError"
  have e': "type_propagate False ?st map_neg = Inr map_neg_typed" "type_of map_neg_typed = Some (Tensor 1 Float)"
    "plain_names map_neg" "runnable map_neg_typed"
    by code_simp+
  have "\<exists>is. KTuple [KInt 3] = KTuple (map KInt is) \<and> int (length is) = 1" by (rule exI [of _ "[3]"]) simp
  then have env: "env_typed ?st ?\<rho>"
    by (auto simp: env_typed_def bind_vars_def neg_symtab_def vec3_def split: if_splits)
  have sizes: "int_sizes [new_context None]" by (simp add: int_sizes_def new_context_def get_default_cost_config_def)
  have "case run_map_neg (InState 1) of Inr v \<Rightarrow> True | Inl _ \<Rightarrow> False" by code_simp
  then obtain v where v: "run_map_neg (InState 1) = Inr v" by (auto split: sum.splits)
  from abstract_execution_typed [OF neg_module_typed e' env sizes v [unfolded run_map_neg_def]] v show ?thesis by blast
qed

text \<open>The type an expression propagates to, and the type of the value it runs to.\<close>

definition unknown_of :: "ty \<Rightarrow> obj" where
  "unknown_of t = Abs \<lparr>av_shape = (case t of Tuple ts \<Rightarrow> ShTuple (map (\<lambda>_. ScalarShape) ts) | _ \<Rightarrow> ScalarShape),
     av_type = t, av_data = KNone, av_context = NoContext\<rparr>"

definition static_type :: "ty \<Rightarrow> expr \<Rightarrow> ty option" where
  "static_type t e = (case type_propagate False (bind_vars (\<lambda>_. None) [MkVar ''x'' (Some t)]) e of
     Inr e' \<Rightarrow> type_of e' | Inl _ \<Rightarrow> None)"

definition dynamic_type :: "ty \<Rightarrow> expr \<Rightarrow> ty option" where
  "dynamic_type t e = (case fst (aeval exact_ops (\<lambda>_. None) (\<lambda>_. Inr (unknown_of t)) e [new_context None]) of
     Inr (Abs a) \<Rightarrow> Some (av_type a) | _ \<Rightarrow> None)"

definition build_x :: expr where
  "build_x = Call (SName ''build'') [Var (MkVar ''x'' None), Lam ''i'' (Tuple [Integer, Integer]) (Var (MkVar ''x'' None)) None] None"

definition tuple_x :: expr where
  "tuple_x = Call (SName ''tuple'') [Var (MkVar ''x'' None)] None"


end
