(* ===== verification/Rewrites.thy ===== *)
theory Rewrites
  imports CavSubst AlphaEquiv UntupleLets TypePropagate
begin

text \<open>
  The rewriting framework, \<open>src/python/ksc/rewrites.py\<close>: matches and the traversal that finds them,
  rule matchers and sets of them, the rules that need the environment, rules parsed from text, and
  sequences of rewrites. A rule matcher is a record of its attributes and of its method
  \<open>matches_for_possible_expr\<close>. A match holds the result of its method \<open>apply_rewrite\<close>, which has no
  arguments and no effect. A generator is the list of what it yields; an exception raised on the way
  is the result of listing it. As in \<open>AlphaEquiv\<close>, \<open>same\<close> is Python's \<open>is\<close> on expressions; where the
  code asserts that an unchanged node is the same object, the model compares the nodes.
\<close>

section \<open>Matches and the traversal\<close>

record match =
  m_rule :: string
  m_ewp :: ewp
  m_apply :: "expr result"

text \<open>The variables bound by lets, with the path of the binding \<open>let\<close>; definitions by name.\<close>

record environment =
  let_vars :: "string \<rightharpoonup> path"
  env_defs :: "sname \<rightharpoonup> var list \<times> expr"

type_synonym matcher = "ewp \<Rightarrow> environment \<Rightarrow> match list result"

lemma ewp_get_size: "ewp_get w pe = Inr w' \<Longrightarrow> size (ewp_expr w') < size (ewp_expr w)"
  by (auto simp: ewp_get_Inr dest: pe_get_size)

lemma all_subexprs_size:
  "all_subexprs_with_paths w = Inr ws \<Longrightarrow> w' \<in> set ws \<Longrightarrow> size (ewp_expr w') < size (ewp_expr w)"
  unfolding all_subexprs_child_elems
  by (auto simp: mapE_Inr_iff in_set_conv_nth dest!: list_all2_nthD2 intro: ewp_get_size)

text \<open>\<open>AbstractMatcher._matches_with_env\<close>: a tupled \<open>let\<close> has no attribute \<open>vars.name\<close>.\<close>

function matches_with_env :: "matcher \<Rightarrow> ewp \<Rightarrow> environment \<Rightarrow> match list result" where
  "matches_with_env matches_here w env =
     bindE (matches_here w env) (\<lambda>ms.
     case ewp_expr w of
       LetE vs r b t \<Rightarrow>
         bindE (ewp_get w let_rhs) (\<lambda>wr.
         bindE (matches_with_env matches_here wr env) (\<lambda>ms1.
         bindE (ewp_get w let_body) (\<lambda>wb.
         case vs of
           One x \<Rightarrow>
             bindE (matches_with_env matches_here wb
                 (env\<lparr>let_vars := (let_vars env)(var_name x \<mapsto> ewp_path w)\<rparr>)) (\<lambda>ms2.
             Inr (ms @ ms1 @ ms2))
         | Many _ \<Rightarrow> Inl AttributeError)))
     | Lam x s b t \<Rightarrow>
         bindE (ewp_get w lam_body) (\<lambda>wb.
         bindE (matches_with_env matches_here wb (env\<lparr>let_vars := (let_vars env)(x := None)\<rparr>)) (\<lambda>ms1.
         Inr (ms @ ms1)))
     | _ \<Rightarrow>
         bindE (all_subexprs_with_paths w) (\<lambda>ws.
         bindE (mapE (\<lambda>w'. matches_with_env matches_here w' env) ws) (\<lambda>mss.
         Inr (ms @ concat mss))))"
  by pat_completeness auto

termination
  by (relation "measure (\<lambda>(m, w, env). size (ewp_expr w))") (auto dest: ewp_get_size all_subexprs_size)

declare matches_with_env.simps [simp del]

definition find_all_matches :: "matcher \<Rightarrow> expr \<Rightarrow> (sname \<rightharpoonup> var list \<times> expr) \<Rightarrow> match list result" where
  "find_all_matches matches_here e defs =
     bindE (from_expr e []) (\<lambda>w.
     matches_with_env matches_here w \<lparr>let_vars = Map.empty, env_defs = defs\<rparr>)"

section \<open>Rule matchers\<close>

record rule_matcher =
  rule_name :: string
  possible_filter_terms :: "filter_term list"
  may_match_any_call :: bool
  matches_for_possible_expr :: matcher

text \<open>Membership in a \<open>frozenset\<close> of filter terms.\<close>

definition term_in :: "filter_term \<Rightarrow> filter_term list \<Rightarrow> bool" where
  "term_in t ts \<longleftrightarrow> list_ex (\<lambda>u. filter_term_eq t u = Inr True) ts"

fun is_call :: "expr \<Rightarrow> bool" where
  "is_call (Call _ _ _) \<longleftrightarrow> True"
| "is_call _ \<longleftrightarrow> False"

definition rule_matches_here :: "rule_matcher \<Rightarrow> matcher" where
  "rule_matches_here r w env =
     (if term_in (get_filter_term (ewp_expr w)) (possible_filter_terms r) \<or>
         is_call (ewp_expr w) \<and> may_match_any_call r
      then matches_for_possible_expr r w env else Inr [])"

text \<open>
  \<open>RuleSet\<close>: the dictionary from filter terms to rules, and the rules for every call. A key is found
  by equality, and \<open>setdefault(term, []).append(rule)\<close> adds a rule at the end of the list of a key.
\<close>

record rule_set =
  rules_by_filter_term :: "(filter_term, rule_matcher list) dict"
  any_call_rules :: "rule_matcher list"

fun append_at :: "filter_term \<Rightarrow> rule_matcher \<Rightarrow> (filter_term, rule_matcher list) dict \<Rightarrow>
    (filter_term, rule_matcher list) dict" where
  "append_at t r [] = [(t, [r])]"
| "append_at t r ((u, rs) # d) =
     (if filter_term_eq t u = Inr True then (u, rs @ [r]) # d else (u, rs) # append_at t r d)"

fun lookup_term :: "(filter_term, rule_matcher list) dict \<Rightarrow> filter_term \<Rightarrow> rule_matcher list" where
  "lookup_term [] t = []"
| "lookup_term ((u, rs) # d) t = (if filter_term_eq t u = Inr True then rs else lookup_term d t)"

definition add_rule :: "rule_set \<Rightarrow> rule_matcher \<Rightarrow> rule_set" where
  "add_rule s r =
     \<lparr>rules_by_filter_term = foldl (\<lambda>d t. append_at t r d) (rules_by_filter_term s) (possible_filter_terms r),
      any_call_rules = any_call_rules s @ (if may_match_any_call r then [r] else [])\<rparr>"

definition mk_rule_set :: "rule_matcher list \<Rightarrow> rule_set" where
  "mk_rule_set rules = foldl add_rule \<lparr>rules_by_filter_term = [], any_call_rules = []\<rparr> rules"

definition rule_set_matches_here :: "rule_set \<Rightarrow> matcher" where
  "rule_set_matches_here s w env =
     bindE (mapE (\<lambda>r. matches_for_possible_expr r w env)
       (lookup_term (rules_by_filter_term s) (get_filter_term (ewp_expr w)) @
        (if is_call (ewp_expr w) then any_call_rules s else []))) (\<lambda>mss.
     Inr (concat mss))"

text \<open>\<open>RuleFilter\<close>\<close>

definition rule_filter :: "string \<Rightarrow> rule_matcher \<Rightarrow> (match \<Rightarrow> bool) \<Rightarrow> rule_matcher" where
  "rule_filter name base flt =
     \<lparr>rule_name = name, possible_filter_terms = possible_filter_terms base,
      may_match_any_call = may_match_any_call base,
      matches_for_possible_expr = (\<lambda>w env.
        bindE (matches_for_possible_expr base w env) (\<lambda>ms.
        Inr (map (\<lambda>m. m\<lparr>m_rule := name\<rparr>) (filter flt ms))))\<rparr>"

section \<open>Rules that use the environment\<close>

abbreviation const_zero :: expr where
  "const_zero \<equiv> Const (CFloat (Fin 0))"

definition is_const_zero :: "expr \<Rightarrow> bool" where
  "is_const_zero e \<longleftrightarrow> (case e of Const c \<Rightarrow> const_eq c (CFloat (Fin 0)) | _ \<Rightarrow> False)"

fun let_rhs_of :: "expr \<Rightarrow> expr result" where
  "let_rhs_of (LetE vs r b t) = Inr r"
| "let_rhs_of _ = Inl AttributeError"

definition inline_var_apply :: "ewp \<Rightarrow> path \<Rightarrow> expr result" where
  "inline_var_apply w binding_location =
     bindE (assertE (take (length binding_location) (ewp_path w) = binding_location)) (\<lambda>_.
     replace_subtree (ewp_root w) binding_location const_zero
       (Some (\<lambda>zero l. bindE (let_rhs_of l) (\<lambda>rhs.
          replace_subtree l (drop (length binding_location) (ewp_path w)) rhs None))))"

definition inline_var :: rule_matcher where
  "inline_var =
     \<lparr>rule_name = ''inline_var'', possible_filter_terms = [FClass ''Var''], may_match_any_call = False,
      matches_for_possible_expr = (\<lambda>w env.
        case ewp_expr w of
          Var v \<Rightarrow>
            (case let_vars env (var_name v) of
               None \<Rightarrow> Inr []
             | Some binding_location \<Rightarrow>
                 Inr [\<lparr>m_rule = ''inline_var'', m_ewp = w, m_apply = inline_var_apply w binding_location\<rparr>])
        | _ \<Rightarrow> Inl AssertionError)\<rparr>"

text \<open>The applicator of \<open>inline_call\<close>.\<close>

definition inline_call_here :: "var list \<times> expr \<Rightarrow> expr \<Rightarrow> expr \<Rightarrow> expr result" where
  "inline_call_here func_def zero call_node =
     (case call_node of
        Call f args t \<Rightarrow>
          bindE (case args of [a] \<Rightarrow> Inr a | _ \<Rightarrow> make_prim_call (SName ''tuple'') args) (\<lambda>call_arg.
          case fst func_def of
            [x] \<Rightarrow> mk_let (One x) call_arg (snd func_def) None
          | xs \<Rightarrow> bindE (mk_let (Many xs) call_arg (snd func_def) None) untuple_one_let)
      | _ \<Rightarrow> Inl AttributeError)"

definition inline_call_apply :: "ewp \<Rightarrow> var list \<times> expr \<Rightarrow> expr result" where
  "inline_call_apply w func_def =
     bindE (assertE (free_vars (snd func_def) \<subseteq> set (map var_name (fst func_def)))) (\<lambda>_.
     replace_subtree (ewp_root w) (ewp_path w) const_zero (Some (inline_call_here func_def)))"

definition inline_call :: rule_matcher where
  "inline_call =
     \<lparr>rule_name = ''inline_call'', possible_filter_terms = [], may_match_any_call = True,
      matches_for_possible_expr = (\<lambda>w env.
        case ewp_expr w of
          Call f args t \<Rightarrow>
            (case env_defs env f of
               None \<Rightarrow> Inr []
             | Some func_def \<Rightarrow>
                 Inr [\<lparr>m_rule = ''inline_call'', m_ewp = w, m_apply = inline_call_apply w func_def\<rparr>])
        | _ \<Rightarrow> Inl AssertionError)\<rparr>"

definition delete_let_here :: "expr \<Rightarrow> expr \<Rightarrow> expr \<Rightarrow> expr result" where
  "delete_let_here target zero let_node =
     bindE (assertE (is_const_zero zero)) (\<lambda>_.
     bindE (assertE (let_node = target)) (\<lambda>_.
     case let_node of
       LetE (One x) r b t \<Rightarrow> bindE (assertE (var_name x \<notin> free_vars b)) (\<lambda>_. Inr b)
     | LetE (Many xs) r b t \<Rightarrow> Inl AttributeError
     | _ \<Rightarrow> Inl AssertionError))"

definition delete_let :: rule_matcher where
  "delete_let =
     \<lparr>rule_name = ''delete_let'', possible_filter_terms = [FClass ''Let''], may_match_any_call = False,
      matches_for_possible_expr = (\<lambda>w env.
        case ewp_expr w of
          LetE (One x) r b t \<Rightarrow>
            Inr (if var_name x \<notin> free_vars b
              then [\<lparr>m_rule = ''delete_let'', m_ewp = w, m_apply =
                replace_subtree (ewp_root w) (ewp_path w) const_zero (Some (delete_let_here (ewp_expr w)))\<rparr>]
              else [])
        | LetE (Many xs) r b t \<Rightarrow> Inl AttributeError
        | _ \<Rightarrow> Inl AssertionError)\<rparr>"

section \<open>Rules parsed from text\<close>

definition combine_substs ::
    "(expr \<Rightarrow> expr \<Rightarrow> bool) \<Rightarrow> subst \<Rightarrow> subst option \<Rightarrow> subst option result" where
  "combine_substs same s1 s2 =
     (case s2 of
        None \<Rightarrow> Inr None
      | Some s2 \<Rightarrow>
          (let common = filter (\<lambda>v. map_of s2 v \<noteq> None) (map fst s1)
           in bindE (all2_py (are_alpha_equivalent same)
                (map (\<lambda>v. the (map_of s1 v)) common) (map (\<lambda>v. the (map_of s2 v)) common)) (\<lambda>ok.
              Inr (if ok then Some (AList.updates (map fst s2) (map snd s2) s1) else None))))"

text \<open>The loop over the children; \<open>f\<close> finds the substitution of a child.\<close>

fun combine_children :: "(expr \<Rightarrow> expr \<Rightarrow> bool) \<Rightarrow> (expr \<Rightarrow> expr \<Rightarrow> subst option result) \<Rightarrow>
    (expr \<times> expr) list \<Rightarrow> subst \<Rightarrow> subst option result" where
  "combine_children same f [] d = Inr (Some d)"
| "combine_children same f ((t, e) # tes) d =
     bindE (f t e) (\<lambda>s.
     bindE (combine_substs same d s) (\<lambda>d'.
     case d' of None \<Rightarrow> Inr None | Some d'' \<Rightarrow> combine_children same f tes d''))"

lemma combine_children_cong [fundef_cong]:
  assumes "same = same'" "tes = tes'" "d = d'" "\<And>t e. (t, e) \<in> set tes' \<Longrightarrow> f t e = g t e"
  shows "combine_children same f tes d = combine_children same' g tes' d'"
  unfolding assms(1-3) using assms(4)
proof (induction tes' arbitrary: d')
  case (Cons te tes)
  then show ?case by (cases te) (auto intro!: bindE_cong split: option.split)
qed simp

text \<open>A declared type accepts an expression by the type it has.\<close>

definition accepts :: "ty option \<Rightarrow> ty option \<Rightarrow> bool result" where
  "accepts declared t =
     (case declared of
        None \<Rightarrow> Inl AttributeError
      | Some d \<Rightarrow>
          if type_eq d Any then Inr True
          else (case t of None \<Rightarrow> Inl AttributeError | Some u \<Rightarrow> Inr (can_accept_value_of_type d u)))"

function find_template_subst ::
    "(expr \<Rightarrow> expr \<Rightarrow> bool) \<Rightarrow> expr \<Rightarrow> expr \<Rightarrow> (string \<rightharpoonup> ty option) \<Rightarrow> subst option result" where
  "find_template_subst same template subject template_vars =
     (case template of
        Var v \<Rightarrow>
          (case template_vars (var_name v) of
             None \<Rightarrow> Inl AssertionError
           | Some t \<Rightarrow> bindE (accepts t (type_of subject)) (\<lambda>ok.
               Inr (if ok then Some [(var_name v, subject)] else None)))
      | LetE vs r b t \<Rightarrow>
          (case subject of
             LetE vs' r' b' t' \<Rightarrow>
               (case (vs, vs') of
                  (One x, One y) \<Rightarrow>
                    bindE (assertE (template_vars (var_name x) = None)) (\<lambda>_.
                    bindE (find_template_subst same r r' template_vars) (\<lambda>rhs_subst.
                    bindE (combine_substs same [(var_name x, Var y)] rhs_subst) (\<lambda>rhs_and_bound.
                    case rhs_and_bound of
                      None \<Rightarrow> Inr None
                    | Some s \<Rightarrow>
                        bindE (find_template_subst same b b'
                          (template_vars(var_name x \<mapsto> type_of r))) (combine_substs same s))))
                | _ \<Rightarrow> Inl AssertionError)
           | _ \<Rightarrow> Inr None)
      | Lam x s b t \<Rightarrow>
          (case subject of
             Lam y s' b' t' \<Rightarrow>
               bindE (assertE (template_vars x = None)) (\<lambda>_.
               if \<not> can_accept_value_of_type s s' then Inr None
               else bindE (find_template_subst same b b' (template_vars(x \<mapsto> Some s')))
                      (combine_substs same [(x, Var (MkVar y (Some s')))]))
           | _ \<Rightarrow> Inr None)
      | _ \<Rightarrow>
          bindE (filter_term_eq (get_filter_term template) (get_filter_term subject)) (\<lambda>q.
          if \<not> q then Inr None
          else bindE (subexps_no_binds template) (\<lambda>tmpl_children.
               bindE (subexps_no_binds subject) (\<lambda>exp_children.
               if length tmpl_children \<noteq> length exp_children then Inr None
               else combine_children same
                      (\<lambda>t e. find_template_subst same t e template_vars)
                      (zip tmpl_children exp_children) []))))"
  by pat_completeness auto

termination
  by (relation "measure (\<lambda>(same, template, subject, vars). size template)")
    (auto simp: subexps_no_binds_eq less_Suc_eq_le size_list_estimation' dest!: set_zip_leftD)

declare find_template_subst.simps [simp del]

text \<open>
  \<open>_maybe_add_binder_to_subst\<close>: the variable that replaces a binder of the pattern, a new one if
  the substitution has none, and the substitution extended by it.
\<close>

definition maybe_add_binder_to_subst :: "var \<Rightarrow> subst \<Rightarrow> expr list \<Rightarrow> expr \<times> subst" where
  "maybe_add_binder_to_subst bound substs dont_capture =
     (case map_of substs (var_name bound) of
        Some target \<Rightarrow> (target, substs)
      | None \<Rightarrow>
          (let target = Var (make_nonfree_var ''t_'' (map snd substs @ dont_capture) (var_type bound))
           in (target, AList.update (var_name bound) target substs)))"

fun set_type :: "ty option \<Rightarrow> expr \<Rightarrow> expr" where
  "set_type u (Const c) = Const c"
| "set_type u (Var v) = Var (MkVar (var_name v) u)"
| "set_type u (Call f as t) = Call f as u"
| "set_type u (Lam x s b t) = Lam x s b u"
| "set_type u (LetE vs r b t) = LetE vs r b u"
| "set_type u (IfE c d e t) = IfE c d e u"
| "set_type u (Assert c b t) = Assert c b u"

definition has_any :: "expr \<Rightarrow> bool result" where
  "has_any e = (case type_of e of None \<Rightarrow> Inl AttributeError | Some t \<Rightarrow> Inr (contains_any t))"

text \<open>What \<open>SubstPattern.visit\<close> does after the visit of a node.\<close>

definition retype :: "expr \<Rightarrow> expr result" where
  "retype res =
     bindE (has_any res) (\<lambda>q.
     if q then type_propagate True Map.empty (set_type None res) else Inr res)"

text \<open>
  The type of a new binder is set in the variable object, which the substitution shares. A binder of
  the pattern that has the name of a template variable is not modelled: a \<open>let\<close> then iterates over
  an expression, which raises, and a \<open>Lam\<close> would be built with an argument that is no variable.
\<close>

function subst_pattern :: "expr \<Rightarrow> subst \<Rightarrow> expr result" where
  "subst_pattern e substs =
     bindE (case e of
         Var v \<Rightarrow> (case map_of substs (var_name v) of Some r \<Rightarrow> Inr r | None \<Rightarrow> Inl KeyError)
       | LetE vs r b t \<Rightarrow>
           (case vs of
              Many _ \<Rightarrow> Inl AssertionError
            | One x \<Rightarrow>
                bindE (subst_pattern r substs) (\<lambda>r'.
                case maybe_add_binder_to_subst x substs [b] of (target, substs') \<Rightarrow>
                bindE (has_any target) (\<lambda>q.
                let target' = (if q then set_type (type_of r') target else target);
                    substs'' = (if q then AList.update (var_name x) target' substs' else substs')
                in bindE (subst_pattern b substs'') (\<lambda>b'.
                   case target' of Var v \<Rightarrow> mk_let (One v) r' b' t | _ \<Rightarrow> Inl TypeError))))
       | Lam x s b t \<Rightarrow>
           (case maybe_add_binder_to_subst (MkVar x (Some s)) substs [b] of (target, substs') \<Rightarrow>
            bindE (subst_pattern b substs') (\<lambda>b'.
            case target of Var v \<Rightarrow> mk_lam v b' t | _ \<Rightarrow> Inl NotImplementedError))
       | _ \<Rightarrow> transform_children (\<lambda>pe c. subst_pattern c substs) e) retype"
  by pat_completeness auto

termination
  by (relation "measure (\<lambda>(e, substs). size e)") (auto dest: pe_get_size)

declare subst_pattern.simps [simp del]

text \<open>\<open>ParsedRuleMatcher\<close>; the side conditions are called with the substitution as keywords.\<close>

record parsed_rule =
  pr_name :: string
  pr_vars :: "var list"
  pr_template :: expr
  pr_replacement :: expr
  pr_side :: "subst \<Rightarrow> bool result"

definition mk_parsed_rule :: "tld \<Rightarrow> (subst \<Rightarrow> bool result) \<Rightarrow> parsed_rule result" where
  "mk_parsed_rule d side_conditions =
     (case d of
        Rule name vs template replacement \<Rightarrow>
          bindE (assertE (opt_type_eq (type_of template) (type_of replacement) \<and> type_of replacement \<noteq> None)) (\<lambda>_.
          bindE (assertE (set (map var_name vs) = free_vars template)) (\<lambda>_.
          bindE (assertE (free_vars replacement \<subseteq> set (map var_name vs))) (\<lambda>_.
          Inr \<lparr>pr_name = name, pr_vars = vs, pr_template = template, pr_replacement = replacement,
               pr_side = side_conditions\<rparr>)))
      | _ \<Rightarrow> Inl AttributeError)"

definition arg_types :: "parsed_rule \<Rightarrow> string \<rightharpoonup> ty option" where
  "arg_types pr = foldl (\<lambda>m v. m(var_name v \<mapsto> var_type v)) Map.empty (pr_vars pr)"

definition parsed_apply_here ::
    "(expr \<Rightarrow> expr \<Rightarrow> bool) \<Rightarrow> parsed_rule \<Rightarrow> subst \<Rightarrow> expr \<Rightarrow> expr \<Rightarrow> expr result" where
  "parsed_apply_here same pr substs zero target =
     bindE (assertE (is_const_zero zero)) (\<lambda>_.
     bindE (subst_pattern (pr_template pr) substs) (\<lambda>instance.
     bindE (are_alpha_equivalent same instance target) (\<lambda>q.
     bindE (assertE q) (\<lambda>_.
     bindE (subst_pattern (pr_replacement pr) substs) (\<lambda>result.
     bindE (assertE (opt_type_eq (type_of result) (type_of target))) (\<lambda>_. Inr result))))))"

definition parsed_apply_at ::
    "(expr \<Rightarrow> expr \<Rightarrow> bool) \<Rightarrow> parsed_rule \<Rightarrow> ewp \<Rightarrow> subst \<Rightarrow> expr result" where
  "parsed_apply_at same pr w substs =
     replace_subtree (ewp_root w) (ewp_path w) const_zero (Some (parsed_apply_here same pr substs))"

text \<open>\<open>apply_at\<close> is the method \<open>_apply_at\<close>, which a subclass may override.\<close>

definition parsed_matches :: "(expr \<Rightarrow> expr \<Rightarrow> bool) \<Rightarrow> parsed_rule \<Rightarrow> (ewp \<Rightarrow> subst \<Rightarrow> expr result) \<Rightarrow> matcher" where
  "parsed_matches same pr apply_at w env =
     bindE (find_template_subst same (pr_template pr) (ewp_expr w) (arg_types pr)) (\<lambda>substs.
     case substs of
       None \<Rightarrow> Inr []
     | Some s \<Rightarrow> bindE (pr_side pr s) (\<lambda>q.
         Inr (if q then [\<lparr>m_rule = pr_name pr, m_ewp = w, m_apply = apply_at w s\<rparr>] else [])))"

definition parsed_rule_matcher :: "(expr \<Rightarrow> expr \<Rightarrow> bool) \<Rightarrow> parsed_rule \<Rightarrow> rule_matcher" where
  "parsed_rule_matcher same pr =
     \<lparr>rule_name = pr_name pr, possible_filter_terms = [get_filter_term (pr_template pr)],
      may_match_any_call = False,
      matches_for_possible_expr = parsed_matches same pr (parsed_apply_at same pr)\<rparr>"

text \<open>\<open>parse_rule_str\<close> after parsing, with an empty symbol table: the rule is propagated.\<close>

definition rule_of_tld :: "tld \<Rightarrow> (subst \<Rightarrow> bool result) \<Rightarrow> parsed_rule result" where
  "rule_of_tld d side_conditions =
     (case d of
        Rule _ _ _ _ \<Rightarrow>
          bindE (type_propagate_tld False Map.empty d) (\<lambda>(d', st). mk_parsed_rule d' side_conditions)
      | _ \<Rightarrow> Inl AssertionError)"

section \<open>Sequences of rewrites\<close>

definition rewrite_step ::
    "(string \<rightharpoonup> rule_matcher) \<Rightarrow> (sname \<rightharpoonup> var list \<times> expr) \<Rightarrow> expr \<Rightarrow> string \<times> string list \<Rightarrow> expr result" where
  "rewrite_step rule defs e step =
     bindE (deserialize_path (snd step)) (\<lambda>path.
     bindE (case rule (fst step) of None \<Rightarrow> Inl KeyError | Some r \<Rightarrow> Inr r) (\<lambda>r.
     bindE (find_all_matches (rule_matches_here r) e defs) (\<lambda>ms.
     case filter (\<lambda>m. ewp_path (m_ewp m) = path) ms of
       [] \<Rightarrow> Inl ValueError
     | [m] \<Rightarrow> bindE (assertE (m_rule m = fst step)) (\<lambda>_. m_apply m)
     | _ \<Rightarrow> Inl AssertionError)))"

fun rewrite_seq_to_exprs ::
    "(string \<rightharpoonup> rule_matcher) \<Rightarrow> (sname \<rightharpoonup> var list \<times> expr) \<Rightarrow> expr \<Rightarrow> (string \<times> string list) list \<Rightarrow>
     expr list result" where
  "rewrite_seq_to_exprs rule defs e [] = Inr []"
| "rewrite_seq_to_exprs rule defs e (step # steps) =
     bindE (rewrite_step rule defs e step) (\<lambda>e'.
     bindE (rewrite_seq_to_exprs rule defs e' steps) (\<lambda>es. Inr (e' # es)))"

end
