(* ===== verification/RewriteTraversal.thy ===== *)
theory RewriteTraversal
  imports Rewrites
begin

text \<open>
  What the traversal of \<open>Rewrites\<close> reaches: every position of an expression, with the environment that
  the binders on the way leave in it. A variable of the environment is mapped to the \<open>let\<close> that binds
  it there.
\<close>

section \<open>What the traversal reaches\<close>

inductive reached :: "expr \<Rightarrow> (sname \<rightharpoonup> var list \<times> expr) \<Rightarrow> ewp \<Rightarrow> environment \<Rightarrow> bool"
  for whole defs where
  reached_root: "reached whole defs \<lparr>ewp_root = whole, ewp_path = [], ewp_expr = whole\<rparr>
    \<lparr>let_vars = Map.empty, env_defs = defs\<rparr>"
| reached_let_rhs: "reached whole defs w env \<Longrightarrow> ewp_expr w = LetE vs r b t \<Longrightarrow>
    ewp_get w let_rhs = Inr w' \<Longrightarrow> reached whole defs w' env"
| reached_let_body: "reached whole defs w env \<Longrightarrow> ewp_expr w = LetE (One x) r b t \<Longrightarrow>
    ewp_get w let_body = Inr w' \<Longrightarrow>
    reached whole defs w' (env\<lparr>let_vars := (let_vars env)(var_name x \<mapsto> ewp_path w)\<rparr>)"
| reached_lam: "reached whole defs w env \<Longrightarrow> ewp_expr w = Lam x s b t \<Longrightarrow>
    ewp_get w lam_body = Inr w' \<Longrightarrow>
    reached whole defs w' (env\<lparr>let_vars := (let_vars env)(x := None)\<rparr>)"
| reached_child: "reached whole defs w env \<Longrightarrow>
    (case ewp_expr w of LetE _ _ _ _ \<Rightarrow> False | Lam _ _ _ _ \<Rightarrow> False | _ \<Rightarrow> True) \<Longrightarrow>
    all_subexprs_with_paths w = Inr ws \<Longrightarrow> w' \<in> set ws \<Longrightarrow> reached whole defs w' env"

text \<open>The traversal from a node yields what is found at the nodes reached from there.\<close>

lemma matches_with_env_reached:
  "matches_with_env here w env = Inr ms \<Longrightarrow> reached whole defs w env \<Longrightarrow> m \<in> set ms \<Longrightarrow>
   \<exists>w' env' ms'. reached whole defs w' env' \<and> here w' env' = Inr ms' \<and> m \<in> set ms'"
proof (induction "size (ewp_expr w)" arbitrary: w env ms rule: less_induct)
  case less
  from less.prems(1) obtain ms0 where ms0: "here w env = Inr ms0"
    by (subst (asm) matches_with_env.simps) auto
  show ?case
  proof (cases "m \<in> set ms0")
    case True
    with ms0 less.prems(2) show ?thesis by blast
  next
    case notin: False
    show ?thesis
    proof (cases "case ewp_expr w of LetE _ _ _ _ \<Rightarrow> False | Lam _ _ _ _ \<Rightarrow> False | _ \<Rightarrow> True")
      case True
      with less.prems(1) ms0 obtain ws mss where ws: "all_subexprs_with_paths w = Inr ws"
        and mss: "mapE (\<lambda>w'. matches_with_env here w' env) ws = Inr mss" and ms: "ms = ms0 @ concat mss"
        by (subst (asm) matches_with_env.simps) (cases "ewp_expr w"; auto)
      from notin ms less.prems(3) obtain i where i: "i < length mss" "m \<in> set (mss ! i)"
        by (metis UnE in_set_conv_nth set_append set_concat UN_E)
      then have wi: "ws ! i \<in> set ws" "matches_with_env here (ws ! i) env = Inr (mss ! i)"
        using mss by (auto simp: mapE_Inr_iff list_all2_conv_all_nth)
      have "reached whole defs (ws ! i) env"
        using reached_child [OF less.prems(2) True ws wi(1)] .
      from less.hyps [OF all_subexprs_size [OF ws wi(1)] wi(2) this i(2)] show ?thesis .
    next
      case False
      then consider (isl) vs r b t where "ewp_expr w = LetE vs r b t"
        | (ism) x s b t where "ewp_expr w = Lam x s b t"
        by (cases "ewp_expr w") auto
      then show ?thesis
      proof cases
        case isl
        with less.prems(1) ms0 obtain wr ms1 wb x ms2 where
          wr: "ewp_get w let_rhs = Inr wr" "matches_with_env here wr env = Inr ms1"
          and wb: "ewp_get w let_body = Inr wb" "vs = One x"
            "matches_with_env here wb (env\<lparr>let_vars := (let_vars env)(var_name x \<mapsto> ewp_path w)\<rparr>) = Inr ms2"
          and ms: "ms = ms0 @ ms1 @ ms2"
          by (subst (asm) matches_with_env.simps) (auto split: binders.splits)
        from notin ms less.prems(3) consider "m \<in> set ms1" | "m \<in> set ms2" by auto
        then show ?thesis
        proof cases
          case 1
          from less.hyps [OF ewp_get_size [OF wr(1)] wr(2) reached_let_rhs [OF less.prems(2) isl wr(1)] 1]
          show ?thesis .
        next
          case 2
          have "ewp_expr w = LetE (One x) r b t" using isl wb(2) by simp
          note r = reached_let_body [OF less.prems(2) this wb(1)]
          from less.hyps [OF ewp_get_size [OF wb(1)] wb(3) r 2] show ?thesis .
        qed
      next
        case ism
        with less.prems(1) ms0 obtain wb ms1 where wb: "ewp_get w lam_body = Inr wb"
            "matches_with_env here wb (env\<lparr>let_vars := (let_vars env)(x := None)\<rparr>) = Inr ms1"
          and ms: "ms = ms0 @ ms1"
          by (subst (asm) matches_with_env.simps) auto
        with notin less.prems(3) have m: "m \<in> set ms1" by auto
        from less.hyps [OF ewp_get_size [OF wb(1)] wb(2) reached_lam [OF less.prems(2) ism wb(1)] m]
        show ?thesis .
      qed
    qed
  qed
qed

lemma find_all_matches_reached:
  "find_all_matches here e defs = Inr ms \<Longrightarrow> m \<in> set ms \<Longrightarrow>
   \<exists>w env ms'. reached e defs w env \<and> here w env = Inr ms' \<and> m \<in> set ms'"
  using matches_with_env_reached [OF _ reached_root] by (force simp: find_all_matches_def from_expr_def)

text \<open>The traversal returns when the search at each reached node does.\<close>

lemma matches_with_env_total:
  "(\<And>w env. reached whole defs w env \<Longrightarrow> \<exists>ms. here w env = Inr ms) \<Longrightarrow> is_untupled (ewp_expr w) \<Longrightarrow>
   reached whole defs w env \<Longrightarrow> \<exists>ms. matches_with_env here w env = Inr ms"
proof (induction "size (ewp_expr w)" arbitrary: w env rule: less_induct)
  case less
  obtain ms0 where ms0: "here w env = Inr ms0" using less.prems(1,3) by blast
  have child: "\<exists>ms. matches_with_env here w' env' = Inr ms"
    if "ewp_get w pe = Inr w'" "reached whole defs w' env'" for pe w' env'
    using less.hyps [OF ewp_get_size [OF that(1)] less.prems(1) _ that(2)] that(1)
      is_untupled_child [OF less.prems(2)] by (auto simp: ewp_get_Inr)
  show ?case
  proof (cases "case ewp_expr w of LetE _ _ _ _ \<Rightarrow> False | Lam _ _ _ _ \<Rightarrow> False | _ \<Rightarrow> True")
    case True
    obtain ws where ws: "all_subexprs_with_paths w = Inr ws" by (rule all_subexprs_total)
    have "\<exists>ms. matches_with_env here w' env = Inr ms" if "w' \<in> set ws" for w'
    proof -
      from that ws obtain pe where "ewp_get w pe = Inr w'"
        unfolding all_subexprs_child_elems by (auto simp: mapE_Inr_iff in_set_conv_nth list_all2_conv_all_nth)
      with child reached_child [OF less.prems(3) True ws that] show ?thesis by blast
    qed
    then have "\<exists>mss. mapE (\<lambda>w'. matches_with_env here w' env) ws = Inr mss" by (simp add: mapE_ex_Inr)
    with True ws ms0 show ?thesis
      by (subst matches_with_env.simps) (cases "ewp_expr w"; auto)
  next
    case False
    then consider (isl) vs r b t where "ewp_expr w = LetE vs r b t"
      | (ism) x s b t where "ewp_expr w = Lam x s b t"
      by (cases "ewp_expr w") auto
    then show ?thesis
    proof cases
      case isl
      with less.prems(2) obtain x where x: "ewp_expr w = LetE (One x) r b t" by (cases vs) auto
      then obtain wr wb where wr: "ewp_get w let_rhs = Inr wr" and wb: "ewp_get w let_body = Inr wb"
        by (simp add: ewp_get_def)
      obtain ms1 ms2 where "matches_with_env here wr env = Inr ms1"
        "matches_with_env here wb (env\<lparr>let_vars := (let_vars env)(var_name x \<mapsto> ewp_path w)\<rparr>) = Inr ms2"
        using child [OF wr reached_let_rhs [OF less.prems(3) x wr]]
          child [OF wb reached_let_body [OF less.prems(3) x wb]] by blast
      with x wr wb ms0 show ?thesis by (subst matches_with_env.simps) simp
    next
      case ism
      then obtain wb where wb: "ewp_get w lam_body = Inr wb" by (simp add: ewp_get_def)
      obtain ms1 where "matches_with_env here wb (env\<lparr>let_vars := (let_vars env)(x := None)\<rparr>) = Inr ms1"
        using child [OF wb reached_lam [OF less.prems(3) ism wb]] by blast
      with ism wb ms0 show ?thesis by (subst matches_with_env.simps) simp
    qed
  qed
qed

text \<open>The environment of a path, read off the expression: what the binders on the way leave in it.\<close>

definition env_step :: "path \<Rightarrow> expr \<Rightarrow> path_elem \<Rightarrow> environment \<Rightarrow> environment" where
  "env_step p e pe env =
     (case e of
        LetE vs r b t \<Rightarrow>
          (case vs of
             One x \<Rightarrow> if pe = let_body then env\<lparr>let_vars := (let_vars env)(var_name x \<mapsto> p)\<rparr> else env
           | Many _ \<Rightarrow> env)
      | Lam x s b t \<Rightarrow> env\<lparr>let_vars := (let_vars env)(x := None)\<rparr>
      | _ \<Rightarrow> env)"

fun env_along :: "path \<Rightarrow> expr \<Rightarrow> path \<Rightarrow> environment \<Rightarrow> environment" where
  "env_along p e [] env = env"
| "env_along p e (pe # q) env =
     (case pe_get pe e of
        Inl _ \<Rightarrow> env
      | Inr c \<Rightarrow> env_along (p @ [pe]) c q (env_step p e pe env))"

lemma env_along_append:
  "subexpr_at e q = Inr c \<Longrightarrow> env_along p e (q @ q') env = env_along (p @ q) c q' (env_along p e q env)"
  by (induction q arbitrary: e p env) (auto split: sum.splits)

lemma subexpr_at_snoc: "subexpr_at e q = Inr c \<Longrightarrow> pe_get pe c = Inr d \<Longrightarrow> subexpr_at e (q @ [pe]) = Inr d"
  by (simp add: subexpr_at_append)

lemma all_subexprs_elem:
  assumes "all_subexprs_with_paths w = Inr ws" "w' \<in> set ws"
  obtains pe where "ewp_get w pe = Inr w'"
  using assms unfolding all_subexprs_child_elems
  by (auto simp: mapE_Inr_iff in_set_conv_nth list_all2_conv_all_nth)

lemma reached_at:
  "reached whole defs w env \<Longrightarrow>
   ewp_root w = whole \<and> subexpr_at whole (ewp_path w) = Inr (ewp_expr w) \<and>
   env = env_along [] whole (ewp_path w) \<lparr>let_vars = Map.empty, env_defs = defs\<rparr>"
proof (induction rule: reached.induct)
  case (reached_child w env ws w')
  from all_subexprs_elem [OF reached_child.hyps(3,4)] obtain pe where pe: "ewp_get w pe = Inr w'" .
  have "env_step (ewp_path w) (ewp_expr w) pe env = env"
    using reached_child.hyps(2) by (cases "ewp_expr w") (auto simp: env_step_def)
  with pe reached_child.IH show ?case
    by (auto simp: ewp_get_Inr subexpr_at_snoc env_along_append)
qed (auto simp: ewp_get_Inr subexpr_at_append env_along_append env_step_def split: binders.split)

text \<open>Every position of an expression is visited with the environment of its path.\<close>

lemma matches_with_env_visits:
  "matches_with_env here w env = Inr ms \<Longrightarrow> subexpr_at (ewp_expr w) q = Inr c \<Longrightarrow>
   \<exists>ms'. here \<lparr>ewp_root = ewp_root w, ewp_path = ewp_path w @ q, ewp_expr = c\<rparr>
       (env_along (ewp_path w) (ewp_expr w) q env) = Inr ms' \<and> set ms' \<subseteq> set ms"
proof (induction q arbitrary: w env ms)
  case Nil
  then show ?case
    by (subst (asm) matches_with_env.simps) (cases w; auto split: expr.splits binders.splits)
next
  case (Cons pe q)
  then obtain d where d: "pe_get pe (ewp_expr w) = Inr d" "subexpr_at d q = Inr c" by auto
  let ?w' = "\<lparr>ewp_root = ewp_root w, ewp_path = ewp_path w @ [pe], ewp_expr = d\<rparr>"
  have get: "ewp_get w pe = Inr ?w'" using d(1) by (simp add: ewp_get_Inr)
  have "\<exists>ms1. matches_with_env here ?w' (env_step (ewp_path w) (ewp_expr w) pe env) = Inr ms1 \<and>
      set ms1 \<subseteq> set ms"
  proof (cases "case ewp_expr w of LetE _ _ _ _ \<Rightarrow> False | Lam _ _ _ _ \<Rightarrow> False | _ \<Rightarrow> True")
    case True
    with Cons.prems(1) obtain ms0 ws mss where ws: "all_subexprs_with_paths w = Inr ws"
      and mss: "mapE (\<lambda>w'. matches_with_env here w' env) ws = Inr mss" and ms: "ms = ms0 @ concat mss"
      by (subst (asm) matches_with_env.simps) (cases "ewp_expr w"; auto)
    have "?w' \<in> set ws"
      using ws get pe_get_Inr [OF d(1)] unfolding all_subexprs_child_elems mapE_Inr_iff
      by (auto simp: in_set_conv_nth list_all2_conv_all_nth)
    then obtain i where i: "i < length ws" "ws ! i = ?w'" by (auto simp: in_set_conv_nth)
    with mss have "matches_with_env here ?w' env = Inr (mss ! i)" "i < length mss"
      by (auto simp: mapE_Inr_iff list_all2_conv_all_nth dest: spec [of _ i])
    moreover have "env_step (ewp_path w) (ewp_expr w) pe env = env"
      using True by (cases "ewp_expr w") (auto simp: env_step_def)
    ultimately show ?thesis using ms by auto
  next
    case False
    then consider (isl) vs r b t where "ewp_expr w = LetE vs r b t"
      | (ism) x s b t where "ewp_expr w = Lam x s b t"
      by (cases "ewp_expr w") auto
    then show ?thesis
    proof cases
      case isl
      with d(1) have "pe = let_rhs \<or> pe = let_body" by (cases pe) auto
      with isl Cons.prems(1) get show ?thesis
        by (subst (asm) matches_with_env.simps) (auto simp: env_step_def split: binders.splits)
    next
      case ism
      with d(1) have "pe = lam_body" by (cases pe) auto
      with ism Cons.prems(1) get show ?thesis
        by (subst (asm) matches_with_env.simps) (auto simp: env_step_def)
    qed
  qed
  then obtain ms1 where ms1: "matches_with_env here ?w' (env_step (ewp_path w) (ewp_expr w) pe env) = Inr ms1"
    "set ms1 \<subseteq> set ms" by blast
  from Cons.IH [OF ms1(1)] d ms1(2) show ?case by auto
qed

section \<open>The environment maps a variable to its binding let\<close>

definition unbound_step :: "string \<Rightarrow> expr \<Rightarrow> path_elem \<Rightarrow> bool" where
  "unbound_step x e pe \<longleftrightarrow>
     (case e of
        LetE vs r b t \<Rightarrow> pe = let_body \<longrightarrow> x \<notin> set (binder_names vs)
      | Lam y s b t \<Rightarrow> x \<noteq> y
      | _ \<Rightarrow> True)"

fun unbound_along :: "string \<Rightarrow> expr \<Rightarrow> path \<Rightarrow> bool" where
  "unbound_along x e [] \<longleftrightarrow> True"
| "unbound_along x e (pe # q) \<longleftrightarrow>
     unbound_step x e pe \<and> (case pe_get pe e of Inl _ \<Rightarrow> True | Inr c \<Rightarrow> unbound_along x c q)"

lemma unbound_along_append:
  "subexpr_at e q = Inr c \<Longrightarrow> unbound_along x e (q @ q') \<longleftrightarrow> unbound_along x e q \<and> unbound_along x c q'"
  by (induction q arbitrary: e) (auto split: sum.splits)

definition binds_at :: "expr \<Rightarrow> string \<Rightarrow> path \<Rightarrow> ewp \<Rightarrow> bool" where
  "binds_at whole x p w \<longleftrightarrow>
     (\<exists>q y r b t. ewp_path w = p @ let_body # q \<and> subexpr_at whole p = Inr (LetE (One y) r b t) \<and>
       var_name y = x \<and> subexpr_at b q = Inr (ewp_expr w) \<and> unbound_along x b q)"

lemma binds_at_get:
  assumes "binds_at whole x p w" "ewp_get w pe = Inr w'" "unbound_step x (ewp_expr w) pe"
  shows "binds_at whole x p w'"
proof -
  from assms(1) obtain q y r b t where q: "ewp_path w = p @ let_body # q"
    "subexpr_at whole p = Inr (LetE (One y) r b t)" "var_name y = x"
    "subexpr_at b q = Inr (ewp_expr w)" "unbound_along x b q"
    unfolding binds_at_def by blast
  have w': "ewp_path w' = ewp_path w @ [pe]" "pe_get pe (ewp_expr w) = Inr (ewp_expr w')"
    using assms(2) by (auto simp: ewp_get_Inr)
  have "unbound_along x b (q @ [pe])"
    using q(5) assms(3) w'(2) by (simp add: unbound_along_append [OF q(4)])
  then show ?thesis
    using q w' subexpr_at_snoc [OF q(4) w'(2)] unfolding binds_at_def by fastforce
qed

lemma reached_binds:
  "reached whole defs w env \<Longrightarrow> let_vars env x = Some p \<Longrightarrow> binds_at whole x p w"
proof (induction arbitrary: x p rule: reached.induct)
  case reached_root
  then show ?case by simp
next
  case (reached_let_rhs w env vs r b t w')
  have "unbound_step x (ewp_expr w) let_rhs" using reached_let_rhs.hyps(2) by (simp add: unbound_step_def)
  with reached_let_rhs show ?case by (blast intro: binds_at_get)
next
  case (reached_let_body w env y r b t w')
  show ?case
  proof (cases "x = var_name y")
    case True
    with reached_let_body.prems have "p = ewp_path w" by simp
    with True reached_let_body.hyps reached_at [OF reached_let_body.hyps(1)] show ?thesis
      unfolding binds_at_def by (auto simp: ewp_get_Inr)
  next
    case False
    then have "unbound_step x (ewp_expr w) let_body"
      using reached_let_body.hyps(2) by (simp add: unbound_step_def)
    moreover have "let_vars env x = Some p" using reached_let_body.prems False by simp
    ultimately show ?thesis using reached_let_body.IH reached_let_body.hyps(3) binds_at_get by blast
  qed
next
  case (reached_lam w env y s b t w')
  then have "x \<noteq> y" "let_vars env x = Some p" by (auto split: if_splits)
  then have "unbound_step x (ewp_expr w) lam_body"
    using reached_lam.hyps(2) by (simp add: unbound_step_def)
  with reached_lam.IH \<open>let_vars env x = Some p\<close> reached_lam.hyps(3) binds_at_get show ?case by blast
next
  case (reached_child w env ws w')
  from all_subexprs_elem [OF reached_child.hyps(3,4)] obtain pe where pe: "ewp_get w pe = Inr w'" .
  have "unbound_step x (ewp_expr w) pe"
    using reached_child.hyps(2) by (cases "ewp_expr w") (auto simp: unbound_step_def)
  with pe reached_child.IH [OF reached_child.prems] show ?case by (blast intro: binds_at_get)
qed

section \<open>Properties\<close>

text \<open>
  C8: The traversal is exact: on an expression without tupled lets, \<open>find_all_matches\<close> finds what is
  found at the positions of the expression, each searched in the environment that its path leaves,
  and nothing else.
\<close>

theorem find_all_matches_exact:
  assumes "is_untupled e" "\<And>w env. \<exists>ms. here w env = Inr ms"
  shows "\<exists>ms. find_all_matches here e defs = Inr ms \<and>
    (\<forall>m. m \<in> set ms \<longleftrightarrow> (\<exists>q c ms'. subexpr_at e q = Inr c \<and> m \<in> set ms' \<and>
       here \<lparr>ewp_root = e, ewp_path = q, ewp_expr = c\<rparr>
         (env_along [] e q \<lparr>let_vars = Map.empty, env_defs = defs\<rparr>) = Inr ms'))"
proof -
  let ?w = "\<lparr>ewp_root = e, ewp_path = [], ewp_expr = e\<rparr>"
  have "\<exists>ms. matches_with_env here ?w \<lparr>let_vars = Map.empty, env_defs = defs\<rparr> = Inr ms"
    by (rule matches_with_env_total [OF assms(2) _ reached_root]) (simp add: assms(1))
  then obtain ms where ms: "matches_with_env here ?w \<lparr>let_vars = Map.empty, env_defs = defs\<rparr> = Inr ms" ..
  then have found: "find_all_matches here e defs = Inr ms"
    by (simp add: find_all_matches_def from_expr_def)
  have "\<exists>q c ms'. subexpr_at e q = Inr c \<and> m \<in> set ms' \<and>
      here \<lparr>ewp_root = e, ewp_path = q, ewp_expr = c\<rparr>
        (env_along [] e q \<lparr>let_vars = Map.empty, env_defs = defs\<rparr>) = Inr ms'" if "m \<in> set ms" for m
  proof -
    from find_all_matches_reached [OF found that] obtain w env ms' where
      w: "reached e defs w env" "here w env = Inr ms'" "m \<in> set ms'" by blast
    with reached_at [OF w(1)] show ?thesis by (metis ewp.surjective unit.exhaust)
  qed
  moreover have "m \<in> set ms" if "subexpr_at e q = Inr c" "m \<in> set ms'"
    "here \<lparr>ewp_root = e, ewp_path = q, ewp_expr = c\<rparr>
      (env_along [] e q \<lparr>let_vars = Map.empty, env_defs = defs\<rparr>) = Inr ms'" for m q c ms'
    using matches_with_env_visits [OF ms, of q c] that by auto
  ultimately show ?thesis using found by blast
qed

theorem find_all_matches_exact_witness:
  "\<exists>ms. find_all_matches (\<lambda>w env. Inr [\<lparr>m_rule = ''all'', m_ewp = w, m_apply = Inr (ewp_expr w)\<rparr>])
      (Lam ''i'' Integer (Var (MkVar ''i'' None)) None) Map.empty = Inr ms \<and>
    m_rule ` set ms = {''all''}"
proof -
  let ?here = "\<lambda>w env. Inr [\<lparr>m_rule = ''all'', m_ewp = w, m_apply = Inr (ewp_expr w)\<rparr>]"
  let ?e = "Lam ''i'' Integer (Var (MkVar ''i'' None)) None"
  obtain ms where "find_all_matches ?here ?e Map.empty = Inr ms"
    and ms: "\<forall>m. m \<in> set ms \<longleftrightarrow> (\<exists>q c ms'. subexpr_at ?e q = Inr c \<and> m \<in> set ms' \<and>
       ?here \<lparr>ewp_root = ?e, ewp_path = q, ewp_expr = c\<rparr>
         (env_along [] ?e q \<lparr>let_vars = Map.empty, env_defs = Map.empty\<rparr>) = Inr ms')"
    using find_all_matches_exact [of ?e ?here Map.empty] by auto
  moreover have "\<lparr>m_rule = ''all'', m_ewp = \<lparr>ewp_root = ?e, ewp_path = [], ewp_expr = ?e\<rparr>, m_apply = Inr ?e\<rparr> \<in> set ms"
    unfolding ms [rule_format] by (rule exI [of _ "[]"]) simp
  then have "''all'' \<in> m_rule ` set ms" by force
  moreover have "m_rule m = ''all''" if "m \<in> set ms" for m
    using that unfolding ms [rule_format] by auto
  ultimately show ?thesis by auto
qed

section \<open>Rule sets\<close>

lemma filter_term_eq_sym: "filter_term_eq t u = Inr True \<Longrightarrow> filter_term_eq u t = Inr True"
  by (cases t; cases u) (auto simp: const_eq_sym dest: sname_eq_sound)

lemma filter_term_eq_trans:
  "filter_term_eq s t = Inr True \<Longrightarrow> filter_term_eq t u = Inr True \<Longrightarrow> filter_term_eq s u = Inr True"
  by (cases s; cases t; cases u) (auto dest: sname_eq_sound const_eq_trans)

lemma lookup_append_at:
  "lookup_term (append_at t r d) u = lookup_term d u @ (if filter_term_eq u t = Inr True then [r] else [])"
proof (induction d)
  case (Cons kr d)
  obtain k rs where kr: "kr = (k, rs)" by (cases kr)
  show ?case
  proof (cases "filter_term_eq t k = Inr True")
    case True
    then have "filter_term_eq u k = Inr True \<longleftrightarrow> filter_term_eq u t = Inr True"
      using filter_term_eq_sym filter_term_eq_trans by blast
    with True show ?thesis by (simp add: kr)
  next
    case False
    then have "\<not> (filter_term_eq u k = Inr True \<and> filter_term_eq u t = Inr True)"
      using filter_term_eq_sym filter_term_eq_trans by blast
    with False Cons.IH show ?thesis by (auto simp: kr)
  qed
qed simp

lemma lookup_append_all:
  "set (lookup_term (foldl (\<lambda>d t. append_at t r d) d ts) u) =
   set (lookup_term d u) \<union> (if term_in u ts then {r} else {})"
  by (induction ts arbitrary: d) (auto simp: lookup_append_at term_in_def)

lemma add_rules:
  "set (lookup_term (rules_by_filter_term (foldl add_rule s rules)) u) =
     set (lookup_term (rules_by_filter_term s) u) \<union> {r \<in> set rules. term_in u (possible_filter_terms r)} \<and>
   any_call_rules (foldl add_rule s rules) = any_call_rules s @ filter may_match_any_call rules"
  by (induction rules arbitrary: s) (auto simp: add_rule_def lookup_append_all)

lemma mk_rule_set_rules:
  "set (lookup_term (rules_by_filter_term (mk_rule_set rules)) (get_filter_term e) @
      (if is_call e then any_call_rules (mk_rule_set rules) else [])) =
   {r \<in> set rules. term_in (get_filter_term e) (possible_filter_terms r) \<or> is_call e \<and> may_match_any_call r}"
  unfolding mk_rule_set_def using add_rules [of "\<lparr>rules_by_filter_term = [], any_call_rules = []\<rparr>" rules]
  by auto

lemma concat_mapE:
  "case bindE (mapE f xs) (\<lambda>yss. Inr (concat yss)) of
     Inl _ \<Rightarrow> \<exists>x \<in> set xs. isl (f x)
   | Inr ys \<Rightarrow> \<not> (\<exists>x \<in> set xs. isl (f x)) \<and> (\<forall>y. y \<in> set ys \<longleftrightarrow> (\<exists>x \<in> set xs. \<exists>zs. f x = Inr zs \<and> y \<in> set zs))"
proof (induction xs)
  case (Cons x xs)
  then show ?case
    by (cases "f x"; cases "mapE f xs") (auto simp: split: sum.splits)
qed simp

text \<open>
  C11: A rule set finds what its rules find: its search raises exactly when that of one of the rules
  does, and otherwise finds the matches that the rules find one by one.
\<close>

theorem rule_set_finds_what_rules_find:
  "case rule_set_matches_here (mk_rule_set rules) w env of
     Inl _ \<Rightarrow> \<exists>r \<in> set rules. isl (rule_matches_here r w env)
   | Inr ms \<Rightarrow> \<not> (\<exists>r \<in> set rules. isl (rule_matches_here r w env)) \<and>
       (\<forall>m. m \<in> set ms \<longleftrightarrow> (\<exists>r \<in> set rules. \<exists>ms'. rule_matches_here r w env = Inr ms' \<and> m \<in> set ms'))"
proof -
  define found where "found = lookup_term (rules_by_filter_term (mk_rule_set rules)) (get_filter_term (ewp_expr w)) @
      (if is_call (ewp_expr w) then any_call_rules (mk_rule_set rules) else [])"
  let ?f = "\<lambda>r. matches_for_possible_expr r w env"
  have f: "r \<in> set found \<longleftrightarrow> r \<in> set rules \<and> rule_matches_here r w env = ?f r \<and>
      (term_in (get_filter_term (ewp_expr w)) (possible_filter_terms r) \<or> is_call (ewp_expr w) \<and> may_match_any_call r)"
    for r
    unfolding found_def mk_rule_set_rules by (auto simp: rule_matches_here_def)
  have "isl (rule_matches_here r w env) \<longleftrightarrow> isl (?f r) \<and> r \<in> set found" if "r \<in> set rules" for r
    using that by (auto simp: f rule_matches_here_def)
  moreover have "(\<exists>ms. rule_matches_here r w env = Inr ms \<and> m \<in> set ms) \<longleftrightarrow>
      r \<in> set found \<and> (\<exists>ms. ?f r = Inr ms \<and> m \<in> set ms)" if "r \<in> set rules" for r m
    using that by (auto simp: f rule_matches_here_def)
  moreover have "r \<in> set rules" if "r \<in> set found" for r using that f by blast
  ultimately have "(\<exists>r \<in> set rules. isl (rule_matches_here r w env)) \<longleftrightarrow> (\<exists>r \<in> set found. isl (?f r))"
    "\<And>m. (\<exists>r \<in> set rules. \<exists>ms. rule_matches_here r w env = Inr ms \<and> m \<in> set ms) \<longleftrightarrow>
      (\<exists>r \<in> set found. \<exists>ms. ?f r = Inr ms \<and> m \<in> set ms)" by blast+
  then show ?thesis
    using concat_mapE [where f = ?f and xs = found] unfolding rule_set_matches_here_def found_def [symmetric] by presburger
qed

end
