(* ===== verification/RewritesAst.thy ===== *)
theory RewritesAst
  imports Rewrites ParseKs
begin

text \<open>
  The rules for lets, conditionals and calls, \<open>src/python/ksc/rewrites_ast.py\<close> and
  \<open>src/python/ksc/rewrites_prim.py\<close>. A rule that is written as text is the s-expression of that
  text, and is parsed, propagated and checked by the functions the code uses for that. Side
  conditions are called with the substitution as keyword arguments, so a call with other keywords
  than the parameters raises a \<open>TypeError\<close>.
\<close>

section \<open>Rules written as text\<close>

definition parse_rule_str :: "sexp list \<Rightarrow> (subst \<Rightarrow> bool result) \<Rightarrow> parsed_rule result" where
  "parse_rule_str ses side_conditions =
     bindE (parse_ks ses) (\<lambda>ds.
     bindE (assertE (length ds = 1)) (\<lambda>_. rule_of_tld (ds ! 0) side_conditions))"

definition with_keywords :: "string list \<Rightarrow> (subst \<Rightarrow> bool result) \<Rightarrow> subst \<Rightarrow> bool result" where
  "with_keywords ks f s = (if set (map fst s) = set ks then f s else Inl TypeError)"

abbreviation no_condition :: "subst \<Rightarrow> bool result" where
  "no_condition s \<equiv> Inr True"

text \<open>The argument of a side condition; the check of the keywords has seen that it is there.\<close>

abbreviation arg :: "subst \<Rightarrow> string \<Rightarrow> expr" where
  "arg s x \<equiv> the (map_of s x)"

abbreviation app :: "string \<Rightarrow> sexp list \<Rightarrow> sexp" where
  "app f ses \<equiv> Lst (Sym f # ses)"

abbreviation decl :: "string \<Rightarrow> string \<Rightarrow> sexp" where
  "decl x t \<equiv> Lst [Sym x, Sym '':'', Sym t]"

abbreviation letx :: "string \<Rightarrow> sexp \<Rightarrow> sexp \<Rightarrow> sexp" where
  "letx x rhs body \<equiv> Lst [Sym ''let'', Lst [Sym x, rhs], body]"

abbreviation build_i :: "sexp \<Rightarrow> sexp \<Rightarrow> sexp" where
  "build_i n body \<equiv> app ''build'' [n, Lst [Sym ''lam'', decl ''i'' ''Integer'', body]]"

abbreviation rule_sexp :: "string \<Rightarrow> (string \<times> string) list \<Rightarrow> sexp \<Rightarrow> sexp \<Rightarrow> sexp" where
  "rule_sexp name vs template replacement \<equiv>
     Lst [Sym ''rule'', Atom (CStr name), Lst (map (\<lambda>(x, t). decl x t) vs), template, replacement]"

section \<open>Binding and inlining\<close>

definition raw_new_bind_sexp :: sexp where
  "raw_new_bind_sexp =
     Lst [Sym ''rule'', Atom (CStr ''raw_new_bind''), decl ''e'' ''Any'', Sym ''e'', letx ''x'' (Sym ''e'') (Sym ''x'')]"

definition raw_new_bind :: "(expr \<Rightarrow> expr \<Rightarrow> bool) \<Rightarrow> rule_matcher result" where
  "raw_new_bind same =
     bindE (parse_rule_str [raw_new_bind_sexp] no_condition) (\<lambda>pr.
     Inr ((parsed_rule_matcher same pr)
       \<lparr>possible_filter_terms := [FClass ''Let'', FClass ''Lam'', FClass ''If'', FClass ''Assert''],
        may_match_any_call := True\<rparr>))"

definition new_bind :: "(expr \<Rightarrow> expr \<Rightarrow> bool) \<Rightarrow> rule_matcher result" where
  "new_bind same =
     bindE (raw_new_bind same) (\<lambda>r.
     Inr (rule_filter ''new_bind'' r (\<lambda>m.
       ewp_path (m_ewp m) \<noteq> [] \<and> last (ewp_path (m_ewp m)) \<notin> {let_rhs, let_body, lam_body})))"

definition inline_let_here :: "expr \<Rightarrow> expr \<Rightarrow> expr \<Rightarrow> expr result" where
  "inline_let_here target zero let_node =
     bindE (assertE (is_const_zero zero)) (\<lambda>_.
     bindE (assertE (let_node = target)) (\<lambda>_.
     case let_node of
       LetE (One x) r b t \<Rightarrow> replace_free_vars b [(var_name x, r)]
     | _ \<Rightarrow> Inl AttributeError))"

definition inline_let :: rule_matcher where
  "inline_let =
     \<lparr>rule_name = ''inline_let'', possible_filter_terms = [FClass ''Let''], may_match_any_call = False,
      matches_for_possible_expr = (\<lambda>w env.
        case ewp_expr w of
          LetE vs r b t \<Rightarrow>
            Inr [\<lparr>m_rule = ''inline_let'', m_ewp = w, m_apply =
              replace_subtree (ewp_root w) (ewp_path w) const_zero (Some (inline_let_here (ewp_expr w)))\<rparr>]
        | _ \<Rightarrow> Inl AssertionError)\<rparr>"

definition cse_bind_sexp :: sexp where
  "cse_bind_sexp =
     rule_sexp ''cse_bind'' [(''rhs'', ''Any''), (''body'', ''Any'')]
       (letx ''x'' (Sym ''rhs'') (letx ''y'' (Sym ''rhs'') (Sym ''body'')))
       (letx ''x'' (Sym ''rhs'') (letx ''y'' (Sym ''x'') (Sym ''body'')))"

section \<open>Lifting an argument over a call\<close>

text \<open>
  \<open>LiftOverCall\<close>: \<open>liftable\<close> is the test for the class \<open>liftable_arg_type\<close> and \<open>build\<close> the method
  \<open>build_call_replacement\<close>. The match is located at the argument.
\<close>

definition lift_apply :: "(expr \<Rightarrow> path_elem \<Rightarrow> expr result) \<Rightarrow> ewp \<Rightarrow> expr result" where
  "lift_apply build wa =
     replace_subtree (ewp_root wa) (butlast (ewp_path wa)) const_zero
       (Some (\<lambda>zero call_node. build call_node (last (ewp_path wa))))"

definition lift_over_call ::
    "string \<Rightarrow> (expr \<Rightarrow> bool) \<Rightarrow> (expr \<Rightarrow> path_elem \<Rightarrow> expr result) \<Rightarrow> rule_matcher" where
  "lift_over_call name liftable build =
     \<lparr>rule_name = name, possible_filter_terms = [], may_match_any_call = True,
      matches_for_possible_expr = (\<lambda>w env.
        bindE (ewp_args w) (\<lambda>was.
        Inr (map (\<lambda>wa. \<lparr>m_rule = name, m_ewp = wa, m_apply = lift_apply build wa\<rparr>)
          (filter (\<lambda>wa. liftable (ewp_expr wa)) was))))\<rparr>"

definition is_if :: "expr \<Rightarrow> bool" where
  "is_if e \<longleftrightarrow> (case e of IfE _ _ _ _ \<Rightarrow> True | _ \<Rightarrow> False)"

definition is_let :: "expr \<Rightarrow> bool" where
  "is_let e \<longleftrightarrow> (case e of LetE _ _ _ _ \<Rightarrow> True | _ \<Rightarrow> False)"

definition lift_if_build :: "expr \<Rightarrow> path_elem \<Rightarrow> expr result" where
  "lift_if_build call_node which_arg =
     bindE (pe_get which_arg call_node) (\<lambda>if_node.
     case if_node of
       IfE c t f ty \<Rightarrow>
         bindE (replace_subtree call_node [which_arg] t None) (\<lambda>t'.
         bindE (replace_subtree call_node [which_arg] f None) (\<lambda>f'.
         Inr (IfE c t' f' (type_of call_node))))
     | _ \<Rightarrow> Inl AttributeError)"

definition lift_if_over_call :: rule_matcher where
  "lift_if_over_call = lift_over_call ''lift_if_over_call'' is_if lift_if_build"

text \<open>
  \<open>rename_to_avoid_capture\<close>: the name of a tupled \<open>let\<close> is asked for only when there is an
  expression to compare it with.
\<close>

definition rename_to_avoid_capture :: "binders \<Rightarrow> expr \<Rightarrow> expr list \<Rightarrow> (binders \<times> expr) result" where
  "rename_to_avoid_capture bound_var body exprs_not_to_capture =
     (case bound_var of
        Many xs \<Rightarrow> if exprs_not_to_capture = [] then Inr (bound_var, body) else Inl AttributeError
      | One x \<Rightarrow>
          if list_ex (\<lambda>e. var_name x \<in> free_vars e) exprs_not_to_capture then
            (let nv = make_nonfree_var (var_name x) exprs_not_to_capture (var_type x)
             in bindE (replace_free_vars body [(var_name x, Var nv)]) (\<lambda>body'. Inr (One nv, body')))
          else Inr (bound_var, body))"

definition lift_let_build :: "expr \<Rightarrow> path_elem \<Rightarrow> expr result" where
  "lift_let_build call_node which_arg =
     bindE (pe_get which_arg call_node) (\<lambda>let_node.
     case let_node of
       LetE vs r b t \<Rightarrow>
         bindE (from_expr call_node []) (\<lambda>w.
         bindE (ewp_args w) (\<lambda>was.
         bindE (rename_to_avoid_capture vs b
             (map ewp_expr (filter (\<lambda>wa. ewp_path wa \<noteq> [which_arg]) was))) (\<lambda>(bv, body).
         bindE (replace_subtree call_node [which_arg] body None) (\<lambda>call'.
         mk_let bv r call' (type_of call_node)))))
     | _ \<Rightarrow> Inl AttributeError)"

definition lift_let_over_call :: rule_matcher where
  "lift_let_over_call = lift_over_call ''lift_let_over_call'' is_let lift_let_build"

section \<open>Lifting a conditional\<close>

definition can_evaluate_without_condition :: "expr \<Rightarrow> expr \<Rightarrow> bool \<Rightarrow> bool" where
  "can_evaluate_without_condition e cond cond_value \<longleftrightarrow>
     (case e of Var _ \<Rightarrow> True | Const _ \<Rightarrow> True | _ \<Rightarrow> False)"

text \<open>\<open>x.name\<close> of an expression: only a variable has a name that is a string.\<close>

definition name_of :: "expr \<Rightarrow> string result" where
  "name_of e =
     (case e of Var v \<Rightarrow> Inr (var_name v) | Call _ _ _ \<Rightarrow> Inl Unmodelled | _ \<Rightarrow> Inl AttributeError)"

definition not_free_in :: "expr \<Rightarrow> expr \<Rightarrow> bool result" where
  "not_free_in x e = bindE (name_of x) (\<lambda>n. Inr (n \<notin> free_vars e))"

abbreviation if_sexp :: "sexp \<Rightarrow> sexp \<Rightarrow> sexp \<Rightarrow> sexp" where
  "if_sexp c t f \<equiv> app ''if'' [c, t, f]"

abbreviation assert_sexp :: "sexp \<Rightarrow> sexp \<Rightarrow> sexp" where
  "assert_sexp c b \<equiv> app ''assert'' [c, b]"

definition lift_if_rules :: "(sexp \<times> (subst \<Rightarrow> bool result)) list" where
  "lift_if_rules =
     [(rule_sexp ''lift_if_over_let_rhs'' [(''p'', ''Bool''), (''t'', ''Any''), (''f'', ''Any''), (''e'', ''Any'')]
         (letx ''x'' (if_sexp (Sym ''p'') (Sym ''t'') (Sym ''f'')) (Sym ''e''))
         (if_sexp (Sym ''p'') (letx ''x'' (Sym ''t'') (Sym ''e'')) (letx ''x'' (Sym ''f'') (Sym ''e''))),
       no_condition),
      (rule_sexp ''lift_if_over_if_cond'' [(''p'', ''Bool''), (''t'', ''Bool''), (''f'', ''Bool''), (''x'', ''Any''), (''y'', ''Any'')]
         (if_sexp (if_sexp (Sym ''p'') (Sym ''t'') (Sym ''f'')) (Sym ''x'') (Sym ''y''))
         (if_sexp (Sym ''p'') (if_sexp (Sym ''t'') (Sym ''x'') (Sym ''y'')) (if_sexp (Sym ''f'') (Sym ''x'') (Sym ''y''))),
       no_condition),
      (rule_sexp ''lift_if_over_assert_cond'' [(''p'', ''Bool''), (''t'', ''Bool''), (''f'', ''Bool''), (''body'', ''Any'')]
         (assert_sexp (if_sexp (Sym ''p'') (Sym ''t'') (Sym ''f'')) (Sym ''body''))
         (if_sexp (Sym ''p'') (assert_sexp (Sym ''t'') (Sym ''body'')) (assert_sexp (Sym ''f'') (Sym ''body''))),
       no_condition),
      (rule_sexp ''lift_if_over_assert_body'' [(''cond'', ''Bool''), (''p'', ''Bool''), (''t'', ''Any''), (''f'', ''Any'')]
         (assert_sexp (Sym ''cond'') (if_sexp (Sym ''p'') (Sym ''t'') (Sym ''f'')))
         (if_sexp (Sym ''p'') (assert_sexp (Sym ''cond'') (Sym ''t'')) (assert_sexp (Sym ''cond'') (Sym ''f''))),
       with_keywords [''cond'', ''p'', ''t'', ''f''] (\<lambda>s.
         Inr (can_evaluate_without_condition (arg s ''p'') (arg s ''cond'') True))),
      (rule_sexp ''lift_if_over_let_body'' [(''v'', ''Any''), (''p'', ''Bool''), (''t'', ''Any''), (''f'', ''Any'')]
         (letx ''x'' (Sym ''v'') (if_sexp (Sym ''p'') (Sym ''t'') (Sym ''f'')))
         (if_sexp (Sym ''p'') (letx ''x'' (Sym ''v'') (Sym ''t'')) (letx ''x'' (Sym ''v'') (Sym ''f''))),
       with_keywords [''x'', ''v'', ''p'', ''t'', ''f''] (\<lambda>s. not_free_in (arg s ''x'') (arg s ''p''))),
      (rule_sexp ''lift_if_over_if_true'' [(''p'', ''Bool''), (''q'', ''Bool''), (''t'', ''Any''), (''f'', ''Any''), (''e'', ''Any'')]
         (if_sexp (Sym ''p'') (if_sexp (Sym ''q'') (Sym ''t'') (Sym ''f'')) (Sym ''e''))
         (if_sexp (Sym ''q'') (if_sexp (Sym ''p'') (Sym ''t'') (Sym ''e'')) (if_sexp (Sym ''p'') (Sym ''f'') (Sym ''e''))),
       with_keywords [''p'', ''q'', ''t'', ''f'', ''e''] (\<lambda>s.
         Inr (can_evaluate_without_condition (arg s ''q'') (arg s ''p'') True))),
      (rule_sexp ''lift_if_over_if_false'' [(''p'', ''Bool''), (''q'', ''Bool''), (''t'', ''Any''), (''f'', ''Any''), (''e'', ''Any'')]
         (if_sexp (Sym ''p'') (Sym ''e'') (if_sexp (Sym ''q'') (Sym ''t'') (Sym ''f'')))
         (if_sexp (Sym ''q'') (if_sexp (Sym ''p'') (Sym ''e'') (Sym ''t'')) (if_sexp (Sym ''p'') (Sym ''e'') (Sym ''f''))),
       with_keywords [''p'', ''q'', ''t'', ''f'', ''e''] (\<lambda>s.
         Inr (can_evaluate_without_condition (arg s ''q'') (arg s ''p'') False))),
      (rule_sexp ''lift_if_over_build'' [(''n'', ''Integer''), (''p'', ''Bool''), (''t'', ''Any''), (''f'', ''Any'')]
         (build_i (Sym ''n'') (if_sexp (Sym ''p'') (Sym ''t'') (Sym ''f'')))
         (if_sexp (app ''gt'' [Sym ''n'', Atom (CInt 0)])
            (if_sexp (Sym ''p'') (build_i (Sym ''n'') (Sym ''t'')) (build_i (Sym ''n'') (Sym ''f'')))
            (build_i (Sym ''n'') (if_sexp (Sym ''p'') (Sym ''t'') (Sym ''f'')))),
       with_keywords [''i'', ''n'', ''p'', ''t'', ''f''] (\<lambda>s. not_free_in (arg s ''i'') (arg s ''p'')))]"

section \<open>Lifting a let\<close>

text \<open>\<open>ParsedLetLifter\<close>, which renames the bound variable before the rule is applied.\<close>

definition let_lifter_apply :: "(expr \<Rightarrow> expr \<Rightarrow> bool) \<Rightarrow> parsed_rule \<Rightarrow> ewp \<Rightarrow> subst \<Rightarrow> expr result" where
  "let_lifter_apply same pr w substs =
     (case (map_of substs ''x'', map_of substs ''body'') of
        (Some x, Some body) \<Rightarrow>
          (case x of
             Var v \<Rightarrow>
               bindE (rename_to_avoid_capture (One v) body
                   (map snd (filter (\<lambda>(k, e). k \<notin> {''x'', ''rhs'', ''body''}) substs))) (\<lambda>(bv, body').
               case bv of
                 One v' \<Rightarrow> parsed_apply_at same pr w (AList.update ''body'' body' (AList.update ''x'' (Var v') substs))
               | Many _ \<Rightarrow> Inl Unmodelled)
           | _ \<Rightarrow> Inl Unmodelled)
      | _ \<Rightarrow> Inl KeyError)"

definition parsed_let_lifter :: "(expr \<Rightarrow> expr \<Rightarrow> bool) \<Rightarrow> parsed_rule \<Rightarrow> rule_matcher result" where
  "parsed_let_lifter same pr =
     bindE (assertE (arg_types pr ''rhs'' \<noteq> None)) (\<lambda>_.
     bindE (assertE (arg_types pr ''body'' \<noteq> None)) (\<lambda>_.
     Inr ((parsed_rule_matcher same pr)
       \<lparr>matches_for_possible_expr := parsed_matches same pr (let_lifter_apply same pr)\<rparr>)))"

text \<open>\<open>n == Const(0)\<close>\<close>

definition is_const_int_zero :: "expr \<Rightarrow> bool" where
  "is_const_int_zero e \<longleftrightarrow> (case e of Const c \<Rightarrow> const_eq c (CInt 0) | _ \<Rightarrow> False)"

text \<open>The rules of \<open>lift_let_rules\<close>; the third component tells whether it is a \<open>ParsedLetLifter\<close>.\<close>

abbreviation let_x_rhs :: "sexp \<Rightarrow> sexp" where
  "let_x_rhs body \<equiv> letx ''x'' (Sym ''rhs'') body"

definition lift_let_rules :: "(sexp \<times> (subst \<Rightarrow> bool result) \<times> bool) list" where
  "lift_let_rules =
     [(rule_sexp ''lift_let_over_let_rhs'' [(''rhs'', ''Any''), (''body'', ''Any''), (''outer'', ''Any'')]
         (letx ''y'' (let_x_rhs (Sym ''body'')) (Sym ''outer''))
         (let_x_rhs (letx ''y'' (Sym ''body'') (Sym ''outer''))),
       no_condition, True),
      (rule_sexp ''lift_let_over_let_body'' [(''rhs'', ''Any''), (''body'', ''Any''), (''outer'', ''Any'')]
         (letx ''y'' (Sym ''outer'') (let_x_rhs (Sym ''body'')))
         (let_x_rhs (letx ''y'' (Sym ''outer'') (Sym ''body''))),
       with_keywords [''x'', ''y'', ''rhs'', ''body'', ''outer''] (\<lambda>s. not_free_in (arg s ''y'') (arg s ''rhs'')), True),
      (rule_sexp ''lift_let_over_if_cond'' [(''rhs'', ''Any''), (''body'', ''Bool''), (''t'', ''Any''), (''f'', ''Any'')]
         (if_sexp (let_x_rhs (Sym ''body'')) (Sym ''t'') (Sym ''f''))
         (let_x_rhs (if_sexp (Sym ''body'') (Sym ''t'') (Sym ''f''))),
       no_condition, True),
      (rule_sexp ''lift_let_over_if_true'' [(''p'', ''Bool''), (''rhs'', ''Any''), (''body'', ''Any''), (''f'', ''Any'')]
         (if_sexp (Sym ''p'') (let_x_rhs (Sym ''body'')) (Sym ''f''))
         (let_x_rhs (if_sexp (Sym ''p'') (Sym ''body'') (Sym ''f''))),
       with_keywords [''x'', ''p'', ''rhs'', ''body'', ''f''] (\<lambda>s.
         Inr (can_evaluate_without_condition (arg s ''rhs'') (arg s ''p'') True)), True),
      (rule_sexp ''lift_let_over_if_false'' [(''p'', ''Bool''), (''t'', ''Any''), (''rhs'', ''Any''), (''body'', ''Any'')]
         (if_sexp (Sym ''p'') (Sym ''t'') (let_x_rhs (Sym ''body'')))
         (let_x_rhs (if_sexp (Sym ''p'') (Sym ''t'') (Sym ''body''))),
       with_keywords [''x'', ''p'', ''t'', ''rhs'', ''body''] (\<lambda>s.
         Inr (can_evaluate_without_condition (arg s ''rhs'') (arg s ''p'') False)), True),
      (rule_sexp ''lift_let_over_if_both'' [(''p'', ''Bool''), (''rhs'', ''Any''), (''body'', ''Any''), (''f'', ''Any'')]
         (if_sexp (Sym ''p'') (let_x_rhs (Sym ''body'')) (letx ''y'' (Sym ''rhs'') (Sym ''f'')))
         (let_x_rhs (if_sexp (Sym ''p'') (Sym ''body'') (letx ''y'' (Sym ''x'') (Sym ''f'')))),
       no_condition, True),
      (rule_sexp ''lift_let_over_if_true_dominated'' [(''p'', ''Bool''), (''rhs'', ''Any''), (''body'', ''Any''), (''f'', ''Any'')]
         (let_x_rhs (if_sexp (Sym ''p'') (letx ''y'' (Sym ''rhs'') (Sym ''body'')) (Sym ''f'')))
         (let_x_rhs (if_sexp (Sym ''p'') (letx ''y'' (Sym ''x'') (Sym ''body'')) (Sym ''f''))),
       no_condition, False),
      (rule_sexp ''lift_let_over_if_false_dominated'' [(''p'', ''Bool''), (''rhs'', ''Any''), (''body'', ''Any''), (''t'', ''Any'')]
         (let_x_rhs (if_sexp (Sym ''p'') (Sym ''t'') (letx ''y'' (Sym ''rhs'') (Sym ''body''))))
         (let_x_rhs (if_sexp (Sym ''p'') (Sym ''t'') (letx ''y'' (Sym ''x'') (Sym ''body'')))),
       no_condition, False),
      (rule_sexp ''lift_let_over_assert_cond'' [(''rhs'', ''Any''), (''body'', ''Bool''), (''val'', ''Any'')]
         (assert_sexp (let_x_rhs (Sym ''body'')) (Sym ''val''))
         (let_x_rhs (assert_sexp (Sym ''body'') (Sym ''val''))),
       no_condition, True),
      (rule_sexp ''lift_let_over_assert_body'' [(''cond'', ''Bool''), (''rhs'', ''Any''), (''body'', ''Any'')]
         (assert_sexp (Sym ''cond'') (let_x_rhs (Sym ''body'')))
         (let_x_rhs (assert_sexp (Sym ''cond'') (Sym ''body''))),
       with_keywords [''cond'', ''rhs'', ''body''] (\<lambda>s.
         Inr (can_evaluate_without_condition (arg s ''rhs'') (arg s ''cond'') True)), True),
      (rule_sexp ''lift_let_over_build'' [(''n'', ''Integer''), (''rhs'', ''Any''), (''body'', ''Any'')]
         (build_i (Sym ''n'') (let_x_rhs (Sym ''body'')))
         (if_sexp (app ''gt'' [Sym ''n'', Atom (CInt 0)]) (let_x_rhs (build_i (Sym ''n'') (Sym ''body'')))
            (build_i (Atom (CInt 0)) (let_x_rhs (Sym ''body'')))),
       with_keywords [''i'', ''x'', ''n'', ''rhs'', ''body''] (\<lambda>s.
         bindE (not_free_in (arg s ''i'') (arg s ''rhs'')) (\<lambda>q.
         Inr (q \<and> \<not> is_const_int_zero (arg s ''n'')))), True)]"

section \<open>The rules as matchers\<close>

definition lift_if_matchers :: "(expr \<Rightarrow> expr \<Rightarrow> bool) \<Rightarrow> rule_matcher list result" where
  "lift_if_matchers same =
     bindE (mapE (\<lambda>(s, side). bindE (parse_rule_str [s] side) (\<lambda>pr. Inr (parsed_rule_matcher same pr)))
       lift_if_rules) (\<lambda>rs. Inr (rs @ [lift_if_over_call]))"

definition lift_let_matchers :: "(expr \<Rightarrow> expr \<Rightarrow> bool) \<Rightarrow> rule_matcher list result" where
  "lift_let_matchers same =
     bindE (mapE (\<lambda>(s, side, lifter). bindE (parse_rule_str [s] side) (\<lambda>pr.
         if lifter then parsed_let_lifter same pr else Inr (parsed_rule_matcher same pr))) lift_let_rules) (\<lambda>rs.
     Inr (rs @ [lift_let_over_call]))"

text \<open>\<open>rewrites_prim.index_of_build\<close>\<close>

definition index_of_build_sexp :: sexp where
  "index_of_build_sexp =
     rule_sexp ''index_of_build'' [(''idx'', ''Integer''), (''n'', ''Integer''), (''e'', ''Any'')]
       (app ''index'' [Sym ''idx'', build_i (Sym ''n'') (Sym ''e'')])
       (letx ''i'' (Sym ''idx'') (Sym ''e''))"

section \<open>What a substitution found by matching binds\<close>

fun pattern_names :: "expr \<Rightarrow> string set" where
  "pattern_names (Const c) = {}"
| "pattern_names (Var v) = {var_name v}"
| "pattern_names (Call f as t) = (\<Union>a \<in> set as. pattern_names a)"
| "pattern_names (Lam x s b t) = insert x (pattern_names b)"
| "pattern_names (LetE vs r b t) = set (binder_names vs) \<union> pattern_names r \<union> pattern_names b"
| "pattern_names (IfE c d e t) = pattern_names c \<union> pattern_names d \<union> pattern_names e"
| "pattern_names (Assert c b t) = pattern_names c \<union> pattern_names b"

lemma pattern_names_children:
  "(case e of Var _ \<Rightarrow> False | LetE _ _ _ _ \<Rightarrow> False | Lam _ _ _ _ \<Rightarrow> False | _ \<Rightarrow> True) \<Longrightarrow>
   pattern_names e = (\<Union>c \<in> set (children e). pattern_names c)"
  by (cases e) auto

definition keys_of :: "subst \<Rightarrow> string set" where
  "keys_of s = fst ` set s"

lemma keys_of_simps [simp]:
  "keys_of [] = {}" "keys_of (kv # s) = insert (fst kv) (keys_of s)"
  "keys_of (AList.update k v s) = insert k (keys_of s)"
  by (simp_all add: keys_of_def dom_update)

lemma keys_of_updates [simp]: "keys_of (AList.updates (map fst t) (map snd t) s) = keys_of s \<union> keys_of t"
  by (induction t arbitrary: s) (auto simp: AList.updates_def)

lemma combine_substs_dom:
  "combine_substs same s1 s2 = Inr (Some s) \<Longrightarrow> \<exists>t. s2 = Some t \<and> keys_of s = keys_of s1 \<union> keys_of t"
  by (auto simp: combine_substs_def Let_def split: option.splits if_splits)

lemma combine_children_dom:
  assumes "\<And>t e s. (t, e) \<in> set tes \<Longrightarrow> f t e = Inr (Some s) \<Longrightarrow> keys_of s = N t"
  shows "combine_children same f tes d = Inr (Some s) \<Longrightarrow> keys_of s = keys_of d \<union> (\<Union>(t, e) \<in> set tes. N t)"
  using assms
proof (induction tes arbitrary: d)
  case (Cons te tes)
  obtain t e where te: "te = (t, e)" by (cases te)
  from Cons.prems(1) obtain u d' where u: "f t e = Inr u" "combine_substs same d u = Inr (Some d')"
    "combine_children same f tes d' = Inr (Some s)"
    by (auto simp: te split: option.splits)
  from combine_substs_dom [OF u(2)] obtain v where v: "u = Some v" "keys_of d' = keys_of d \<union> keys_of v"
    by blast
  have "keys_of v = N t" by (rule Cons.prems(2) [of t e]) (use u(1) v(1) te in auto)
  with Cons.IH [OF u(3)] Cons.prems(2) v(2) te show ?case by auto
qed simp

lemma find_template_subst_children:
  assumes "find_template_subst same tmpl e vars = Inr (Some s)"
    and "(case tmpl of Var _ \<Rightarrow> False | LetE _ _ _ _ \<Rightarrow> False | Lam _ _ _ _ \<Rightarrow> False | _ \<Rightarrow> True)"
    and IH: "\<And>t e s. t \<in> set (children tmpl) \<Longrightarrow> find_template_subst same t e vars = Inr (Some s) \<Longrightarrow>
      keys_of s = pattern_names t"
  shows "keys_of s = (\<Union>c \<in> set (children tmpl). pattern_names c)"
proof -
  from assms(1,2) have len: "length (children tmpl) = length (children e)"
    and c: "combine_children same (\<lambda>t e. find_template_subst same t e vars)
      (zip (children tmpl) (children e)) [] = Inr (Some s)"
    by (subst (asm) find_template_subst.simps; cases tmpl; simp add: subexps_no_binds_eq bindE_eq_Inr split: if_splits)+
  have "keys_of s' = pattern_names t'"
    if "(t', e') \<in> set (zip (children tmpl) (children e))" "find_template_subst same t' e' vars = Inr (Some s')"
    for t' e' s'
    using IH that by (blast dest: set_zip_leftD)
  from combine_children_dom [of _ _ pattern_names, OF this c]
  have "keys_of s = (\<Union>(t, e) \<in> set (zip (children tmpl) (children e)). pattern_names t)" by simp
  also have "\<dots> = \<Union> (pattern_names ` fst ` set (zip (children tmpl) (children e)))" by force
  also have "fst ` set (zip (children tmpl) (children e)) = set (children tmpl)"
    using len by (metis map_fst_zip set_map)
  finally show ?thesis .
qed

lemma find_template_subst_dom:
  "find_template_subst same tmpl e vars = Inr (Some s) \<Longrightarrow> keys_of s = pattern_names tmpl"
proof (induction "size tmpl" arbitrary: tmpl e vars s rule: less_induct)
  case less
  have step: "keys_of s = pattern_names tmpl" if "(case tmpl of Var _ \<Rightarrow> False | LetE _ _ _ _ \<Rightarrow> False | Lam _ _ _ _ \<Rightarrow> False | _ \<Rightarrow> True)"
    unfolding pattern_names_children [OF that]
    by (rule find_template_subst_children [OF less.prems that]) (rule less.hyps [OF children_size]; assumption)
  show ?case
  proof (cases tmpl)
    case (Var v)
    with less.prems show ?thesis
      by (subst (asm) find_template_subst.simps) (auto split: option.splits if_splits)
  next
    case (LetE vs r b t)
    with less.prems obtain x y vs' r' b' t' rs s1 bs where x: "vs = One x" "e = LetE vs' r' b' t'"
      and rs: "find_template_subst same r r' vars = Inr rs"
        "combine_substs same [(var_name x, Var y)] rs = Inr (Some s1)"
      and bs: "find_template_subst same b b' (vars(var_name x \<mapsto> type_of r)) = Inr bs"
        "combine_substs same s1 bs = Inr (Some s)"
      by (subst (asm) find_template_subst.simps) (auto split: expr.splits binders.splits option.splits)
    from combine_substs_dom [OF rs(2)] combine_substs_dom [OF bs(2)]
      less.hyps [of r] less.hyps [of b] LetE rs(1) bs(1) x(1) show ?thesis by auto
  next
    case (Lam x u b t)
    with less.prems obtain y s' b' t' bs where e: "e = Lam y s' b' t'"
      and bs: "find_template_subst same b b' (vars(x \<mapsto> Some s')) = Inr bs"
        "combine_substs same [(x, Var (MkVar y (Some s')))] bs = Inr (Some s)"
      by (subst (asm) find_template_subst.simps) (auto split: expr.splits if_splits)
    from combine_substs_dom [OF bs(2)] less.hyps [of b] Lam bs(1) show ?thesis by auto
  qed (use step in simp_all)
qed

section \<open>Properties\<close>

abbreviation lift_if_names :: "string list" where
  "lift_if_names \<equiv>
     [''lift_if_over_let_rhs'', ''lift_if_over_if_cond'', ''lift_if_over_assert_cond'',
       ''lift_if_over_assert_body'', ''lift_if_over_let_body'', ''lift_if_over_if_true'',
       ''lift_if_over_if_false'', ''lift_if_over_build'']"

abbreviation lift_let_names :: "string list" where
  "lift_let_names \<equiv>
     [''lift_let_over_let_rhs'', ''lift_let_over_let_body'', ''lift_let_over_if_cond'',
       ''lift_let_over_if_true'', ''lift_let_over_if_false'', ''lift_let_over_if_both'',
       ''lift_let_over_if_true_dominated'', ''lift_let_over_if_false_dominated'',
       ''lift_let_over_assert_cond'', ''lift_let_over_assert_body'', ''lift_let_over_build'']"

lemma build_rules:
  assumes "list_all2 (\<lambda>x n. \<exists>r. f x = Inr r \<and> rule_name r = n) xs ns"
  shows "\<exists>rs. mapE f xs = Inr rs \<and> map rule_name rs = ns"
  using assms
proof (induction xs arbitrary: ns)
  case (Cons x xs)
  then obtain n ms r where ns: "ns = n # ms" and r: "f x = Inr r" "rule_name r = n"
    and "list_all2 (\<lambda>x n. \<exists>r. f x = Inr r \<and> rule_name r = n) xs ms"
    by (auto simp: list_all2_Cons1)
  from Cons.IH [OF this(4)] obtain rs where "mapE f xs = Inr rs" "map rule_name rs = ms" by blast
  with ns r show ?case by simp
qed simp

lemma parsed_rule_matcher_name [simp]: "rule_name (parsed_rule_matcher same pr) = pr_name pr"
  by (simp add: parsed_rule_matcher_def)

lemma parsed_let_lifter_Inr:
  "arg_types pr ''rhs'' \<noteq> None \<Longrightarrow> arg_types pr ''body'' \<noteq> None \<Longrightarrow>
   \<exists>r. parsed_let_lifter same pr = Inr r \<and> rule_name r = pr_name pr"
  by (simp add: parsed_let_lifter_def)

text \<open>
  C12: The built-in rules are well-formed: the text of every rule parses, its types propagate, the two
  sides have the same type and their free variables are the declared ones, so that each matcher is
  built, and a \<open>ParsedLetLifter\<close> finds the arguments it needs.
\<close>

theorem lift_rules_accepted:
  "(\<exists>rs. lift_if_matchers same = Inr rs \<and> map rule_name rs =
      lift_if_names @ [''lift_if_over_call'']) \<and>
   (\<exists>rs. lift_let_matchers same = Inr rs \<and> map rule_name rs =
      lift_let_names @ [''lift_let_over_call''])"
proof -
  have "list_all2 (\<lambda>(s, side) n. case parse_rule_str [s] side of Inl _ \<Rightarrow> False | Inr pr \<Rightarrow> pr_name pr = n)
      lift_if_rules
      lift_if_names"
    by code_simp
  then have "list_all2 (\<lambda>x n. \<exists>r. (\<lambda>(s, side). bindE (parse_rule_str [s] side) (\<lambda>pr.
        Inr (parsed_rule_matcher same pr))) x = Inr r \<and> rule_name r = n) lift_if_rules
      lift_if_names"
    by (rule list_all2_mono) (auto simp: bindE_def split: sum.splits)
  from build_rules [OF this] have if_rules: ?thesis if "\<exists>rs. lift_let_matchers same = Inr rs \<and> map rule_name rs =
      lift_let_names @ [''lift_let_over_call'']"
    using that by (auto simp: lift_if_matchers_def lift_if_over_call_def lift_over_call_def)
  have "list_all2 (\<lambda>(s, side, lifter) n. case parse_rule_str [s] side of Inl _ \<Rightarrow> False
        | Inr pr \<Rightarrow> pr_name pr = n \<and> arg_types pr ''rhs'' \<noteq> None \<and> arg_types pr ''body'' \<noteq> None)
      lift_let_rules
      lift_let_names"
    by code_simp
  then have "list_all2 (\<lambda>x n. \<exists>r. (\<lambda>(s, side, lifter). bindE (parse_rule_str [s] side) (\<lambda>pr.
        if lifter then parsed_let_lifter same pr else Inr (parsed_rule_matcher same pr))) x = Inr r \<and>
        rule_name r = n) lift_let_rules
      lift_let_names"
    by (rule list_all2_mono) (auto simp: parsed_let_lifter_Inr bindE_def split: sum.splits)
  from build_rules [OF this] show ?thesis
    by (intro if_rules) (auto simp: lift_let_matchers_def lift_let_over_call_def lift_over_call_def)
qed

lemma parse_rule_str_side: "parse_rule_str ses side = Inr pr \<Longrightarrow> pr_side pr = side"
  by (auto simp: parse_rule_str_def rule_of_tld_def mk_parsed_rule_def split: tld.splits prod.splits)

lemma assert_body_template:
  "case parse_rule_str [fst (lift_let_rules ! 9)] (fst (snd (lift_let_rules ! 9))) of
     Inl _ \<Rightarrow> False
   | Inr pr \<Rightarrow> pr_name pr = ''lift_let_over_assert_body'' \<and> ''x'' \<in> pattern_names (pr_template pr)"
  by code_simp

lemma mem_not_mem_neq: "x \<in> A \<Longrightarrow> x \<notin> B \<Longrightarrow> A \<noteq> B"
  by blast

text \<open>
  C27: The rule \<open>lift_let_over_assert_body\<close> raises a \<open>TypeError\<close> wherever its template matches: its side
  condition does not take the bound variable \<open>x\<close>, which every substitution of the template has.
\<close>

theorem lift_let_over_assert_body_raises:
  assumes "parse_rule_str [fst (lift_let_rules ! 9)] (fst (snd (lift_let_rules ! 9))) = Inr pr"
    and "find_template_subst same (pr_template pr) (ewp_expr w) (arg_types pr) = Inr (Some s)"
  shows "pr_name pr = ''lift_let_over_assert_body'' \<and> parsed_matches same pr apply_at w env = Inl TypeError"
proof -
  have name: "pr_name pr = ''lift_let_over_assert_body'' \<and> ''x'' \<in> pattern_names (pr_template pr)"
    using assert_body_template unfolding assms(1) sum.case .
  with find_template_subst_dom [OF assms(2)] have x: "''x'' \<in> set (map fst s)" by (simp only: keys_of_def set_map)
  have "''x'' \<notin> set [''cond'', ''rhs'', ''body'']" by simp
  with x have "set (map fst s) \<noteq> set [''cond'', ''rhs'', ''body'']" by (rule mem_not_mem_neq)
  moreover have "pr_side pr = fst (snd (lift_let_rules ! 9))" by (rule parse_rule_str_side [OF assms(1)])
  ultimately have "pr_side pr s = Inl TypeError"
    by (simp add: lift_let_rules_def with_keywords_def)
  with name show ?thesis by (simp only: parsed_matches_def assms(2) bindE_simps option.case HOL.simp_thms)
qed

definition asserted_let :: expr where
  "asserted_let = Assert (Const (CBool True))
     (LetE (One (MkVar ''z'' (Some Integer))) (Const (CInt 1)) (Var (MkVar ''z'' (Some Integer))) (Some Integer)) (Some Integer)"

theorem lift_let_over_assert_body_raises_witness:
  "\<exists>pr. parse_rule_str [fst (lift_let_rules ! 9)] (fst (snd (lift_let_rules ! 9))) = Inr pr \<and>
    parsed_matches (\<lambda>_ _. False) pr (\<lambda>_ _. Inl KeyError)
      \<lparr>ewp_root = asserted_let, ewp_path = [], ewp_expr = asserted_let\<rparr>
      \<lparr>let_vars = Map.empty, env_defs = Map.empty\<rparr> = Inl TypeError"
proof -
  obtain pr where pr: "parse_rule_str [fst (lift_let_rules ! 9)] (fst (snd (lift_let_rules ! 9))) = Inr pr"
    using assert_body_template by (cases "parse_rule_str [fst (lift_let_rules ! 9)] (fst (snd (lift_let_rules ! 9)))") (simp_all only: sum.case)
  have found: "case parse_rule_str [fst (lift_let_rules ! 9)] (fst (snd (lift_let_rules ! 9))) of
      Inl _ \<Rightarrow> False
    | Inr pr \<Rightarrow> (case find_template_subst (\<lambda>_ _. False) (pr_template pr) asserted_let (arg_types pr) of
        Inr (Some s) \<Rightarrow> True | _ \<Rightarrow> False)"
    by code_simp
  obtain s where "find_template_subst (\<lambda>_ _. False) (pr_template pr) asserted_let (arg_types pr) = Inr (Some s)"
    using found unfolding pr sum.case by (auto split: sum.splits option.splits)
  with pr lift_let_over_assert_body_raises [OF pr, of "\<lambda>_ _. False"
    "\<lparr>ewp_root = asserted_let, ewp_path = [], ewp_expr = asserted_let\<rparr>"] show ?thesis by (metis ewp.select_convs(3))
qed

end
