(* ===== verification/RewriteSound.thy ===== *)
theory RewriteSound
  imports RewriteTraversal RewritesAst
begin

text \<open>
  Soundness of the rewrites: for any interpretation that satisfies the laws of \<open>let_algebra\<close>, every
  match of a rule applies, and applying it refines the expression.
\<close>

section \<open>Replacements keep the form of the nodes\<close>

text \<open>No tupled lets, and calls of admitted functions with admitted numbers of arguments only.\<close>

fun nodes_ok :: "(sname \<Rightarrow> nat \<Rightarrow> bool) \<Rightarrow> expr \<Rightarrow> bool" where
  "nodes_ok ok (Const c) \<longleftrightarrow> True"
| "nodes_ok ok (Var v) \<longleftrightarrow> True"
| "nodes_ok ok (Call f as t) \<longleftrightarrow> ok f (length as) \<and> (\<forall>a \<in> set as. nodes_ok ok a)"
| "nodes_ok ok (Lam x s b t) \<longleftrightarrow> nodes_ok ok b"
| "nodes_ok ok (LetE (One x) r b t) \<longleftrightarrow> nodes_ok ok r \<and> nodes_ok ok b"
| "nodes_ok ok (LetE (Many xs) r b t) \<longleftrightarrow> False"
| "nodes_ok ok (IfE c d e t) \<longleftrightarrow> nodes_ok ok c \<and> nodes_ok ok d \<and> nodes_ok ok e"
| "nodes_ok ok (Assert c b t) \<longleftrightarrow> nodes_ok ok c \<and> nodes_ok ok b"

lemma nodes_ok_untupled: "nodes_ok ok e \<Longrightarrow> is_untupled e"
  by (induction ok e rule: nodes_ok.induct) auto

lemma nodes_ok_LetE [simp]:
  "nodes_ok ok (LetE vs r b t) \<longleftrightarrow> (\<exists>x. vs = One x) \<and> nodes_ok ok r \<and> nodes_ok ok b"
  by (cases vs) auto

lemma nodes_ok_child: "nodes_ok ok e \<Longrightarrow> pe_get pe e = Inr c \<Longrightarrow> nodes_ok ok c"
  by (cases e; cases pe) (auto split: if_splits)

lemma nodes_ok_subexpr: "nodes_ok ok e \<Longrightarrow> subexpr_at e p = Inr c \<Longrightarrow> nodes_ok ok c"
proof (induction p arbitrary: e)
  case (Cons pe p)
  then show ?case by (auto dest: nodes_ok_child)
qed simp

lemma nodes_ok_put_at: "nodes_ok ok e \<Longrightarrow> nodes_ok ok n \<Longrightarrow> nodes_ok ok (put_at e p n)"
  by (induction e p n rule: put_at.induct) (auto simp: set_conv_nth nth_list_update)

lemma subst_ok_upd:
  "rename_if_needed v binder reqs \<sigma> = (nv, \<sigma>') \<Longrightarrow> \<forall>r \<in> snd ` set \<sigma>. nodes_ok ok r \<Longrightarrow>
   \<forall>r \<in> snd ` set \<sigma>'. nodes_ok ok r"
proof -
  assume *: "rename_if_needed v binder reqs \<sigma> = (nv, \<sigma>')" "\<forall>r \<in> snd ` set \<sigma>. nodes_ok ok r"
  have upd: "\<forall>r \<in> snd ` set (AList.update k (Var w) \<sigma>). nodes_ok ok r" for k w
    using *(2) by (induction \<sigma>) auto
  show ?thesis
  proof (cases "list_ex (\<lambda>r. var_name v \<in> free_vars r) (conflicting_binders reqs \<sigma>)")
    case True
    with *(1) upd show ?thesis by (auto simp: rename_if_needed_def Let_def)
  next
    case False
    with * show ?thesis by (auto simp: rename_if_needed_def Let_def dict_filter_def)
  qed
qed

lemma cav_visit_ok:
  "nodes_ok ok e \<Longrightarrow> \<forall>r \<in> snd ` set \<sigma>. nodes_ok ok r \<Longrightarrow>
   \<forall>r \<in> set reqs. nodes_ok ok (req_payload r) \<and> req_applicator r = None \<Longrightarrow>
   cav_visit p e reqs \<sigma> = Inr e' \<Longrightarrow> nodes_ok ok e'"
proof (induction "size e" arbitrary: e p reqs \<sigma> e' rule: less_induct)
  case less
  have IH: "nodes_ok ok c'" if "pe_get pe e = Inr c" "\<forall>r \<in> snd ` set \<sigma>'. nodes_ok ok r"
    "cav_visit (p @ [pe]) c (reqs_here p reqs) \<sigma>' = Inr c'" for pe c c' \<sigma>'
    using less.hyps [OF pe_get_size [OF that(1)] nodes_ok_child [OF less.prems(1) that(1)] that(2) _ that(3)]
      less.prems(3) by simp
  have single: "r \<in> set reqs" if "reqs_here p reqs = [r]" for r
    using that by (metis filter_is_subset list.set_intros(1) subsetD)
  have here: "\<forall>r \<in> snd ` set (subst_here e \<sigma>). nodes_ok ok r"
    using less.prems(2) by (auto simp: dict_filter_def)
  show ?case
    using less.prems(4)
  proof (cases rule: cav_visit_cases)
    case untouched
    with less.prems(1) show ?thesis by simp
  next
    case (payload r)
    with less.prems(3) single show ?thesis by blast
  next
    case (apply_here r f x)
    with less.prems(3) single show ?thesis by fastforce
  next
    case descend
    note e' = descend(2)
    show ?thesis
    proof (cases e)
      case (Const k)
      with e' show ?thesis by (auto simp: cav_descend_def)
    next
      case (Var v)
      with e' here show ?thesis
        by (auto simp: cav_descend_def split: option.splits dest!: map_of_SomeD)
    next
      case (Call f as t)
      with e' obtain bs where bs: "e' = Call f bs t"
        "mapE (\<lambda>(i, a). cav_visit (p @ [CallArg i]) a (reqs_here p reqs) (subst_here e \<sigma>)) (enumerate 0 as) = Inr bs"
        by (auto simp: cav_descend_def mk_call_def)
      have "nodes_ok ok (bs ! i)" if "i < length as" for i
        using bs(2) that IH [of "CallArg i" "as ! i", OF _ here] Call by (auto simp: mapE_enumerate_Inr)
      with bs less.prems(1) Call show ?thesis by (auto simp: mapE_enumerate_Inr in_set_conv_nth)
    next
      case (Lam x s b t)
      obtain nv \<sigma>' where nv: "rename_if_needed (MkVar x (Some s)) e (reqs_here p reqs) (subst_here e \<sigma>) = (nv, \<sigma>')"
        by force
      obtain x' where "nv = MkVar x' (Some s)" using rename_if_needed_cases [OF nv] by metis
      with e' Lam nv obtain b' where "e' = Lam x' s b' t"
        "cav_visit (p @ [lam_body]) b (reqs_here p reqs) \<sigma>' = Inr b'" by (auto simp: cav_descend_def)
      with IH [of lam_body b, OF _ subst_ok_upd [OF nv here]] Lam show ?thesis by simp
    next
      case (LetE vs r b t)
      with less.prems(1) obtain y where y: "vs = One y" by (cases vs) auto
      obtain nv \<sigma>' where nv: "rename_if_needed y e (reqs_here p reqs) (subst_here e \<sigma>) = (nv, \<sigma>')" by force
      with e' LetE y obtain r' b' where "e' = LetE (One nv) r' b' t"
        "cav_visit (p @ [let_rhs]) r (reqs_here p reqs) (subst_here e \<sigma>) = Inr r'"
        "cav_visit (p @ [let_body]) b (reqs_here p reqs) \<sigma>' = Inr b'"
        by (auto simp: cav_descend_def mk_let_def)
      with IH [of let_rhs r, OF _ here] IH [of let_body b, OF _ subst_ok_upd [OF nv here]] LetE
      show ?thesis by simp
    next
      case (IfE c d f t)
      with e' IH [of if_cond c, OF _ here] IH [of if_t_body d, OF _ here] IH [of if_f_body f, OF _ here]
      show ?thesis by (auto simp: cav_descend_def bindE_eq_Inr)
    next
      case (Assert c b t)
      with e' IH [of assert_cond c, OF _ here] IH [of assert_body b, OF _ here]
      show ?thesis by (auto simp: cav_descend_def bindE_eq_Inr)
    qed
  qed
qed

lemma replace_here:
  "is_untupled e \<Longrightarrow> subexpr_at e q = Inr old \<Longrightarrow> f const_zero old = Inr n \<Longrightarrow>
   replace_subtree e q const_zero (Some f) = Inr (put_at e q n)"
  by (simp add: replace_subtree_closed [of const_zero e q old "Some f"] apply_request_def)

section \<open>A variable that its binding let still reaches\<close>

text \<open>
  Replacing an occurrence of a variable by the value the variable has changes nothing, when nothing
  between the start and the occurrence binds the variable again.
\<close>

lemma eval_holes_at_var:
  "is_untupled b \<Longrightarrow> subexpr_at b q = Inr (Var v) \<Longrightarrow> unbound_along (var_name v) b q \<Longrightarrow>
   \<sigma> (var_name v) = u \<Longrightarrow> (\<And>q'. H (p @ q') = (if q' = q then Some (\<lambda>_. u) else None)) \<Longrightarrow>
   eval_holes A H \<sigma> p b = eval A \<sigma> b"
proof (induction q arbitrary: b p \<sigma>)
  case Nil
  then have "H p = Some (\<lambda>_. u)" using Nil.prems(5) [of "[]"] by simp
  with Nil show ?case by (auto simp: eval_holes_hole)
next
  case (Cons pe q)
  then obtain c where c: "pe_get pe b = Inr c" "subexpr_at c q = Inr (Var v)"
    "unbound_along (var_name v) c q" "unbound_step (var_name v) b pe" by auto
  have here: "H p = None" using Cons.prems(5) [of "[]"] by simp
  have child: "eval_holes A H \<sigma>' (p @ [pe]) c = eval A \<sigma>' c" if "\<sigma>' (var_name v) = u" for \<sigma>'
  proof (rule Cons.IH [of c \<sigma>' "p @ [pe]", OF is_untupled_child [OF Cons.prems(1) c(1)] c(2,3) that])
    show "H ((p @ [pe]) @ q') = (if q' = q then Some (\<lambda>_. u) else None)" for q'
      using Cons.prems(5) [of "pe # q'"] by simp
  qed
  have other: "eval_holes A H \<sigma>' (p @ [pe']) c' = eval A \<sigma>' c'" if "pe' \<noteq> pe" for \<sigma>' pe' c'
    by (rule eval_holes_no_holes) (use Cons.prems(5) that in \<open>simp add: no_holes_def\<close>)
  show ?case
  proof (cases b)
    case (Call f as t)
    with c(1) obtain i where i: "pe = CallArg i" "i < length as" "c = as ! i"
      by (cases pe) (auto split: if_splits)
    have "map (\<lambda>(i, a). eval_holes A H \<sigma> (p @ [CallArg i]) a) (enumerate 0 as) = map (eval A \<sigma>) as"
    proof (rule nth_equalityI)
      fix j
      assume "j < length (map (\<lambda>(i, a). eval_holes A H \<sigma> (p @ [CallArg i]) a) (enumerate 0 as))"
      then show "map (\<lambda>(i, a). eval_holes A H \<sigma> (p @ [CallArg i]) a) (enumerate 0 as) ! j = map (eval A \<sigma>) as ! j"
        using child [of \<sigma>, OF Cons.prems(4)] other [of "CallArg j"] i by (cases "j = i") (auto simp: nth_enumerate_eq)
    qed simp
    then show ?thesis by (simp add: Call eval_holes_step here)
  next
    case (LetE vs r d t)
    with Cons.prems(1) obtain y where y: "vs = One y" by (cases vs) auto
    from LetE c(1) consider "pe = let_rhs" "c = r" | "pe = let_body" "c = d" by (cases pe) auto
    then show ?thesis
    proof cases
      case 1
      then have "eval_holes A H \<sigma> (p @ [let_rhs]) r = eval A \<sigma> r" using child [of \<sigma>, OF Cons.prems(4)] by simp
      moreover have "eval_holes A H \<sigma>' (p @ [let_body]) d = eval A \<sigma>' d" for \<sigma>' using other 1 by simp
      ultimately show ?thesis by (simp add: LetE y eval_holes_step here)
    next
      case 2
      then have "var_name v \<noteq> var_name y" using c(4) LetE y by (simp add: unbound_step_def)
      then have "(\<sigma>(var_name y := w)) (var_name v) = u" for w using Cons.prems(4) by simp
      then have "eval_holes A H (\<sigma>(var_name y := w)) (p @ [let_body]) d = eval A (\<sigma>(var_name y := w)) d" for w
        using child 2 by blast
      moreover have "eval_holes A H \<sigma> (p @ [let_rhs]) r = eval A \<sigma> r" using other 2 by simp
      ultimately show ?thesis by (simp only: LetE y eval_holes_step here eval.simps)
    qed
  next
    case (Lam y s d t)
    with c(1) have pe: "pe = lam_body" "c = d" by (cases pe; simp)+
    then have "var_name v \<noteq> y" using c(4) Lam by (simp add: unbound_step_def)
    then have "(\<sigma>(y := w)) (var_name v) = u" for w using Cons.prems(4) by simp
    then have "eval_holes A H (\<sigma>(y := w)) (p @ [lam_body]) d = eval A (\<sigma>(y := w)) d" for w
      using child pe by blast
    then show ?thesis by (simp only: Lam eval_holes_step here eval.simps)
  next
    case (IfE c1 d e t)
    with c(1) consider "pe = if_cond" "c = c1" | "pe = if_t_body" "c = d" | "pe = if_f_body" "c = e"
      by (cases pe) auto
    then show ?thesis
      by cases (use child [of \<sigma>, OF Cons.prems(4)] other in \<open>simp_all add: IfE eval_holes_step here\<close>)
  next
    case (Assert c1 d t)
    with c(1) consider "pe = assert_cond" "c = c1" | "pe = assert_body" "c = d" by (cases pe) auto
    then show ?thesis
      by cases (use child [of \<sigma>, OF Cons.prems(4)] other in \<open>simp_all add: Assert eval_holes_step here\<close>)
  qed (use c in \<open>cases pe; simp\<close>)+
qed

section \<open>Sound rules\<close>

text \<open>
  A rule is sound for a relation on expressions when its search returns at every node the traversal
  reaches, and every match can be applied and leads to a related expression without tupled lets.
\<close>

definition applies_soundly :: "(expr \<Rightarrow> expr \<Rightarrow> bool) \<Rightarrow> (sname \<Rightarrow> nat \<Rightarrow> bool) \<Rightarrow> expr \<Rightarrow> match \<Rightarrow> bool" where
  "applies_soundly R ok e m \<longleftrightarrow> (\<exists>e'. m_apply m = Inr e' \<and> R e e' \<and> nodes_ok ok e')"

definition rule_sound :: "(expr \<Rightarrow> expr \<Rightarrow> bool) \<Rightarrow> (sname \<Rightarrow> nat \<Rightarrow> bool) \<Rightarrow> (sname \<rightharpoonup> var list \<times> expr) \<Rightarrow> rule_matcher \<Rightarrow> bool" where
  "rule_sound R ok defs r \<longleftrightarrow>
     (\<forall>e w env. nodes_ok ok e \<longrightarrow> reached e defs w env \<longrightarrow>
        (\<exists>ms. rule_matches_here r w env = Inr ms \<and> (\<forall>m \<in> set ms. applies_soundly R ok e m)))"

lemma rule_sound_matches:
  assumes "rule_sound R ok defs r" "nodes_ok ok e"
  obtains ms where "find_all_matches (rule_matches_here r) e defs = Inr ms"
    "\<forall>m \<in> set ms. applies_soundly R ok e m"
proof -
  let ?w = "\<lparr>ewp_root = e, ewp_path = [], ewp_expr = e\<rparr>"
  have "\<exists>ms. matches_with_env (rule_matches_here r) ?w \<lparr>let_vars = Map.empty, env_defs = defs\<rparr> = Inr ms"
    by (rule matches_with_env_total [of e defs _ ?w, OF _ _ reached_root])
      (use assms nodes_ok_untupled in \<open>fastforce simp: rule_sound_def\<close>)+
  then obtain ms where ms: "find_all_matches (rule_matches_here r) e defs = Inr ms"
    by (auto simp: find_all_matches_def from_expr_def)
  moreover have "applies_soundly R ok e m" if "m \<in> set ms" for m
    using find_all_matches_reached [OF ms that] assms unfolding rule_sound_def by fastforce
  ultimately show thesis using that by blast
qed

text \<open>A sequence of rewrites by sound rules: each expression is related to the next.\<close>

lemma rewrite_seq_sound:
  assumes "\<And>name r. rule name = Some r \<Longrightarrow> rule_sound R ok defs r"
  shows "rewrite_seq_to_exprs rule defs e steps = Inr es \<Longrightarrow> nodes_ok ok e \<Longrightarrow>
    (\<forall>i < length es. R ((e # es) ! i) (es ! i)) \<and> list_all (nodes_ok ok) es"
proof (induction steps arbitrary: e es)
  case (Cons step steps)
  then obtain e' es' where e': "rewrite_step rule defs e step = Inr e'"
    and es': "rewrite_seq_to_exprs rule defs e' steps = Inr es'" "es = e' # es'" by auto
  from e' obtain path r ms where r: "rule (fst step) = Some r"
    and ms: "find_all_matches (rule_matches_here r) e defs = Inr ms"
    and found: "(case filter (\<lambda>m. ewp_path (m_ewp m) = path) ms of
       [] \<Rightarrow> Inl ValueError
     | [m] \<Rightarrow> bindE (assertE (m_rule m = fst step)) (\<lambda>_. m_apply m)
     | _ \<Rightarrow> Inl AssertionError) = Inr e'"
    by (auto simp: rewrite_step_def split: option.splits)
  from found obtain m where m: "filter (\<lambda>m. ewp_path (m_ewp m) = path) ms = [m]" "m_apply m = Inr e'"
    by (cases "filter (\<lambda>m. ewp_path (m_ewp m) = path) ms" rule: remdups_adj.cases) auto
  from m(1) have "m \<in> set ms" by (metis filter_is_subset list.set_intros(1) subsetD)
  with rule_sound_matches [OF assms [OF r] Cons.prems(2)] ms have "applies_soundly R ok e m" by (metis sum.inject(2))
  with m(2) have step: "R e e'" "nodes_ok ok e'" by (auto simp: applies_soundly_def)
  from Cons.IH [OF es'(1) step(2)] step show ?case
    by (auto simp: es'(2) nth_Cons split: nat.split)
qed simp

context let_algebra
begin

lemma inline_let_refines:
  assumes "replace_free_vars b [(var_name y, r)] = Inr n" "is_untupled b"
  shows "refines (LetE (One y) r b t) n"
proof (rule refinesI)
  fix \<rho>
  obtain n' where "replace_free_vars b [(var_name y, r)] = Inr n'"
    "eval A \<rho> n' = eval A (sub_env A \<rho> [(var_name y, r)]) b"
    using cav_visit_total [OF assms(2)] cav_visit_sem [OF assms(2), of "[]" A "\<lambda>_ _ v. v"]
    by (force simp: replace_free_vars_def eval_holes_no_holes [OF holes_of_Nil])
  moreover have "sub_env A \<rho> [(var_name y, r)] = \<rho>(var_name y := eval A \<rho> r)"
    by (auto simp: sub_env_def)
  ultimately show "le (eval A \<rho> (LetE (One y) r b t)) (eval A \<rho> n)"
    using assms(1) let_body [of "eval A \<rho> r" "\<lambda>v. eval A (\<rho>(var_name y := v)) b"] by simp
qed

lemma inline_occurrence_equivalent:
  assumes un: "is_untupled (LetE (One y) r b t)" and q: "subexpr_at b q = Inr (Var v)"
    and v: "var_name v = var_name y" "unbound_along (var_name y) b q"
    and n: "replace_subtree (LetE (One y) r b t) (let_body # q) r None = Inr n"
  shows "equivalent A n (LetE (One y) r b t)"
  unfolding equivalent_def
proof
  fix \<rho>
  let ?req = "\<lparr>req_target = let_body # q, req_payload = r, req_applicator = None\<rparr>"
  let ?H = "holes_of A (\<lambda>_ u _. u) \<rho> [?req]"
  have H: "?H p = (if p = let_body # q then Some (\<lambda>_. eval A \<rho> r) else None)" for p
    by (auto simp: holes_of_def)
  have "cav_visit [] (LetE (One y) r b t) [?req] [] = Inr n"
    using n by (simp add: replace_subtree_def replace_subtrees_def)
  from cav_visit_sem [OF un _ this, of A "\<lambda>_ u _. u" \<rho>]
  have "eval A \<rho> n = eval_holes A ?H \<rho> [] (LetE (One y) r b t)" by (simp add: realizes_def)
  also have "\<dots> = a_let A (eval A \<rho> r) (\<lambda>w. eval_holes A ?H (\<rho>(var_name y := w)) [let_body] b)"
  proof -
    have "eval_holes A ?H \<rho> [let_rhs] r = eval A \<rho> r"
      by (rule eval_holes_no_holes) (simp add: no_holes_def H)
    then show ?thesis by (simp add: eval_holes_step H)
  qed
  also have "\<dots> = a_let A (eval A \<rho> r) (\<lambda>w. eval A (\<rho>(var_name y := w)) b)"
  proof (rule let_at, rule eval_holes_at_var [OF _ q])
    show "is_untupled b" using un by simp
    show "unbound_along (var_name v) b q" using v by simp
    show "(\<rho>(var_name y := eval A \<rho> r)) (var_name v) = eval A \<rho> r" using v(1) by simp
    show "?H ([let_body] @ q') = (if q' = q then Some (\<lambda>_. eval A \<rho> r) else None)" for q'
      by (simp add: H)
  qed
  finally show "eval A \<rho> n = eval A \<rho> (LetE (One y) r b t)" by simp
qed

lemma delete_let_sound: "rule_sound refines ok defs delete_let"
  unfolding rule_sound_def
proof (intro allI impI)
  fix e w env
  assume un: "nodes_ok ok e" and w: "reached e defs w env"
  note at_w = reached_at [OF w]
  then have un_w: "nodes_ok ok (ewp_expr w)" using nodes_ok_subexpr un by blast
  show "\<exists>ms. rule_matches_here delete_let w env = Inr ms \<and> (\<forall>m \<in> set ms. applies_soundly refines ok e m)"
  proof (cases "term_in (get_filter_term (ewp_expr w)) [FClass ''Let'']")
    case True
    then obtain vs r b t where l: "ewp_expr w = LetE vs r b t"
      by (cases "ewp_expr w") (auto simp: term_in_def)
    then obtain x where x: "ewp_expr w = LetE (One x) r b t" using un_w by (cases vs) auto
    have "applies_soundly refines ok e \<lparr>m_rule = ''delete_let'', m_ewp = w, m_apply =
        replace_subtree (ewp_root w) (ewp_path w) const_zero (Some (delete_let_here (ewp_expr w)))\<rparr>"
      if "var_name x \<notin> free_vars b"
    proof -
      have "delete_let_here (ewp_expr w) const_zero (ewp_expr w) = Inr b"
        using that by (simp add: delete_let_here_def is_const_zero_def is_nan_def x)
      from replace_here [of _ _ _ "delete_let_here (ewp_expr w)", OF nodes_ok_untupled [OF un] _ this] at_w
      have "replace_subtree (ewp_root w) (ewp_path w) const_zero (Some (delete_let_here (ewp_expr w))) =
        Inr (put_at e (ewp_path w) b)" by simp
      moreover have "refines e (put_at e (ewp_path w) b)"
        using refines_put_at refines_unused_let [OF that] at_w x by metis
      moreover have "nodes_ok ok (put_at e (ewp_path w) b)"
        using un un_w x by (simp add: nodes_ok_put_at)
      ultimately show ?thesis by (simp add: applies_soundly_def)
    qed
    then show ?thesis
      using True by (simp add: rule_matches_here_def delete_let_def x)
  qed (simp add: rule_matches_here_def delete_let_def)
qed

lemma inline_var_sound: "rule_sound refines ok defs inline_var"
  unfolding rule_sound_def
proof (intro allI impI)
  fix e w env
  assume un: "nodes_ok ok e" and w: "reached e defs w env"
  note at_w = reached_at [OF w]
  show "\<exists>ms. rule_matches_here inline_var w env = Inr ms \<and> (\<forall>m \<in> set ms. applies_soundly refines ok e m)"
  proof (cases "term_in (get_filter_term (ewp_expr w)) [FClass ''Var'']")
    case True
    then obtain v where v: "ewp_expr w = Var v"
      by (cases "ewp_expr w") (auto simp: term_in_def)
    have "applies_soundly refines ok e \<lparr>m_rule = ''inline_var'', m_ewp = w, m_apply = inline_var_apply w p\<rparr>"
      if p: "let_vars env (var_name v) = Some p" for p
    proof -
      from reached_binds [OF w p] v obtain q y r b t where q: "ewp_path w = p @ let_body # q"
        "subexpr_at e p = Inr (LetE (One y) r b t)" "var_name y = var_name v"
        "subexpr_at b q = Inr (Var v)" "unbound_along (var_name v) b q"
        unfolding binds_at_def by auto
      let ?l = "LetE (One y) r b t"
      have ok_l: "nodes_ok ok ?l" using nodes_ok_subexpr un q(2) by blast
      then have un_l: "is_untupled ?l" by (rule nodes_ok_untupled)
      obtain n where n: "replace_subtree ?l (let_body # q) r None = Inr n"
        using cav_visit_returns [OF un_l, of "[\<lparr>req_target = let_body # q, req_payload = r, req_applicator = None\<rparr>]"]
        by (auto simp: replace_subtree_def replace_subtrees_def separate_targets_def applicable_def)
      have "inline_var_apply w p = Inr (put_at e p n)"
        using replace_here [of e p ?l "\<lambda>zero l. bindE (let_rhs_of l) (\<lambda>rhs.
          replace_subtree l (drop (length p) (ewp_path w)) rhs None)" n] nodes_ok_untupled [OF un] q n at_w
        by (simp add: inline_var_apply_def)
      moreover have "refines e (put_at e p n)"
        using inline_occurrence_equivalent [OF un_l q(4) q(3) [symmetric] _ n] q(3,5)
        by (intro refines_put_at [OF q(2)] equivalent_refines) (simp add: equivalent_def)
      moreover have "nodes_ok ok n"
        using n ok_l unfolding replace_subtree_def replace_subtrees_def
        by (intro cav_visit_ok [OF ok_l]) auto
      ultimately show ?thesis using un by (simp add: applies_soundly_def nodes_ok_put_at)
    qed
    then show ?thesis
      using True by (simp add: rule_matches_here_def inline_var_def v split: option.split)
  qed (simp add: rule_matches_here_def inline_var_def)
qed

end

section \<open>Rules that inline and lift\<close>

lemma replace_arg:
  assumes "i < length as"
  shows "replace_subtree (Call f as t) [CallArg i] r None = Inr (Call f (as[i := r]) t)"
proof -
  let ?q = "\<lparr>req_target = [CallArg i], req_payload = r, req_applicator = None\<rparr>"
  have "cav_visit [CallArg j] (as ! j) [?q] [] = Inr (as[i := r] ! j)" if "j < length as" for j
  proof (cases "j = i")
    case True
    with assms show ?thesis by (subst cav_visit_here) simp_all
  next
    case False
    then show ?thesis using cav_visit_elsewhere [of "[CallArg j]" ?q "as ! j"] by simp
  qed
  then have "mapE (\<lambda>(j, a). cav_visit [CallArg j] a [?q] []) (enumerate 0 as) = Inr (as[i := r])"
    by (simp add: mapE_enumerate_Inr)
  moreover have "cav_visit [] (Call f as t) [?q] [] = cav_descend [] (Call f as t) [?q] []"
    using cav_visit_descend [of "[]" "[?q]" "Call f as t" "[]"] by (simp add: dict_filter_def)
  ultimately show ?thesis
    by (simp add: replace_subtree_def replace_subtrees_def cav_descend_def mk_call_def)
qed

lemma ewp_args_Call:
  "ewp_expr w = Call f as t \<Longrightarrow>
   ewp_args w = Inr (map (\<lambda>i. \<lparr>ewp_root = ewp_root w, ewp_path = ewp_path w @ [CallArg i], ewp_expr = as ! i\<rparr>)
     [0..<length as])"
  by (simp add: ewp_get_def) (rule mapE_total, simp)

text \<open>
  The laws of a strict call: an argument that is a conditional or a \<open>let\<close> is computed before the call,
  so what it branches on or binds may be computed before.
\<close>

locale strict_algebra = let_algebra +
  fixes strict :: "sname \<Rightarrow> nat \<Rightarrow> bool"
  assumes call_if: "strict f (length vs) \<Longrightarrow> i < length vs \<Longrightarrow>
      le (a_call A f (vs[i := a_if A c u v])) (a_if A c (a_call A f (vs[i := u])) (a_call A f (vs[i := v])))"
    and call_let: "strict f (length vs) \<Longrightarrow> i < length vs \<Longrightarrow>
      le (a_call A f (vs[i := a_let A r k])) (a_let A r (\<lambda>u. a_call A f (vs[i := k u])))"

context let_algebra
begin

lemma inline_let_sound: "rule_sound refines ok defs inline_let"
  unfolding rule_sound_def
proof (intro allI impI)
  fix e w env
  assume un: "nodes_ok ok e" and w: "reached e defs w env"
  note at_w = reached_at [OF w]
  then have ok_w: "nodes_ok ok (ewp_expr w)" using nodes_ok_subexpr un by blast
  show "\<exists>ms. rule_matches_here inline_let w env = Inr ms \<and> (\<forall>m \<in> set ms. applies_soundly refines ok e m)"
  proof (cases "term_in (get_filter_term (ewp_expr w)) [FClass ''Let'']")
    case True
    then obtain vs r b t where l: "ewp_expr w = LetE vs r b t"
      by (cases "ewp_expr w") (auto simp: term_in_def)
    then obtain x where x: "ewp_expr w = LetE (One x) r b t" using ok_w by (cases vs) auto
    with ok_w have ok_b: "nodes_ok ok b" "nodes_ok ok r" by auto
    obtain n where n: "replace_free_vars b [(var_name x, r)] = Inr n"
      using cav_visit_total [OF nodes_ok_untupled [OF ok_b(1)], of "[]"] unfolding replace_free_vars_def by blast
    then have "inline_let_here (ewp_expr w) const_zero (ewp_expr w) = Inr n"
      by (simp add: inline_let_here_def is_const_zero_def is_nan_def x)
    from replace_here [of _ _ _ "inline_let_here (ewp_expr w)", OF nodes_ok_untupled [OF un] _ this] at_w
    have "replace_subtree (ewp_root w) (ewp_path w) const_zero (Some (inline_let_here (ewp_expr w))) =
      Inr (put_at e (ewp_path w) n)" by simp
    moreover have "refines e (put_at e (ewp_path w) n)"
      using refines_put_at inline_let_refines [OF n nodes_ok_untupled [OF ok_b(1)]] at_w x by metis
    moreover have "nodes_ok ok n"
      using n ok_b unfolding replace_free_vars_def by (intro cav_visit_ok [OF ok_b(1)]) auto
    ultimately have "applies_soundly refines ok e \<lparr>m_rule = ''inline_let'', m_ewp = w, m_apply =
        replace_subtree (ewp_root w) (ewp_path w) const_zero (Some (inline_let_here (ewp_expr w)))\<rparr>"
      using un by (simp add: applies_soundly_def nodes_ok_put_at)
    then show ?thesis
      using True by (simp add: rule_matches_here_def inline_let_def l)
  qed (simp add: rule_matches_here_def inline_let_def)
qed

text \<open>
  A rule that lifts an argument over a call is sound when what it builds refines the call. The
  match is located at the argument, the replacement at the call.
\<close>

lemma lift_over_call_sound:
  assumes "\<And>f as t i. nodes_ok ok (Call f as t) \<Longrightarrow> i < length as \<Longrightarrow> liftable (as ! i) \<Longrightarrow>
    \<exists>n. build (Call f as t) (CallArg i) = Inr n \<and> refines (Call f as t) n \<and> nodes_ok ok n"
  shows "rule_sound refines ok defs (lift_over_call name liftable build)"
  unfolding rule_sound_def
proof (intro allI impI)
  fix e w env
  assume un: "nodes_ok ok e" and w: "reached e defs w env"
  note at_w = reached_at [OF w]
  then have ok_w: "nodes_ok ok (ewp_expr w)" using nodes_ok_subexpr un by blast
  show "\<exists>ms. rule_matches_here (lift_over_call name liftable build) w env = Inr ms \<and>
    (\<forall>m \<in> set ms. applies_soundly refines ok e m)"
  proof (cases "ewp_expr w")
    case (Call f as t)
    let ?arg = "\<lambda>i. \<lparr>ewp_root = ewp_root w, ewp_path = ewp_path w @ [CallArg i], ewp_expr = as ! i\<rparr>"
    have "applies_soundly refines ok e \<lparr>m_rule = name, m_ewp = ?arg i, m_apply = lift_apply build (?arg i)\<rparr>"
      if i: "i < length as" "liftable (as ! i)" for i
    proof -
      from assms [of f as t i] ok_w i Call obtain n where
        n: "build (Call f as t) (CallArg i) = Inr n" "refines (Call f as t) n" "nodes_ok ok n" by auto
      have "lift_apply build (?arg i) = Inr (put_at e (ewp_path w) n)"
        using replace_here [of e "ewp_path w" "Call f as t" "\<lambda>zero c. build c (CallArg i)" n]
          nodes_ok_untupled [OF un] at_w Call n by (simp add: lift_apply_def)
      moreover have "refines e (put_at e (ewp_path w) n)"
        using refines_put_at n(2) at_w Call by metis
      ultimately show ?thesis using n(3) un by (simp add: applies_soundly_def nodes_ok_put_at)
    qed
    then show ?thesis
      by (auto simp: rule_matches_here_def lift_over_call_def Call term_in_def ewp_args_Call [OF Call]
          simp del: ewp_args.simps)
  qed (auto simp: rule_matches_here_def lift_over_call_def term_in_def)
qed

end

context strict_algebra
begin

lemma call_if_refines:
  assumes "strict f (length as)" "i < length as" "as ! i = IfE c d e t'"
  shows "refines (Call f as t) (IfE c (Call f (as[i := d]) t1) (Call f (as[i := e]) t2) t3)"
proof (rule refinesI)
  fix \<rho>
  let ?vs = "map (eval A \<rho>) as"
  have "map (eval A \<rho>) as = ?vs[i := a_if A (eval A \<rho> c) (eval A \<rho> d) (eval A \<rho> e)]"
    using assms(2,3) by (metis eval.simps(7) length_map list_update_id nth_map)
  then show "le (eval A \<rho> (Call f as t)) (eval A \<rho> (IfE c (Call f (as[i := d]) t1) (Call f (as[i := e]) t2) t3))"
    using call_if [of f ?vs i "eval A \<rho> c" "eval A \<rho> d" "eval A \<rho> e"] assms(1,2) by (simp add: map_update)
qed

lemma lift_if_over_call_sound:
  assumes strict: "\<And>f n. ok f n \<Longrightarrow> strict f n"
  shows "rule_sound refines ok defs lift_if_over_call"
  unfolding lift_if_over_call_def
proof (rule lift_over_call_sound)
  fix f as t i
  assume ok: "nodes_ok ok (Call f as t)" and i: "i < length as" "is_if (as ! i)"
  then obtain c d e t' where e: "as ! i = IfE c d e t'" by (cases "as ! i") (auto simp: is_if_def)
  then have "lift_if_build (Call f as t) (CallArg i) = Inr (IfE c (Call f (as[i := d]) t) (Call f (as[i := e]) t) t)"
    using i by (simp add: lift_if_build_def replace_arg)
  moreover have "nodes_ok ok (as ! i)" using ok i by simp
  then have "nodes_ok ok (IfE c (Call f (as[i := d]) t) (Call f (as[i := e]) t) t)"
    using ok e by (auto simp: dest!: subsetD [OF set_update_subset_insert])
  ultimately show "\<exists>n. lift_if_build (Call f as t) (CallArg i) = Inr n \<and> refines (Call f as t) n \<and> nodes_ok ok n"
    using call_if_refines [OF _ i(1) e] ok strict by auto
qed

end

section \<open>Lifting a let over a call\<close>

text \<open>
  The new name that \<open>rename_to_avoid_capture\<close> chooses is fresh for the other arguments, but may be
  free in the body of the \<open>let\<close>. The lifting is sound when it is not.
\<close>

definition other_args :: "expr list \<Rightarrow> nat \<Rightarrow> expr list" where
  "other_args as i = map ((!) as) (filter (\<lambda>j. j \<noteq> i) [0..<length as])"

lemma set_other_args: "set (other_args as i) = {as ! j | j. j < length as \<and> j \<noteq> i}"
  by (auto simp: other_args_def)

definition lift_let_safe :: "var \<Rightarrow> expr \<Rightarrow> expr list \<Rightarrow> bool" where
  "lift_let_safe x b es \<longleftrightarrow>
     (\<exists>e \<in> set es. var_name x \<in> free_vars e) \<longrightarrow>
       var_name (make_nonfree_var (var_name x) es (var_type x)) \<notin> free_vars b"

lemma lift_let_build_let:
  assumes i: "i < length as" and l: "as ! i = LetE vs r b t'"
  shows "lift_let_build (Call f as t) (CallArg i) =
    bindE (rename_to_avoid_capture vs b (other_args as i)) (\<lambda>(bv, body).
    mk_let bv r (Call f (as[i := body]) t) t)"
proof -
  let ?w = "\<lparr>ewp_root = Call f as t, ewp_path = [], ewp_expr = Call f as t\<rparr>"
  have "map ewp_expr (filter (\<lambda>wa. ewp_path wa \<noteq> [CallArg i])
      (map (\<lambda>i. \<lparr>ewp_root = ewp_root ?w, ewp_path = ewp_path ?w @ [CallArg i], ewp_expr = as ! i\<rparr>) [0..<length as])) =
    other_args as i"
    by (simp add: filter_map comp_def other_args_def)
  with i l show ?thesis
    unfolding lift_let_build_def
    by (simp add: from_expr_def ewp_args_Call [of ?w] replace_arg split_def del: ewp_args.simps)
qed

context strict_algebra
begin

lemma call_let_refines:
  assumes st: "strict f (length as)" and i: "i < length as" "as ! i = LetE (One x) r b t'"
    and nf: "\<And>e. e \<in> set (other_args as i) \<Longrightarrow> var_name y \<notin> free_vars e"
    and same: "\<And>\<rho> u. eval A (\<rho>(var_name y := u)) b' = eval A (\<rho>(var_name x := u)) b"
  shows "refines (Call f as t) (LetE (One y) r (Call f (as[i := b']) t1) t2)"
proof (rule refinesI)
  fix \<rho>
  let ?vs = "map (eval A \<rho>) as" and ?k = "\<lambda>u. eval A (\<rho>(var_name x := u)) b"
  have "?vs[i := a_let A (eval A \<rho> r) ?k] = ?vs"
    using i by (metis eval.simps(5) list_update_id nth_map)
  moreover have "map (eval A (\<rho>(var_name y := u))) (as[i := b']) = ?vs[i := ?k u]" for u
  proof (rule nth_equalityI)
    fix j
    assume "j < length (map (eval A (\<rho>(var_name y := u))) (as[i := b']))"
    then show "map (eval A (\<rho>(var_name y := u))) (as[i := b']) ! j = ?vs[i := ?k u] ! j"
      using same nf [of "as ! j"] by (cases "j = i") (auto simp: set_other_args intro!: eval_upd_notin)
  qed simp
  ultimately show "le (eval A \<rho> (Call f as t)) (eval A \<rho> (LetE (One y) r (Call f (as[i := b']) t1) t2))"
    using call_let [of f ?vs i "eval A \<rho> r" ?k] st i(1) by simp
qed

lemma lift_let_build_sound:
  assumes strict: "\<And>f n. ok f n \<Longrightarrow> strict f n"
    and ok: "nodes_ok ok (Call f as t)" and i: "i < length as" "as ! i = LetE (One x) r b t'"
    and safe: "lift_let_safe x b (other_args as i)"
  shows "\<exists>n. lift_let_build (Call f as t) (CallArg i) = Inr n \<and> refines (Call f as t) n \<and> nodes_ok ok n"
proof -
  have ok_l: "nodes_ok ok (as ! i)" using ok i(1) by simp
  then have ok_b: "nodes_ok ok r" "nodes_ok ok b" using i(2) by auto
  have ok_upd: "nodes_ok ok (LetE (One y) r (Call f (as[i := b']) t) t)" if "nodes_ok ok b'" for y b'
    using that ok ok_b by (auto dest!: subsetD [OF set_update_subset_insert])
  show ?thesis
  proof (cases "\<exists>e \<in> set (other_args as i). var_name x \<in> free_vars e")
    case False
    then have "lift_let_build (Call f as t) (CallArg i) = Inr (LetE (One x) r (Call f (as[i := b]) t) t)"
      by (simp add: lift_let_build_let [OF i] rename_to_avoid_capture_def mk_let_def list_ex_iff)
    with call_let_refines [OF _ i, where y = x and b' = b] False ok strict ok_upd [OF ok_b(2)] show ?thesis by auto
  next
    case True
    let ?nv = "make_nonfree_var (var_name x) (other_args as i) (var_type x)"
    from True safe have nv: "var_name ?nv \<notin> free_vars b" by (simp add: lift_let_safe_def)
    obtain b' where b': "replace_free_vars b [(var_name x, Var ?nv)] = Inr b'"
      using cav_visit_total [OF nodes_ok_untupled [OF ok_b(2)], of "[]"] unfolding replace_free_vars_def by blast
    have ev: "eval A \<rho> b' = eval A (sub_env A \<rho> [(var_name x, Var ?nv)]) b" for \<rho>
      using cav_visit_sem [OF nodes_ok_untupled [OF ok_b(2)], of "[]" A "\<lambda>_ _ v. v" "[]" _ b' \<rho>] b'
      by (simp add: replace_free_vars_def eval_holes_no_holes [OF holes_of_Nil])
    have "eval A (\<rho>(var_name ?nv := u)) b' = eval A (\<rho>(var_name x := u)) b" for \<rho> u
      unfolding ev by (rule eval_cong) (use nv in \<open>auto simp: agree_on_def sub_env_def\<close>)
    moreover have "lift_let_build (Call f as t) (CallArg i) = Inr (LetE (One ?nv) r (Call f (as[i := b']) t) t)"
      using True b' by (simp add: lift_let_build_let [OF i] rename_to_avoid_capture_def mk_let_def list_ex_iff)
    moreover have "nodes_ok ok b'"
      using b' unfolding replace_free_vars_def by (rule cav_visit_ok [OF ok_b(2), rotated 2]) auto
    ultimately show ?thesis
      using call_let_refines [OF _ i, where y = ?nv and b' = b'] make_nonfree_var_fresh ok strict ok_upd by auto
  qed
qed

end

end
