(* ===== verification/BackendLaws.thy ===== *)
theory BackendLaws
  imports KsBackend RewriteSound
begin

text \<open>
  The execution of generated Python code satisfies the laws the rewrites rely on: evaluation is
  monotone, a \<open>let\<close> passes a value on, and binding the components of a tuple at once is binding its
  \<open>get$i$n\<close> one by one. The interpretation at the end makes every lemma of the locale
  \<open>tuple_algebra\<close> a fact about the execution of programs.
\<close>

section \<open>The laws\<close>

lemma nest_lets_Inr:
  assumes "\<And>r k. a_let A r k = bindE r (\<lambda>v. k (Inr v))"
  shows "first_values (length vs) h \<Longrightarrow>
    nest_lets A (map Inr vs) h = h (\<lambda>i. if i < length vs then Inr (vs ! i) else Inl IndexError)"
proof (induction vs arbitrary: h)
  case Nil
  have "h (\<lambda>i. undefined) = h (\<lambda>i. if i < length [] then Inr ([] ! i) else Inl IndexError)"
    using Nil unfolding first_values_def by (metis less_nat_zero_code list.size(3))
  then show ?case by simp
next
  case (Cons v vs)
  have "(case_nat (Inr v) (\<lambda>i. if i < length vs then Inr (vs ! i) else Inl IndexError)) =
      (\<lambda>i. if i < length (v # vs) then Inr ((v # vs) ! i) else Inl IndexError)"
    by (auto simp: fun_eq_iff split: nat.splits)
  with Cons.IH [OF first_values_Suc [of "length vs" h "Inr v"]] Cons.prems show ?case
    by (simp add: assms)
qed

lemma backend_let: "a_let (backend_algebra ops user) r k = bindE r (\<lambda>v. k (Inr v))"
  by (simp add: backend_algebra_def let_one_def)

lemma mapE_id_Inr: "mapE id rs = Inr vs \<longleftrightarrow> rs = map Inr vs"
  by (auto simp: mapE_Inr_iff list_all2_conv_all_nth list_eq_iff_nth_eq)

lemma mangled_tuple:
  assumes "mangle_without_type f = ''tuple''" "mangled f = Inr name"
  shows "name = ''tuple'' \<or> (\<exists>r. name = ''tuple@'' @ r)"
proof (cases f)
  case (SDerived d sn)
  have "CHR ''$'' \<in> set (mangle_without_type f)" by (simp add: SDerived)
  with assms(1) show ?thesis by simp
qed (use assms in auto)

lemma normalize_tuple_at: "normalize_name (''tuple@'' @ r) = ''tuple@'' @ replace_char (CHR ''$'') ''_'' r"
  by (simp add: normalize_name_def specialized_functions_def built_in_names_def starts_with_def)

lemma call_tuple:
  assumes "mangle_without_type f = ''tuple''" "call_name ops user f rs = Inr v"
  obtains vs where "rs = map Inr vs" "v = VTuple vs"
proof -
  from assms(2) obtain name where name: "mangled f = Inr name"
    by (auto simp: call_name_def)
  from mangled_tuple [OF assms(1) name] show thesis
  proof
    assume "name = ''tuple''"
    with assms(2) name that show thesis
      by (auto simp: call_name_def starts_with_def mapE_id_Inr make_tuple_def)
  next
    assume "\<exists>r. name = ''tuple@'' @ r"
    then obtain r where r: "name = ''tuple@'' @ r" ..
    have "\<not> ident_char (CHR ''@'')" by (simp add: ident_char_def is_digit_def)
    then have "\<not> list_all ident_char (normalize_name name)"
      unfolding r normalize_tuple_at by simp
    moreover have "map_of (built_ins ops) (normalize_name name) = None"
      unfolding r normalize_tuple_at by (simp add: built_ins_def)
    moreover have "\<not> starts_with ''get$'' name" "name \<noteq> ''tuple''"
      unfolding r by (simp_all add: starts_with_def)
    ultimately show thesis using assms(2) name by (auto simp: call_name_def)
  qed
qed

lemma call_get:
  assumes "v = VTuple vs \<or> v = VList vs" "1 \<le> i" "i \<le> length vs"
  shows "call_name ops user (get_name i n) [Inr v] = Inr (vs ! (i - 1))"
proof -
  have "takeWhile (\<lambda>c. c \<noteq> CHR ''$'') (nat_str i @ CHR ''$'' # nat_str n) = nat_str i"
    using nat_str_digits [of i] by (intro takeWhile_append2 [of _ _ "CHR ''$'' # nat_str n", simplified, THEN trans])
      (auto simp: is_digit_def)
  then have "tuple_index (''get$'' @ nat_str i @ ''$'' @ nat_str n) = Inr (int i - 1)"
    using nat_str_digits [of i] by (simp add: tuple_index_def Let_def list_all_iff)
  moreover have "py_index vs (int i - 1) = Inr (vs ! (i - 1))"
    using assms(2,3) by (auto simp: py_index_def Let_def nat_diff_distrib)
  ultimately show ?thesis
    using assms(1) by (auto simp: call_name_def get_name_def starts_with_def get_tuple_element_def py_item_def)
qed

lemma call_get_str:
  assumes "1 \<le> i" "i \<le> length s"
  shows "call_name ops user (get_name i n) [Inr (VStr s)] = Inr (VStr [s ! (i - 1)])"
proof -
  have "takeWhile (\<lambda>c. c \<noteq> CHR ''$'') (nat_str i @ CHR ''$'' # nat_str n) = nat_str i"
    using nat_str_digits [of i] by (intro takeWhile_append2 [of _ _ "CHR ''$'' # nat_str n", simplified, THEN trans])
      (auto simp: is_digit_def)
  then have "tuple_index (''get$'' @ nat_str i @ ''$'' @ nat_str n) = Inr (int i - 1)"
    using nat_str_digits [of i] by (simp add: tuple_index_def Let_def list_all_iff)
  moreover have "py_index s (int i - 1) = Inr (s ! (i - 1))"
    using assms by (auto simp: py_index_def Let_def nat_diff_distrib)
  ultimately show ?thesis
    by (auto simp: call_name_def get_name_def starts_with_def get_tuple_element_def py_item_def)
qed

lemma le_tuple_lets:
  assumes "mangle_without_type f = ''tuple''" "first_values (length rs) h"
  shows "le_res (a_lets (backend_algebra ops user) (length rs) (a_call (backend_algebra ops user) f rs) h)
    (nest_lets (backend_algebra ops user) rs h)"
proof (cases "call_name ops user f rs")
  case (Inr v)
  from call_tuple [OF assms(1) Inr] obtain vs where vs: "rs = map Inr vs" "v = VTuple vs" .
  have "nest_lets (backend_algebra ops user) rs h =
      h (\<lambda>i. if i < length vs then Inr (vs ! i) else Inl IndexError)"
    unfolding vs(1) by (rule nest_lets_Inr [OF backend_let]) (use assms(2) vs(1) in simp)
  with Inr vs show ?thesis by (simp add: backend_algebra_def let_tupled_def)
qed (simp add: backend_algebra_def)

lemma le_get_lets:
  assumes h: "first_values n h"
  shows "le_res (a_lets (backend_algebra ops user) n r h)
    (a_let (backend_algebra ops user) r
      (\<lambda>u. nest_lets (backend_algebra ops user)
        (map (\<lambda>i. a_call (backend_algebra ops user) (get_name i n) [u]) [1..<Suc n]) h))"
proof (cases r)
  case (Inr v)
  let ?A = "backend_algebra ops user"
  have nest: "nest_lets ?A (map (\<lambda>i. a_call ?A (get_name i n) [Inr v]) [1..<Suc n]) h =
      h (\<lambda>i. if i < n then Inr (vs ! i) else Inl IndexError)"
    if "\<And>i. 1 \<le> i \<Longrightarrow> i \<le> n \<Longrightarrow> call_name ops user (get_name i n) [Inr v] = Inr (vs ! (i - 1))"
      "length vs = n" for vs
  proof -
    have "map (\<lambda>i. a_call ?A (get_name i n) [Inr v]) [1..<Suc n] = map Inr vs"
      using that by (intro nth_equalityI) (auto simp: backend_algebra_def simp del: upt_Suc)
    with nest_lets_Inr [OF backend_let, of vs h ops user] that(2) h show ?thesis by simp
  qed
  show ?thesis
  proof (cases v)
    case (VTuple vs)
    with Inr nest [of vs] call_get [of v vs] show ?thesis
      by (cases "length vs = n") (simp_all add: backend_algebra_def let_tupled_def let_one_def)
  next
    case (VList vs)
    with Inr nest [of vs] call_get [of v vs] show ?thesis
      by (cases "length vs = n") (simp_all add: backend_algebra_def let_tupled_def let_one_def)
  next
    case (VStr s)
    have "call_name ops user (get_name i n) [Inr v] = Inr (map (\<lambda>c. VStr [c]) s ! (i - 1))"
      if "1 \<le> i" "i \<le> length s" for i
      using call_get_str [OF that, of ops user n] that by (simp add: VStr)
    with Inr VStr nest [of "map (\<lambda>c. VStr [c]) s"] show ?thesis
      by (cases "length s = n") (simp_all add: backend_algebra_def let_tupled_def let_one_def)
  qed (simp_all add: Inr backend_algebra_def let_tupled_def)
qed (simp add: backend_algebra_def)

lemma program_backend: "\<exists>user. program_algebra ops prog n = backend_algebra ops user"
  by (cases n) auto

text \<open>The laws hold for the execution of any program, whatever the depth of its calls.\<close>

interpretation backend: tuple_algebra "program_algebra ops prog n" le_res for ops prog n
proof -
  obtain user where user: "program_algebra ops prog n = backend_algebra ops user"
    using program_backend by blast
  have "let_algebra_axioms (program_algebra ops prog n) le_res"
    unfolding user by unfold_locales (auto simp: backend_let bindE_def split: sum.splits)
  moreover have "tuple_algebra_axioms (program_algebra ops prog n) le_res"
    unfolding user by unfold_locales (rule le_tuple_lets le_get_lets; assumption)+
  ultimately show "tuple_algebra (program_algebra ops prog n) le_res"
    by (simp add: tuple_algebra_def let_algebra_def program_mono)
qed

section \<open>Strict calls\<close>

text \<open>
  The code generated for \<open>get$i$n\<close> computes the first argument only; every other call computes all
  its arguments.
\<close>

definition backend_strict :: "sname \<Rightarrow> nat \<Rightarrow> bool" where
  "backend_strict f n \<longleftrightarrow> (\<forall>name. mangled f = Inr name \<longrightarrow> starts_with ''get$'' name \<longrightarrow> n \<le> 1)"

lemma mapE_id_Inl: "i < length rs \<Longrightarrow> rs ! i = Inl e \<Longrightarrow> \<exists>e'. mapE id rs = Inl e'"
  by (cases "mapE id rs") (auto simp: mapE_id_Inr)

lemma call_raises:
  assumes "backend_strict f (length rs)" "i < length rs" "rs ! i = Inl e"
  shows "\<exists>e'. call_name ops user f rs = Inl e'"
proof (cases "mangled f")
  case (Inr name)
  show ?thesis
  proof (cases "starts_with ''get$'' name")
    case True
    with assms Inr have "rs = [Inl e]" by (cases rs) (auto simp: backend_strict_def)
    with True Inr show ?thesis by (cases "tuple_index name") (simp_all add: call_name_def)
  next
    case False
    from mapE_id_Inl [OF assms(2,3)] obtain e' where "mapE id rs = Inl e'" ..
    with False Inr show ?thesis by (simp add: call_name_def)
  qed
qed (simp add: call_name_def)

lemma le_res_call_raises:
  "backend_strict f (length vs) \<Longrightarrow> i < length vs \<Longrightarrow> le_res (call_name ops user f (vs[i := Inl e])) r"
  using call_raises [of f "vs[i := Inl e]" i e ops user] by auto

interpretation strict_backend: strict_algebra "program_algebra ops prog n" le_res backend_strict for ops prog n
proof -
  obtain user where user: "program_algebra ops prog n = backend_algebra ops user"
    using program_backend by blast
  have "strict_algebra_axioms (program_algebra ops prog n) le_res backend_strict"
  proof
    fix f vs i c u v
    assume "backend_strict f (length vs)" "i < length (vs :: val result list)"
    note raises = le_res_call_raises [OF this]
    show "le_res (a_call (program_algebra ops prog n) f (vs[i := a_if (program_algebra ops prog n) c u v]))
        (a_if (program_algebra ops prog n) c (a_call (program_algebra ops prog n) f (vs[i := u]))
          (a_call (program_algebra ops prog n) f (vs[i := v])))"
    proof (cases "bindE c truthy")
      case (Inl e)
      then have "a_if (backend_algebra ops user) c u v = Inl e"
        by (cases c) (simp_all add: backend_algebra_def if_then_else_def)
      then show ?thesis unfolding user by (simp add: raises backend_algebra_def)
    next
      case (Inr b)
      then have "a_if (backend_algebra ops user) c u' v' = (if b then u' else v')" for u' v'
        by (cases c) (simp_all add: backend_algebra_def if_then_else_def)
      then show ?thesis unfolding user by simp
    qed
  next
    fix f vs i r k
    assume "backend_strict f (length vs)" "i < length (vs :: val result list)"
    note raises = le_res_call_raises [OF this]
    show "le_res (a_call (program_algebra ops prog n) f (vs[i := a_let (program_algebra ops prog n) r k]))
        (a_let (program_algebra ops prog n) r (\<lambda>u. a_call (program_algebra ops prog n) f (vs[i := k u])))"
      unfolding user by (cases r) (simp_all add: backend_let raises, simp add: backend_algebra_def raises)
  qed
  with backend.let_algebra_axioms show
    "strict_algebra (program_algebra ops prog n) le_res backend_strict"
    by (simp add: strict_algebra_def)
qed

end
