(* ===== verification/RewriteBackend.thy ===== *)
theory RewriteBackend
  imports BackendLaws
begin

text \<open>
  The rewrites on the Python backend: which of them preserve what generated code computes, and an
  expression for which one does not. Inlining a call needs the definitions the rewrites see to be
  those of the program.
\<close>

section \<open>Refinement by every program run\<close>

definition backend_refines :: "py_program \<Rightarrow> expr \<Rightarrow> expr \<Rightarrow> bool" where
  "backend_refines prog e e' \<longleftrightarrow>
     (\<forall>ops n \<rho>. le_res (eval (program_algebra ops prog n) \<rho> e) (eval (program_algebra ops prog n) \<rho> e'))"

lemma backend_refines_iff:
  "backend_refines prog e e' \<longleftrightarrow>
   (\<forall>run. mono_algebra.refines (program_algebra (fst run) prog (snd run)) le_res e e')"
  unfolding backend_refines_def
  using backend.refinesI backend.refinesD backend.le_env_refl by (metis fst_conv snd_conv)

lemma backend_refines_refl: "backend_refines prog e e"
  by (simp add: backend_refines_iff backend.refines_refl)

lemma backend_refines_trans:
  "backend_refines prog e e' \<Longrightarrow> backend_refines prog e' e'' \<Longrightarrow> backend_refines prog e e''"
  unfolding backend_refines_iff using backend.refines_trans by blast

lemma backend_refines_put_at:
  "subexpr_at e p = Inr old \<Longrightarrow> backend_refines prog old n \<Longrightarrow> backend_refines prog e (put_at e p n)"
  unfolding backend_refines_iff using backend.refines_put_at by blast

text \<open>A match has one result, so a rule that is sound for each relation is sound for all at once.\<close>

lemma rule_sound_all:
  assumes "\<And>i. rule_sound (R i) ok defs r"
  shows "rule_sound (\<lambda>e e'. \<forall>i. R i e e') ok defs r"
  unfolding rule_sound_def
proof (intro allI impI)
  fix e w env
  assume *: "nodes_ok ok e" "reached e defs w env"
  with assms obtain ms where ms: "rule_matches_here r w env = Inr ms"
    unfolding rule_sound_def by blast
  have "applies_soundly (\<lambda>e e'. \<forall>i. R i e e') ok e m" if "m \<in> set ms" for m
  proof -
    have "applies_soundly (R i) ok e m" for i
      using assms * ms that unfolding rule_sound_def by fastforce
    then show ?thesis unfolding applies_soundly_def by (metis sum.inject(2))
  qed
  with ms show "\<exists>ms. rule_matches_here r w env = Inr ms \<and>
    (\<forall>m \<in> set ms. applies_soundly (\<lambda>e e'. \<forall>i. R i e e') ok e m)" by blast
qed

lemma rule_sound_backend:
  assumes "\<And>ops n. rule_sound (mono_algebra.refines (program_algebra ops prog n) le_res) ok defs r"
  shows "rule_sound (backend_refines prog) ok defs r"
proof -
  have "backend_refines prog =
      (\<lambda>e e'. \<forall>run. mono_algebra.refines (program_algebra (fst run) prog (snd run)) le_res e e')"
    by (simp add: fun_eq_iff backend_refines_iff)
  with rule_sound_all [of "\<lambda>run. mono_algebra.refines (program_algebra (fst run) prog (snd run)) le_res"] assms
  show ?thesis by simp
qed

section \<open>Inlining a call\<close>

text \<open>
  The definitions the rewrites see are functions of the program, of one argument each, closed but for
  it. \<open>call_ok\<close> admits calls that compute all their arguments, and calls of these functions with one.
\<close>

definition call_ok :: "(sname \<rightharpoonup> var list \<times> expr) \<Rightarrow> sname \<Rightarrow> nat \<Rightarrow> bool" where
  "call_ok defs f n \<longleftrightarrow> backend_strict f n \<and> (defs f \<noteq> None \<longrightarrow> n = 1)"

definition defs_of_program :: "(sname \<rightharpoonup> var list \<times> expr) \<Rightarrow> py_program \<Rightarrow> bool" where
  "defs_of_program defs prog \<longleftrightarrow>
     (\<forall>f xs b. defs f = Some (xs, b) \<longrightarrow>
        (\<exists>x name. xs = [x] \<and> free_vars b \<subseteq> {var_name x} \<and> nodes_ok (call_ok defs) b \<and>
           mangled f = Inr name \<and> \<not> starts_with ''get$'' name \<and> name \<noteq> ''tuple'' \<and>
           list_all ident_char (normalize_name name) \<and>
           map_of prog (normalize_name name) = Some ([var_name x], b)))"

lemma inline_call_refines:
  assumes "defs_of_program defs prog" "defs f = Some ([x], b)"
  shows "backend_refines prog (Call f [a] t) (LetE (One x) a b t')"
  unfolding backend_refines_def
proof (intro allI)
  fix ops n \<rho>
  from assms obtain name where fv: "free_vars b \<subseteq> {var_name x}" and name: "mangled f = Inr name"
    "\<not> starts_with ''get$'' name" "name \<noteq> ''tuple''" "list_all ident_char (normalize_name name)"
    "map_of prog (normalize_name name) = Some ([var_name x], b)"
    unfolding defs_of_program_def by blast
  show "le_res (eval (program_algebra ops prog n) \<rho> (Call f [a] t))
      (eval (program_algebra ops prog n) \<rho> (LetE (One x) a b t'))"
  proof (cases "eval (program_algebra ops prog n) \<rho> a")
    case (Inl e)
    then show ?thesis
      using program_backend [of ops prog n] name by (auto simp: backend_algebra_def call_name_def)
  next
    case (Inr v)
    show ?thesis
    proof (cases n)
      case 0
      with Inr name show ?thesis by (simp add: backend_algebra_def call_name_def)
    next
      case (Suc m)
      let ?\<rho> = "(\<lambda>_. Inl NameError)(var_name x := Inr v)"
      have "eval (program_algebra ops prog n) \<rho> (Call f [a] t) = eval (program_algebra ops prog m) ?\<rho> b"
        using Inr name unfolding Suc by (simp add: backend_algebra_def call_name_def fun_upd_def)
      moreover have same: "eval A (\<rho>(var_name x := Inr v)) b = eval A ?\<rho> b" for A
        by (rule eval_cong) (use fv in \<open>auto simp: agree_on_def subset_iff\<close>)
      have "eval (program_algebra ops prog n) \<rho> (LetE (One x) a b t') =
          eval (program_algebra ops prog n) ?\<rho> b"
        using Inr program_backend [of ops prog n] same by (auto simp: backend_let)
      ultimately show ?thesis using program_depth_Suc [of ops prog m ?\<rho> b] by (simp add: Suc)
    qed
  qed
qed

lemma inline_call_sound:
  assumes "defs_of_program defs prog"
  shows "rule_sound (backend_refines prog) (call_ok defs) defs inline_call"
  unfolding rule_sound_def
proof (intro allI impI)
  fix e w env
  assume un: "nodes_ok (call_ok defs) e" and w: "reached e defs w env"
  note at_w = reached_at [OF w]
  then have ok_w: "nodes_ok (call_ok defs) (ewp_expr w)" using nodes_ok_subexpr un by blast
  have defs: "env_defs env = defs" using w by (induction rule: reached.induct) simp_all
  show "\<exists>ms. rule_matches_here inline_call w env = Inr ms \<and>
    (\<forall>m \<in> set ms. applies_soundly (backend_refines prog) (call_ok defs) e m)"
  proof (cases "ewp_expr w")
    case (Call f as t)
    show ?thesis
    proof (cases "defs f")
      case None
      with Call defs show ?thesis by (simp add: rule_matches_here_def inline_call_def)
    next
      case (Some d)
      with assms obtain x b where d: "d = ([x], b)" "free_vars b \<subseteq> {var_name x}" "nodes_ok (call_ok defs) b"
        unfolding defs_of_program_def by (cases d) blast
      from ok_w Call Some obtain a where a: "as = [a]" "nodes_ok (call_ok defs) a"
        by (auto simp: call_ok_def length_Suc_conv)
      let ?n = "LetE (One x) a b None"
      have "inline_call_apply w d = Inr (put_at e (ewp_path w) ?n)"
        using replace_here [of e "ewp_path w" "Call f as t" "inline_call_here d" ?n]
          nodes_ok_untupled [OF un] at_w Call a(1) d
        by (simp add: inline_call_apply_def inline_call_here_def mk_let_def)
      moreover have "backend_refines prog e (put_at e (ewp_path w) ?n)"
        using backend_refines_put_at inline_call_refines [OF assms, of f x b a t None] Some d(1) at_w Call a(1)
        by metis
      moreover have "nodes_ok (call_ok defs) (put_at e (ewp_path w) ?n)"
        using un a(2) d(3) by (simp add: nodes_ok_put_at)
      ultimately show ?thesis
        using Call Some defs by (simp add: rule_matches_here_def inline_call_def applies_soundly_def)
    qed
  qed (simp_all add: rule_matches_here_def inline_call_def term_in_def)
qed

section \<open>The sound rules\<close>

definition sound_rules :: "rule_matcher list" where
  "sound_rules = [inline_var, inline_call, delete_let, inline_let, lift_if_over_call]"

lemma sound_rules_sound:
  assumes "defs_of_program defs prog" "r \<in> set sound_rules"
  shows "rule_sound (backend_refines prog) (call_ok defs) defs r"
  using assms inline_call_sound
    rule_sound_backend [OF strict_backend.lift_if_over_call_sound [of "call_ok defs"]]
    rule_sound_backend [OF backend.inline_var_sound] rule_sound_backend [OF backend.delete_let_sound]
    rule_sound_backend [OF backend.inline_let_sound]
  by (auto simp: sound_rules_def call_ok_def)

lemma chain_refines:
  "\<forall>i < length es. backend_refines prog ((e # es) ! i) (es ! i) \<Longrightarrow> \<forall>e' \<in> set es. backend_refines prog e e'"
proof (induction es arbitrary: e)
  case (Cons e1 es)
  have "backend_refines prog e e1" using Cons.prems by (auto dest: spec [of _ 0])
  moreover have "\<forall>e' \<in> set es. backend_refines prog e1 e'"
  proof (rule Cons.IH, intro allI impI)
    fix i assume "i < length es"
    then show "backend_refines prog ((e1 # es) ! i) (es ! i)" using Cons.prems by (auto dest: spec [of _ "Suc i"])
  qed
  ultimately show ?case using backend_refines_trans by auto
qed simp

section \<open>Properties\<close>


definition square_defs :: "sname \<rightharpoonup> var list \<times> expr" where
  "square_defs = [SName ''square'' \<mapsto> ([MkVar ''a'' None],
     Call (SName ''mul'') [Var (MkVar ''a'' None), Var (MkVar ''a'' None)] None)]"

definition square_program :: py_program where
  "square_program = [(''square'', ([''a''],
     Call (SName ''mul'') [Var (MkVar ''a'' None), Var (MkVar ''a'' None)] None))]"

definition square_let :: expr where
  "square_let = LetE (One (MkVar ''x'' None)) (Const (CInt 3))
     (Call (SName ''square'') [Var (MkVar ''x'' None)] None) None"

lemma square_defs_of_program: "defs_of_program square_defs square_program"
  by (auto simp: defs_of_program_def square_defs_def square_program_def call_ok_def backend_strict_def
      starts_with_def normalize_name_def specialized_functions_def built_in_names_def ident_char_def
      is_digit_def replace_char_def)

lemma square_let_ok: "nodes_ok (call_ok square_defs) square_let"
  by (simp add: square_let_def square_defs_def call_ok_def backend_strict_def)

definition some_rules :: "string \<rightharpoonup> rule_matcher" where
  "some_rules = [''inline_var'' \<mapsto> inline_var, ''delete_let'' \<mapsto> delete_let, ''inline_call'' \<mapsto> inline_call]"

lemma some_rules_sound: "some_rules name = Some r \<Longrightarrow> r \<in> set sound_rules"
  by (auto simp: some_rules_def sound_rules_def split: if_splits)





definition lifted_call :: "expr \<Rightarrow> expr" where
  "lifted_call second =
     Call (SName ''sub'')
       [LetE (One (MkVar ''x'' None)) (Const (CInt 1))
          (Call (SName ''sub'') [Var (MkVar ''x'' None), second] None) None,
        Var (MkVar ''x'' None)] None"


text \<open>
  C26: Otherwise it is not: the new name is chosen to be fresh for the other arguments only. In
  \<open>(sub (let (x 1) (sub x x_0)) x)\<close> the bound variable is renamed to \<open>x_0\<close>, which captures the free
  variable of the body, and the result computes another value.
\<close>

lemma call_sub:
  "call_name ops (\<lambda>_. None) (SName ''sub'') [Inr (VInt i), Inr (VInt j)] = Inr (VInt (i - j))"
  by (simp add: call_name_def normalize_name_def specialized_functions_def built_in_names_def starts_with_def
      built_ins_def call2_def py_sub_def on_data2_def data_sub_def no_nd_def arith_def)

definition captured_call :: expr where
  "captured_call =
     LetE (One (MkVar ''x_0'' None)) (Const (CInt 1))
       (Call (SName ''sub'')
          [Call (SName ''sub'') [Var (MkVar ''x_0'' None), Var (MkVar ''x_0'' None)] None,
           Var (MkVar ''x'' None)] None) None"


end
