(* ===== verification/Translate.thy ===== *)
theory Translate
  imports KsBackend KsPystr
begin

text \<open>
  The text \<open>src/python/ksc/translate.py\<close> generates for the common backend: the code of expressions and
  of definitions, sample arguments, and the module around them. What the code means is the subject of
  \<open>KsBackend\<close>. As in \<open>KsPystr\<close>, \<open>repr\<close> of a float is the argument \<open>frepr\<close>. The global index into the
  list of primes is state, passed and returned. The messages printed on the way are not modelled.
\<close>

section \<open>Expressions\<close>

definition newline :: "nat \<Rightarrow> string" where
  "newline indent = CHR 0x0A # replicate indent (CHR '' '')"

text \<open>\<open>handle_let\<close>: \<open>f"{tupled}"\<close> is \<open>True\<close> or \<open>False\<close>.\<close>

definition handle_let :: "binders \<Rightarrow> string \<Rightarrow> string \<Rightarrow> nat \<Rightarrow> string" where
  "handle_let let_var let_expr body indent =
     (let tupled = (case let_var of Many _ \<Rightarrow> ''True'' | One _ \<Rightarrow> ''False'');
          var_names = (case let_var of Many vs \<Rightarrow> str_join '','' (map var_name vs) | One v \<Rightarrow> var_name v)
      in str_join (newline indent)
           [''let(tupled='' @ tupled @ '','',
            ''    var='' @ let_expr @ '','',
            ''    body=lambda '' @ var_names @ '':'',
            ''      '' @ body,
            '')''])"

text \<open>An exception in an argument of a call is raised again as a \<open>ValueError\<close>.\<close>

definition as_value_error :: "'a result \<Rightarrow> 'a result" where
  "as_value_error r = (case r of Inl _ \<Rightarrow> Inl ValueError | Inr x \<Rightarrow> Inr x)"

lemma as_value_error_cong [fundef_cong]: "r = r' \<Longrightarrow> as_value_error r = as_value_error r'"
  by simp

text \<open>There is no case for \<open>Assert\<close>: it fails the assertion that what is left is a call.\<close>

fun handle_body :: "(pyfloat \<Rightarrow> string) \<Rightarrow> expr \<Rightarrow> nat \<Rightarrow> string result" where
  "handle_body frepr (Var v) indent = Inr (var_name v)"
| "handle_body frepr (Const c) indent = Inr (repr_const frepr c)"
| "handle_body frepr (LetE vs rhs body _) indent =
     bindE (handle_body frepr rhs (indent + 2)) (\<lambda>r.
     bindE (handle_body frepr body (indent + 2)) (\<lambda>b.
     Inr (handle_let vs r b (indent + 2))))"
| "handle_body frepr (Lam x _ body _) indent =
     bindE (handle_body frepr body (indent + 2)) (\<lambda>b.
     Inr (str_join (newline indent) [''(lambda '' @ x @ '':'', ''  '' @ b, '')'']))"
| "handle_body frepr (IfE c t f _) indent =
     bindE (handle_body frepr c (indent + 2)) (\<lambda>cond.
     bindE (handle_body frepr t (indent + 2)) (\<lambda>then_branch.
     bindE (handle_body frepr f (indent + 2)) (\<lambda>else_branch.
     Inr (str_join (newline indent)
       [''if_then_else('' @ cond @ '','',
        ''             lambda: '' @ then_branch @ '','',
        ''             lambda: '' @ else_branch @ '')'']))))"
| "handle_body frepr (Assert c b _) indent = Inl AssertionError"
| "handle_body frepr (Call f args _) indent =
     bindE (mangled f) (\<lambda>name.
     bindE (mapE (\<lambda>a. as_value_error (handle_body frepr a (indent + 2))) args) (\<lambda>args_handled.
     if starts_with ''get$'' name then
       bindE (tuple_index name) (\<lambda>i.
       case args_handled of
         [] \<Rightarrow> Inl IndexError
       | t # _ \<Rightarrow> Inr (''get_tuple_element('' @ int_str i @ '', '' @ t @ '')''))
     else if name = ''tuple'' then Inr (''make_tuple('' @ str_join '', '' args_handled @ '')'')
     else Inr (normalize_name name @ ''('' @ str_join '', '' args_handled @ '')'')))"

section \<open>Sample arguments\<close>

definition primes :: "nat list" where
  "primes = [2, 3, 5, 7, 11, 13]"

text \<open>\<open>get_shape_dtype\<close>, with the index into the primes before and after.\<close>

fun get_shape_dtype :: "ty \<Rightarrow> nat \<Rightarrow> (nat list \<times> string \<times> nat) result" where
  "get_shape_dtype Integer idx = Inr ([], ''np.int32'', idx)"
| "get_shape_dtype Float idx = Inr ([], ''np.float32'', idx)"
| "get_shape_dtype (Tensor r t) idx =
     bindE (get_shape_dtype t idx) (\<lambda>(child_shape, child_type, idx').
     Inr (primes ! (idx' mod length primes) # child_shape, child_type, idx' + 1))"
| "get_shape_dtype t idx = Inl ValueError"

fun is_possibly_nested_tensor :: "ty \<Rightarrow> bool" where
  "is_possibly_nested_tensor (Tensor r t) \<longleftrightarrow> is_possibly_nested_tensor t"
| "is_possibly_nested_tensor t \<longleftrightarrow> type_eq t Integer \<or> type_eq t Float"

text \<open>How a tuple of numbers prints.\<close>

definition shape_str :: "nat list \<Rightarrow> string" where
  "shape_str ns =
     (case ns of
        [n] \<Rightarrow> ''('' @ nat_str n @ '',)''
      | _ \<Rightarrow> ''('' @ str_join '', '' (map nat_str ns) @ '')'')"

fun type_to_sample :: "ty \<Rightarrow> nat \<Rightarrow> (string \<times> nat) result"
  and types_to_samples :: "ty list \<Rightarrow> nat \<Rightarrow> (string list \<times> nat) result" where
  "type_to_sample Integer idx = Inr (''3'', idx)"
| "type_to_sample Bool idx = Inr (''True'', idx)"
| "type_to_sample Float idx = Inr (''np.random.uniform()'', idx)"
| "type_to_sample (Tensor r t) idx =
     (if is_possibly_nested_tensor (Tensor r t) then
        bindE (get_shape_dtype (Tensor r t) idx) (\<lambda>(shape, dtype, idx').
        Inr (''np.random.uniform(0, 1, '' @ shape_str shape @ '').astype('' @ dtype @ '')'', idx'))
      else bindE (type_to_sample t idx) (\<lambda>(val, idx').
        Inr (''['' @ val @ '' for _ in range(2)]'', idx')))"
| "type_to_sample (Tuple ts) idx =
     bindE (types_to_samples ts idx) (\<lambda>(ss, idx').
     Inr (''('' @ str_join ('','' @ CHR 0x0A # ''  '') ss @ '')'', idx'))"
| "type_to_sample t idx = Inl AssertionError"
| "types_to_samples [] idx = Inr ([], idx)"
| "types_to_samples (t # ts) idx =
     bindE (type_to_sample t idx) (\<lambda>(s, idx').
     bindE (types_to_samples ts idx') (\<lambda>(ss, idx'').
     Inr (s # ss, idx'')))"

fun args_to_sample_values :: "var list \<Rightarrow> nat \<Rightarrow> ((string \<times> string) list \<times> nat) result" where
  "args_to_sample_values [] idx = Inr ([], idx)"
| "args_to_sample_values (v # vs) idx =
     (case var_type v of
        None \<Rightarrow> Inl AttributeError
      | Some t \<Rightarrow>
          bindE (type_to_sample t idx) (\<lambda>(s, idx').
          bindE (args_to_sample_values vs idx') (\<lambda>(ss, idx'').
          Inr ((var_name v, s) # ss, idx''))))"

section \<open>Definitions and modules\<close>

record py_def =
  d_name :: sname
  d_str :: string
  d_sample_args :: "(string \<times> string) list"

record translator =
  t_edefs :: "(sname, string \<times> ty option) dict"
  t_defs :: "py_def list"
  t_prime_index :: nat

definition handle_def ::
    "(pyfloat \<Rightarrow> string) \<Rightarrow> sname \<Rightarrow> var list \<Rightarrow> expr \<Rightarrow> translator \<Rightarrow> translator result" where
  "handle_def frepr name args body tr =
     bindE (normalize_def_name name) (\<lambda>py_name.
     bindE (handle_body frepr body 2) (\<lambda>body_str.
     bindE (args_to_sample_values args (t_prime_index tr)) (\<lambda>(samples, idx).
     Inr (tr\<lparr>t_defs := t_defs tr @ [\<lparr>d_name = name, d_str =
            [CHR 0x0A] @ ''def '' @ py_name @ ''('' @ str_join '', '' (map var_name args) @ ''):'' @
            newline 2 @ ''return '' @ body_str @ [CHR 0x0A], d_sample_args = samples\<rparr>],
          t_prime_index := idx\<rparr>))))"

text \<open>
  \<open>parse_defs\<close>: the definitions of costs and shapes wait until all others are handled. The names of
  built-in functions need no \<open>edef\<close>; other definitions are ignored.
\<close>

fun parse_defs :: "(pyfloat \<Rightarrow> string) \<Rightarrow> tld list \<Rightarrow> tld list \<Rightarrow> translator \<Rightarrow> translator result" where
  "parse_defs frepr [] [] tr = Inr tr"
| "parse_defs frepr [] (d # delayed) tr =
     (case d of
        Def name ret args body \<Rightarrow>
          bindE (handle_def frepr name args body tr) (\<lambda>tr'. parse_defs frepr [] delayed tr')
      | _ \<Rightarrow> Inl AttributeError)"
| "parse_defs frepr (d # ds) delayed tr =
     (case d of
        EDef name ret arg \<Rightarrow>
          bindE (normalize_def_name name) (\<lambda>py_name.
          if py_name \<in> set built_in_names then parse_defs frepr ds delayed tr
          else parse_defs frepr ds delayed (tr\<lparr>t_edefs := AList.update name (py_name, ret) (t_edefs tr)\<rparr>))
      | Def name ret args body \<Rightarrow>
          if is_derived name ''cost'' \<or> is_derived name ''shape''
          then parse_defs frepr ds (delayed @ [d]) tr
          else bindE (handle_def frepr name args body tr) (\<lambda>tr'. parse_defs frepr ds delayed tr')
      | _ \<Rightarrow> parse_defs frepr ds delayed tr)"

text \<open>\<open>sorted(set(strs))\<close>\<close>

fun insert_sorted :: "string \<Rightarrow> string list \<Rightarrow> string list" where
  "insert_sorted s [] = [s]"
| "insert_sorted s (t # ts) =
     (if s = t then t # ts else if str_lt s t then s # t # ts else t # insert_sorted s ts)"

definition sorted_set :: "string list \<Rightarrow> string list" where
  "sorted_set ss = foldr insert_sorted ss []"

abbreviation quoted :: "string \<Rightarrow> string" where
  "quoted s \<equiv> [CHR 0x22] @ s @ [CHR 0x22]"

definition translate_module :: "(pyfloat \<Rightarrow> string) \<Rightarrow> tld list \<Rightarrow> translator \<Rightarrow> (string \<times> translator) result" where
  "translate_module frepr tlds tr =
     bindE (parse_defs frepr tlds [] tr) (\<lambda>tr'.
     bindE (mapE (\<lambda>d. bindE (mangled (d_name d)) (\<lambda>m. bindE (normalize_def_name (d_name d)) (\<lambda>n.
       Inr (quoted m @ '': '' @ n)))) (t_defs tr')) (\<lambda>defs_map.
     let imports = sorted_set (built_in_names @ map (fst \<circ> snd) (t_edefs tr'))
     in Inr (''import numpy as np'' @ [CHR 0x0A] @ ''import ksc'' @ [CHR 0x0A] @
         ''from ksc.type import Type'' @ [CHR 0x0A] @ ''from ksc.backends.common import ('' @ newline 2 @
         str_join ('','' @ newline 2) imports @ [CHR 0x0A] @ '')'' @ [CHR 0x0A] @
         str_join [CHR 0x0A] (map d_str (t_defs tr')) @ [CHR 0x0A, CHR 0x0A] @ ''defs={'' @ newline 2 @
         str_join ('','' @ newline 2) defs_map @ [CHR 0x0A] @ ''}'' @ [CHR 0x0A, CHR 0x0A, CHR 0x0A], tr')))"

definition make_main :: "translator \<Rightarrow> string result" where
  "make_main tr =
     (if t_defs tr = [] then Inl IndexError
      else (let main = last (t_defs tr) in
        Inr ([CHR 0x0A, CHR 0x0A] @ ''def main():'' @ newline 2 @
          str_join (newline 2) (map (\<lambda>(k, v). k @ '' = '' @ v) (d_sample_args main)) @ newline 2 @
          ''print('' @ sname_str (d_name main) @ ''('' @ str_join '', '' (map fst (d_sample_args main)) @ ''))'' @
          [CHR 0x0A, CHR 0x0A] @ ''if __name__ == '' @ quoted ''__main__'' @ '':'' @ newline 2 @ ''main()'' @
          [CHR 0x0A])))"

definition translate_ks :: "(pyfloat \<Rightarrow> string) \<Rightarrow> tld list \<Rightarrow> nat \<Rightarrow> bool \<Rightarrow> (string \<times> nat) result" where
  "translate_ks frepr tlds prime_index with_main =
     bindE (translate_module frepr tlds \<lparr>t_edefs = [], t_defs = [], t_prime_index = prime_index\<rparr>) (\<lambda>(s, tr).
     if with_main then bindE (make_main tr) (\<lambda>m. Inr (s @ m, t_prime_index tr))
     else Inr (s, t_prime_index tr))"

section \<open>Properties\<close>

fun translatable :: "expr \<Rightarrow> bool" where
  "translatable (Var v) \<longleftrightarrow> True"
| "translatable (Const c) \<longleftrightarrow> True"
| "translatable (LetE vs rhs body _) \<longleftrightarrow> translatable rhs \<and> translatable body"
| "translatable (Lam x _ body _) \<longleftrightarrow> translatable body"
| "translatable (IfE c t f _) \<longleftrightarrow> translatable c \<and> translatable t \<and> translatable f"
| "translatable (Assert c b _) \<longleftrightarrow> False"
| "translatable (Call f args _) \<longleftrightarrow>
     (\<exists>name. mangled f = Inr name \<and>
        (starts_with ''get$'' name \<longrightarrow> args \<noteq> [] \<and> \<not> isl (tuple_index name))) \<and>
     (\<forall>a \<in> set args. translatable a)"

lemma as_value_error_Inr [simp]: "as_value_error r = Inr x \<longleftrightarrow> r = Inr x"
  by (cases r) (simp_all add: as_value_error_def)


fun samplable :: "ty \<Rightarrow> bool" where
  "samplable (Tensor r t) \<longleftrightarrow> samplable t"
| "samplable (Tuple ts) \<longleftrightarrow> (\<forall>t \<in> set ts. samplable t)"
| "samplable t \<longleftrightarrow> t = Integer \<or> t = Bool \<or> t = Float"

fun tensor_depth :: "ty \<Rightarrow> nat" where
  "tensor_depth (Tensor r t) = Suc (tensor_depth t)"
| "tensor_depth t = 0"

lemma get_shape_dtype_nested:
  "is_possibly_nested_tensor t \<Longrightarrow>
   \<exists>ns dtype. get_shape_dtype t idx = Inr (ns, dtype, idx + tensor_depth t) \<and> length ns = tensor_depth t \<and>
     (\<forall>i < length ns. rev ns ! i = primes ! ((idx + i) mod 6)) \<and> dtype \<in> {''np.int32'', ''np.float32''}"
proof (induction t)
  case (Tensor r t)
  then obtain ns dtype where *: "get_shape_dtype t idx = Inr (ns, dtype, idx + tensor_depth t)"
    "length ns = tensor_depth t" "\<forall>i < length ns. rev ns ! i = primes ! ((idx + i) mod 6)"
    "dtype \<in> {''np.int32'', ''np.float32''}" by auto
  then show ?case by (auto simp: nth_append less_Suc_eq primes_def)
qed auto

text \<open>
  C16: The shape of a sample has one dimension for each level of a nested tensor, and the dimensions are
  taken from the list of primes, innermost first, one after the other from the global index on, which
  advances by their number and never leaves the list.
\<close>

theorem get_shape_dtype_bounds:
  assumes "is_possibly_nested_tensor t"
  shows "\<exists>ns dtype. get_shape_dtype t idx = Inr (ns, dtype, idx + length ns) \<and>
    length ns = tensor_depth t \<and> (\<forall>i < length ns. rev ns ! i = primes ! ((idx + i) mod 6)) \<and>
    (\<forall>n \<in> set ns. 2 \<le> n \<and> n \<le> 13) \<and> dtype \<in> {''np.int32'', ''np.float32''}"
proof -
  from get_shape_dtype_nested [OF assms, of idx] obtain ns dtype where
    *: "get_shape_dtype t idx = Inr (ns, dtype, idx + length ns)" "length ns = tensor_depth t"
      "\<forall>i < length ns. rev ns ! i = primes ! ((idx + i) mod 6)" "dtype \<in> {''np.int32'', ''np.float32''}"
    by auto
  have "primes ! (k mod 6) \<in> set primes" for k by (rule nth_mem) (simp add: primes_def)
  then have "n \<in> set primes" if "n \<in> set ns" for n
    using *(3) that in_set_conv_nth [of n "rev ns"] by auto
  moreover have "\<forall>n \<in> set primes. 2 \<le> n \<and> n \<le> 13" by (simp add: primes_def)
  ultimately have "\<forall>n \<in> set ns. 2 \<le> n \<and> n \<le> 13" by blast
  with * show ?thesis by blast
qed

theorem get_shape_dtype_bounds_witness:
  "\<exists>ns dtype. get_shape_dtype (Tensor 1 (Tensor 2 Float)) 5 = Inr (ns, dtype, 5 + length ns) \<and> length ns = 2"
  using get_shape_dtype_bounds [of "Tensor 1 (Tensor 2 Float)" 5] by auto

lemma samplable_nested: "is_possibly_nested_tensor t \<Longrightarrow> samplable t"
  by (induction t) auto

lemma type_to_sample_samplable:
  "(\<exists>r. type_to_sample t idx = Inr r) \<longleftrightarrow> samplable t"
  "(\<exists>r. types_to_samples ts idx = Inr r) \<longleftrightarrow> (\<forall>t \<in> set ts. samplable t)"
proof (induction t idx and ts idx rule: type_to_sample_types_to_samples.induct)
  case (4 r t idx)
  show ?case
  proof (cases "is_possibly_nested_tensor (Tensor r t)")
    case True
    with get_shape_dtype_nested [OF this, of idx] samplable_nested [OF this] show ?thesis by auto
  next
    case False
    with "4.IH" show ?thesis by (auto simp: bindE_eq_Inr)
  qed
next
  case (8 t ts idx)
  then show ?case by (fastforce simp: bindE_eq_Inr)
qed (auto simp: bindE_eq_Inr)

text \<open>
  The name under which a definition is generated and the name a call of it uses are computed in two
  ways. They agree on plain names and derivations of them.
\<close>

fun plain_name :: "sname \<Rightarrow> bool" where
  "plain_name (SName s) \<longleftrightarrow>
     CHR ''$'' \<notin> set s \<and> CHR ''@'' \<notin> set s \<and> s \<notin> {''or'', ''and'', ''max'', ''abs'', ''assert''}"
| "plain_name (SDerived d sn) \<longleftrightarrow>
     CHR ''$'' \<notin> set d \<and> CHR ''@'' \<notin> set d \<and> d \<noteq> ''get'' \<and> plain_name sn"
| "plain_name (STyped s t) \<longleftrightarrow> False"

lemma replace_char_absent: "c \<notin> set s \<Longrightarrow> replace_char c r s = s"
  by (induction s) (auto simp: replace_char_def)

lemma replace_char_append: "replace_char c r (s @ t) = replace_char c r s @ replace_char c r t"
  by (simp add: replace_char_def)

lemma map_of_specialized: "CHR ''@'' \<notin> set s \<Longrightarrow> map_of specialized_functions s = None"
proof -
  have "list_all (\<lambda>k. CHR ''@'' \<in> set k) (map fst specialized_functions)" by code_simp
  then show "CHR ''@'' \<notin> set s \<Longrightarrow> map_of specialized_functions s = None"
    unfolding map_of_eq_None_iff list_all_iff by (metis set_map)
qed

lemma starts_with_get: "starts_with ''get$'' s \<Longrightarrow> CHR ''$'' \<in> set s \<and> takeWhile (\<lambda>c. c \<noteq> CHR ''$'') s = ''get''"
proof -
  assume "starts_with ''get$'' s"
  then obtain r where "s = ''get$'' @ r" by (auto simp: starts_with_iff)
  then show ?thesis by simp
qed

lemma takeWhile_until: "c \<notin> set d \<Longrightarrow> takeWhile (\<lambda>x. x \<noteq> c) (d @ c # m) = d"
  by (induction d) auto

lemma plain_name_mangled:
  "plain_name sn \<Longrightarrow> mangled sn = Inr (mangle_without_type sn) \<and> CHR ''@'' \<notin> set (mangle_without_type sn) \<and>
   normalize_def_name sn = Inr (replace_char (CHR ''$'') ''_'' (mangle_without_type sn))"
proof (induction sn)
  case (SName s)
  then have "\<not> starts_with ''get$'' s" using starts_with_get by auto
  with SName show ?case
    by (auto simp: normalize_name_def map_of_specialized replace_char_absent)
next
  case (SDerived d sn)
  then show ?case
    by (simp add: replace_char_append replace_char_absent)
qed simp

text \<open>
  C15: Definitions are found by their calls: for a plain name or a derivation of one, the function that is
  generated for the definition has the name that the code of a call uses.
\<close>

theorem def_and_call_names:
  assumes "plain_name sn"
  shows "\<exists>name. mangled sn = Inr name \<and> normalize_def_name sn = Inr (normalize_name name)"
proof -
  note m = plain_name_mangled [OF assms]
  have "replace_char (CHR ''$'') ''_'' (mangle_without_type sn) = normalize_name (mangle_without_type sn)"
  proof (cases sn)
    case (SName s)
    with m show ?thesis by simp
  next
    case (SDerived d sn')
    then have d: "CHR ''$'' \<notin> set d" "d \<noteq> ''get''" using assms by auto
    have "takeWhile (\<lambda>c. c \<noteq> CHR ''$'') (mangle_without_type sn) = d"
      using d(1) by (simp add: SDerived takeWhile_until)
    then have "\<not> starts_with ''get$'' (mangle_without_type sn)" using starts_with_get d(2) by metis
    moreover have "CHR ''$'' \<in> set (mangle_without_type sn)" by (simp add: SDerived)
    moreover have "list_all (\<lambda>k. CHR ''$'' \<notin> set k) (built_in_names @ [''or'', ''and'', ''max'', ''abs'', ''assert''])"
      by code_simp
    ultimately show ?thesis
      using m map_of_specialized [of "mangle_without_type sn"] unfolding normalize_name_def list_all_iff by auto
  qed (use assms in simp)
  with m show ?thesis by simp
qed

theorem def_and_call_names_witness:
  "\<exists>name. mangled (SDerived ''rev'' (SName ''f'')) = Inr name \<and>
     normalize_def_name (SDerived ''rev'' (SName ''f'')) = Inr (normalize_name name)"
  using def_and_call_names [of "SDerived ''rev'' (SName ''f'')"] by simp

text \<open>For a derivation of an operator they differ: a call does not find the definition.\<close>

lemma derived_operator_names_differ:
  "normalize_def_name (SDerived ''rev'' (SName ''or'')) = Inr ''rev_or_'' \<and>
   mangled (SDerived ''rev'' (SName ''or'')) = Inr ''rev$or'' \<and> normalize_name ''rev$or'' = ''rev_or''"
  by code_simp

end
