(* ===== verification/Spec2Isabelle.thy ===== *)
theory Spec2Isabelle
  imports Prelude KsType KsNames KsExpr KsPystr KsPath KsSemantics Visitors FilterTerm CavSubst
    AlphaEquiv UntupleLets Prim TypePropagate Comments ParseKs KsShape AbstractBackend AbstractLaws AbstractTyping Rewrites RewriteTraversal RewritesAst RewriteSound KsBackend BackendLaws
    RewriteBackend Translate
begin

text \<open>
  This development models the Python implementation of the ksc compiler (\<open>src/python/ksc\<close> in the
  repository's \<open>src\<close> directory): a small strict functional language with types, s-expression syntax
  and structured function names, the transformations on it, and the generation of Python code.

  How the parts interact. \<open>parse_ks.py\<close> reads definitions; \<open>type_propagate.py\<close> fills in the types,
  asking \<open>prim.py\<close> for those of the primitives; \<open>untuple_lets.py\<close> and \<open>oneargify_defs.py\<close> bring
  definitions into the form other parts expect; \<open>rewrites.py\<close> finds the places where a rule applies,
  addresses them with the paths of \<open>path.py\<close> and replaces them with \<open>cav_subst.py\<close>, whose results are
  compared up to renaming by \<open>alpha_equiv.py\<close>; \<open>translate.py\<close> turns definitions into Python code that
  runs on the functions of \<open>backends\<close>.

  Conventions. Python classes are datatypes or records with the fields of the class, exceptions are
  the values of \<open>py_error\<close> on the left of a sum (\<open>'a result\<close>), a generator is the list of what it
  yields, attributes that the code fills in place are fields of a new value. Python's \<open>is\<close> on
  expressions is the argument \<open>same\<close>, of which only \<open>same a b \<longrightarrow> a = b\<close> is used. The text of a float is
  the argument \<open>frepr\<close>, and the arithmetic of floats the record \<open>py_ops\<close>.

  The theories, in the order of their imports:
  \<^item> \<open>Prelude\<close>: results and their sequencing, Python's \<open>all\<close>, decimal numerals, string operations.
  \<^item> \<open>KsType\<close> (\<open>type.py\<close>): types, their constructor checks, renderings, acceptance, tangent and shape
    types. The lemmas show the laws of acceptance, that short names decode uniquely, and that
    \<open>tangent_type\<close> and \<open>shape_type\<close> agree with their specifications.
  \<^item> \<open>KsNames\<close>, \<open>KsExpr\<close>, \<open>KsPystr\<close> (\<open>expr.py\<close>): structured names and mangling (injective on well-formed
    names), expressions, definitions, equality, free variables, printing.
  \<^item> \<open>KsPath\<close> (\<open>path.py\<close>): paths, their evaluation, enumeration and serialization (a round trip).
  \<^item> \<open>KsSemantics\<close>: the abstract specification. An \<open>algebra\<close> interprets constants, calls and binding
    forms, \<open>eval\<close> is the value of an expression in it, \<open>eval_holes\<close> the value when the sub-expressions
    at some paths are replaced by functions of the environment there. Contracts that transformations
    need of an interpretation are locales (\<open>mono_algebra\<close>, \<open>tuple_algebra\<close>, \<open>let_algebra\<close>,
    \<open>strict_algebra\<close>).
  \<^item> \<open>Visitors\<close>, \<open>FilterTerm\<close> (\<open>visitors.py\<close>, \<open>filter_term.py\<close>).
  \<^item> \<open>CavSubst\<close> (\<open>cav_subst.py\<close>): the visitor of the code, request by request, and its correctness in
    every algebra: the value of the result is that of the original with the holes filled.
  \<^item> \<open>AlphaEquiv\<close> (\<open>alpha_equiv.py\<close>): the comparison, sound in every algebra, and the hash it respects.
  \<^item> \<open>UntupleLets\<close> (\<open>untuple_lets.py\<close>, \<open>oneargify_defs.py\<close>).
  \<^item> \<open>KsBackend\<close>, \<open>BackendLaws\<close> (\<open>backends/common.py\<close>, the evaluation of what \<open>translate.py\<close> emits): the
    run-time values, the functions of the backend and \<open>program_algebra ops prog n\<close>, the evaluation of
    code next to the definitions \<open>prog\<close>, with calls to them at most \<open>n\<close> deep. The depth is the fuel of
    the model: more never changes a value that was reached (\<open>program_result_stable\<close>), and a refinement
    is stated for every depth, so it never says less about a program that returns.
    The locales of the specification are interpreted here (\<open>backend\<close>, \<open>strict_backend\<close>).
  \<^item> \<open>Prim\<close>, \<open>TypePropagate\<close> (\<open>prim.py\<close>, \<open>type_propagate.py\<close>): the types of primitives; propagation agrees
    with a typing relation, both ways.
  \<^item> \<open>Comments\<close>, \<open>ParseKs\<close> (\<open>parse_ks.py\<close>): the removal of block comments from the text, with the condition
    under which nested comments are removed; the parser on s-expressions, with the round trip of
    printing and parsing.
  \<^item> \<open>Rewrites\<close>, \<open>RewriteTraversal\<close>, \<open>RewritesAst\<close> (\<open>rewrites.py\<close>, \<open>rewrites_ast.py\<close>, \<open>rewrites_prim.py\<close>): rule
    matchers, the traversal, rules parsed from text and rules in code. The traversal reports exactly the
    matches at the positions the relation \<open>reached\<close> describes.
  \<^item> \<open>RewriteSound\<close>, \<open>RewriteBackend\<close>: every match of a sound rule applies and the result refines the
    expression, in every algebra with the laws the rule needs and so on the Python backend.
  \<^item> \<open>Translate\<close> (\<open>translate.py\<close>): the text of the generated module.
  \<^item> \<open>KsShape\<close> (\<open>shape.py\<close>), \<open>AbstractBackend\<close> (\<open>abstract_value.py\<close>, \<open>backends/abstract.py\<close>, \<open>cost.py\<close>):
    shapes, and the execution of generated code on values of which the shape and the type are known,
    with the costs it adds up in a stack of execution contexts. The stack is passed explicitly
    (\<open>'a exec\<close>), also by exceptions. \<open>module_functions ops m n\<close> are the functions of a module with calls
    at most \<open>n\<close> deep. \<open>AbstractLaws\<close> shows that every computation changes the costs of the innermost
    context only (\<open>framed\<close>) and what a declared function is charged. \<open>AbstractTyping\<close> shows that abstract
    execution gives values of the types \<open>type_propagate\<close> infers: for calls whose type and execution are
    about the same thing (\<open>runnable\<close>), in modules whose definitions have their declared types
    (\<open>module_typed\<close>), and that the two disagree on other calls.

  What the properties show. Substitution, untupling and the rewrites keep what programs compute
  wherever that is defined (\<open>replace_subtrees_correct\<close>, \<open>untuple_lets_correct\<close>, \<open>rewriting_sound\<close>);
  equivalence is sound and its hash consistent; every search for matches is exact; what is printed or
  serialized is read back. The properties named after an exception, a swap or a capture state where
  the code does not keep these promises: \<open>untuple_lets_swap\<close>, \<open>lift_let_over_call_captures\<close>,
  \<open>hash_with_alpha_shadowing\<close>, \<open>lift_let_over_assert_body_raises\<close>, \<open>strip_block_comments_adjacent\<close>,
  \<open>tupled_let_never_returns\<close>, \<open>build_cost_of_body\<close>, \<open>shape_type_matches_prefix\<close>.

  Not modelled. The reader \<open>sexpdata\<close>, \<open>numpy\<close>'s arithmetic on arrays, \<open>prettyprinter\<close> and \<open>torch\<close> are
  libraries: the parser starts from s-expressions, an operation on arrays is an error value. The
  messages of exceptions and what is printed to the console are left out. \<open>Assert\<close> has the meaning of
  \<open>assert_\<close> of the backend although \<open>handle_body\<close> refuses it. The \<open>jax\<close> backend, the compilation and
  loading of C++ (\<open>compile.py\<close>), tracing of Python functions, the torch frontend, the learning system
  \<open>rlo\<close> and its scripts, and the parts of the repository in other languages (the Haskell compiler, the
  C++ runtime, the MLIR, F#, Julia and TypeScript tools) are outside the development; \<open>PROJECT.json\<close>
  lists each with the reason.
\<close>

section \<open>Properties across components\<close>


definition pair_let :: expr where
  "pair_let = LetE (Many [MkVar ''a'' None, MkVar ''b'' None])
     (Call (SName ''tuple'') [Const (CInt 3), Var (MkVar ''y'' None)] None)
     (Call (SName ''sub'') [Var (MkVar ''a'' None), Var (MkVar ''b'' None)] None) None"


text \<open>
  C28: Without that condition it is not: \<open>let (a, b) = (b, a) in a - b\<close> swaps its variables, its
  untupled form sets \<open>a\<close> to \<open>b\<close> before \<open>b\<close> is set to \<open>a\<close>, and returns 0.
\<close>

lemma call_pair:
  "call_name ops user (SName ''tuple'') [Inr v, Inr w] = Inr (VTuple [v, w])"
  by (simp add: call_name_def starts_with_def make_tuple_def)



text \<open>\<open>(def fac Integer (n : Integer) (if (lt n 1) 1 (mul n (fac (sub n 1)))))\<close>\<close>

definition fac_program :: py_program where
  "fac_program = [(''fac'', ([''n''],
     IfE (Call (SName ''lt'') [Var (MkVar ''n'' None), Const (CInt 1)] None) (Const (CInt 1))
       (Call (SName ''mul'') [Var (MkVar ''n'' None),
         Call (SName ''fac'') [Call (SName ''sub'') [Var (MkVar ''n'' None), Const (CInt 1)] None] None] None) None))]"


end
